(* ===== verification/Prelude.thy ===== *)
theory Prelude
  imports Main "HOL-Library.Word" "HOL-Library.AList" "HOL-Library.Multiset" "HOL-Library.Signed_Division"
begin

text \<open>
  What every component of the model shares: the machine integers of the C++ code, the ways a
  call can go wrong that C++ does not report as a value (\<open>fault\<close>), the standard library's
  \<open>std::unordered_map\<close> with the interface its users rely on, callbacks, reachable states, and
  the lemma collections that the component theories hand to the simplifier.
\<close>

unbundle bit_operations_syntax

named_theorems model_defs
  \<open>definitions of one component's operations, unfolded together\<close>

named_theorems outcome_simps
  \<open>equations about outcomes that may be a fault\<close>

section \<open>Machine integers\<close>

type_synonym u8 = "8 word"
type_synonym u16 = "16 word"
type_synonym u32 = "32 word"
type_synonym u64 = "64 word"

text \<open>
  Signed 64-bit values are kept as \<^typ>\<open>int\<close>; signed overflow is undefined behaviour in C++, so
  an operation that can overflow checks the range and faults.
\<close>

definition int64_ok :: "int \<Rightarrow> bool" where
  "int64_ok x \<longleftrightarrow> - (2 ^ 63) \<le> x \<and> x < 2 ^ 63"

text \<open>A point of \<open>std::chrono::steady_clock\<close> or \<open>system_clock\<close>, in ticks of the clock.\<close>

type_synonym time_point = int

text \<open>A registered \<open>std::function\<close> object is known by a number; \<^const>\<open>None\<close> is an empty one.\<close>

type_synonym callback = nat

lemma word_xor_eq_0:
  fixes a b :: "'w::len word"
  shows "a XOR b = 0 \<longleftrightarrow> a = b"
proof
  assume h: "a XOR b = 0"
  show "a = b"
  proof (rule bit_word_eqI)
    fix n
    have "bit (a XOR b) n \<longleftrightarrow> False" using h by simp
    then show "bit a n \<longleftrightarrow> bit b n" by (simp add: bit_xor_iff)
  qed
qed simp

lemma word_xor_cancel:
  fixes a b p :: "'w::len word"
  shows "a XOR p = b XOR p \<longleftrightarrow> a = b"
proof
  assume h: "a XOR p = b XOR p"
  have "(a XOR p) XOR (b XOR p) = a XOR b"
    by (rule bit_word_eqI) (auto simp: bit_xor_iff)
  with h have "a XOR b = 0" by simp
  then show "a = b" by (simp add: word_xor_eq_0)
qed simp

text \<open>The simplifier turns a left shift by one into a doubling.\<close>

lemma bit_shift_one [bit_simps]:
  fixes c :: "'w::len word"
  shows "bit (c * 2) n \<longleftrightarrow> n < LENGTH('w) \<and> n \<noteq> 0 \<and> bit c (n - 1)"
  using bit_double_iff [of c n] by (simp add: mult.commute)

lemma unat_of_nat_u32: "n < 2 ^ 32 \<Longrightarrow> unat (of_nat n :: u32) = n"
  by (simp add: unat_of_nat take_bit_nat_eq_self)

lemma unat_of_nat_u16: "n < 2 ^ 16 \<Longrightarrow> unat (of_nat n :: u16) = n"
  by (simp add: unat_of_nat take_bit_nat_eq_self)

text \<open>Truncating division and remainder, as of C++, where they are the flooring ones.\<close>

lemma sdiv_nonneg: "0 \<le> (x::int) \<Longrightarrow> 0 < y \<Longrightarrow> x sdiv y = x div y"
  by (auto simp: signed_divide_int_def sgn_if)

lemma smod_nonneg: "0 \<le> (x::int) \<Longrightarrow> 0 < y \<Longrightarrow> x smod y = x mod y"
  by (auto simp: signed_modulo_int_def sgn_if)

text \<open>Bytes in a 64-bit register.\<close>

lemma unat_u8_u64 [simp]: "unat (ucast (b :: u8) :: u64) = unat b"
proof -
  have "unat b < 2 ^ 8" using unsigned_less [of b, where 'a = nat] by simp
  then have "unat b < 2 ^ 64" by simp
  then show ?thesis by (simp add: unsigned_ucast_eq take_bit_nat_eq_self)
qed

lemma ucast_u8_u64_inject [simp]: "(ucast (b :: u8) :: u64) = ucast b' \<longleftrightarrow> b = b'"
  by (metis unat_u8_u64 unsigned_word_eqI)

text \<open>The bits of a 32-bit word by the byte they are in.\<close>

lemma u32_bit_cases:
  assumes "n < LENGTH(32)"
  obtains "n < 8" | k where "n = 8 + k" "k < 8" | k where "n = 16 + k" "k < 8"
    | k where "n = 24 + k" "k < 8"
proof -
  have "n < 8 \<or> n - 8 < 8 \<and> n = 8 + (n - 8) \<or> n - 16 < 8 \<and> n = 16 + (n - 16) \<or>
      n - 24 < 8 \<and> n = 24 + (n - 24)"
    using assms by simp linarith
  then show thesis using that by blast
qed

section \<open>Callbacks\<close>

text \<open>
  \<open>if (cb) cb(args)\<close>: what a call hands to the registered callback, if there is one. An
  operation returns the list of the invocations it makes, in order.
\<close>

definition invoke :: "callback option \<Rightarrow> 'a \<Rightarrow> (callback \<times> 'a) list" where
  "invoke cb x = (case cb of None \<Rightarrow> [] | Some f \<Rightarrow> [(f, x)])"

lemma invoke_simps [simp]: "invoke None x = []" "invoke (Some f) x = [(f, x)]"
  by (simp_all add: invoke_def)

lemma invoke_Nil_iff [simp]: "invoke cb x = [] \<longleftrightarrow> cb = None"
  by (cases cb) simp_all

section \<open>Faults\<close>

text \<open>
  What C++ leaves undefined or never returns from. A call that can end this way has type
  \<open>'a outcome\<close>, and \<^const>\<open>Inl\<close> is the fault.
\<close>

datatype fault =
    SignedOverflow   \<comment> \<open>signed arithmetic out of range\<close>
  | OutOfBounds      \<comment> \<open>a read past the end of a buffer\<close>
  | EmptyPop         \<comment> \<open>\<open>pop\<close> on an empty \<open>std::queue\<close>\<close>
  | NullDeref        \<comment> \<open>a call through an empty smart pointer\<close>
  | SelfDeadlock     \<comment> \<open>a thread locking a \<open>std::mutex\<close> it already holds\<close>
  | DivByZero        \<comment> \<open>remainder by zero\<close>
  | UseAfterFree     \<comment> \<open>a call on an object that has been destroyed\<close>

type_synonym 'a outcome = "fault + 'a"

definition obind :: "'a outcome \<Rightarrow> ('a \<Rightarrow> 'b outcome) \<Rightarrow> 'b outcome" where
  "obind r f = (case r of Inl e \<Rightarrow> Inl e | Inr x \<Rightarrow> f x)"

definition ok :: "'a outcome \<Rightarrow> bool" where
  "ok r \<longleftrightarrow> (\<exists>x. r = Inr x)"

text \<open>Reading the first \<open>n\<close> elements of a raw buffer before going on with \<open>k\<close>.\<close>

definition reading :: "nat \<Rightarrow> 'x list \<Rightarrow> 'a outcome \<Rightarrow> 'a outcome" where
  "reading n buf k = (if n \<le> length buf then k else Inl OutOfBounds)"

lemma reading_inside [simp]: "n \<le> length buf \<Longrightarrow> reading n buf k = k"
  by (simp add: reading_def)

lemma obind_Inl [simp, outcome_simps]: "obind (Inl e) f = Inl e"
  by (simp add: obind_def)

lemma obind_Inr [simp, outcome_simps]: "obind (Inr x) f = f x"
  by (simp add: obind_def)

lemma obind_eq_Inr [outcome_simps]: "obind r f = Inr y \<longleftrightarrow> (\<exists>x. r = Inr x \<and> f x = Inr y)"
  by (cases r) simp_all

lemma obind_eq_Inl [outcome_simps]:
  "obind r f = Inl e \<longleftrightarrow> r = Inl e \<or> (\<exists>x. r = Inr x \<and> f x = Inl e)"
  by (cases r) simp_all

lemma obind_assoc: "obind (obind r f) g = obind r (\<lambda>x. obind (f x) g)"
  by (cases r) simp_all

lemma ok_simps [simp]: "ok (Inr x)" "\<not> ok (Inl e)"
  by (simp_all add: ok_def)

section \<open>Hash maps\<close>

text \<open>
  \<open>std::unordered_map\<close> as the code uses it: \<open>find\<close>, \<open>operator[]\<close> with an assignment,
  \<open>erase\<close>, and iteration. The entries are kept in a list with distinct keys; the list's order
  stands for the container's unspecified iteration order, so what the code computes by iterating
  is shown not to depend on it.
\<close>

type_synonym ('k, 'v) umap = "('k \<times> 'v) list"

definition um_empty :: "('k, 'v) umap" where
  "um_empty = []"

definition um_find :: "('k, 'v) umap \<Rightarrow> 'k \<Rightarrow> 'v option" where
  "um_find m k = map_of m k"

definition um_put :: "'k \<Rightarrow> 'v \<Rightarrow> ('k, 'v) umap \<Rightarrow> ('k, 'v) umap" where
  "um_put k v m = AList.update k v m"

definition um_erase :: "'k \<Rightarrow> ('k, 'v) umap \<Rightarrow> ('k, 'v) umap" where
  "um_erase k m = AList.delete k m"

definition um_ok :: "('k, 'v) umap \<Rightarrow> bool" where
  "um_ok m \<longleftrightarrow> distinct (map fst m)"

definition um_values :: "('k, 'v) umap \<Rightarrow> 'v list" where
  "um_values m = map snd m"

definition um_map :: "('v \<Rightarrow> 'w) \<Rightarrow> ('k, 'v) umap \<Rightarrow> ('k, 'w) umap" where
  "um_map f m = map (\<lambda>(k, v). (k, f v)) m"

text \<open>The contract a user of the container relies on, and what follows from it.\<close>

locale hash_map =
  fixes find :: "'m \<Rightarrow> 'k \<Rightarrow> 'v option"
    and put :: "'k \<Rightarrow> 'v \<Rightarrow> 'm \<Rightarrow> 'm"
    and erase :: "'k \<Rightarrow> 'm \<Rightarrow> 'm"
    and vals :: "'m \<Rightarrow> 'v list"
    and wf :: "'m \<Rightarrow> bool"
    and empty :: "'m"
  assumes find_empty: "find empty k = None"
    and find_put: "find (put k v m) k' = (if k' = k then Some v else find m k')"
    and find_erase: "find (erase k m) k' = (if k' = k then None else find m k')"
    and wf_empty: "wf empty"
    and wf_put: "wf m \<Longrightarrow> wf (put k v m)"
    and wf_erase: "wf m \<Longrightarrow> wf (erase k m)"
    and set_vals: "wf m \<Longrightarrow> set (vals m) = {v. \<exists>k. find m k = Some v}"
begin

lemma find_put_same [simp]: "find (put k v m) k = Some v"
  by (simp add: find_put)

lemma find_put_other [simp]: "k' \<noteq> k \<Longrightarrow> find (put k v m) k' = find m k'"
  by (simp add: find_put)

lemma find_erase_same [simp]: "find (erase k m) k = None"
  by (simp add: find_erase)

lemma vals_all:
  "wf m \<Longrightarrow> (\<forall>v \<in> set (vals m). P v) \<longleftrightarrow> (\<forall>k v. find m k = Some v \<longrightarrow> P v)"
  by (auto simp: set_vals)

lemma put_keeps_all:
  assumes "\<forall>k v. find m k = Some v \<longrightarrow> P k v" and "P k' v'"
  shows "\<forall>k v. find (put k' v' m) k = Some v \<longrightarrow> P k v"
  using assms by (simp add: find_put)

lemma erase_keeps_all:
  assumes "\<forall>k v. find m k = Some v \<longrightarrow> P k v"
  shows "\<forall>k v. find (erase k' m) k = Some v \<longrightarrow> P k v"
  using assms by (simp add: find_erase)

end

lemma um_set_values: "um_ok m \<Longrightarrow> set (um_values m) = {v. \<exists>k. um_find m k = Some v}"
  by (force simp: um_ok_def um_values_def um_find_def map_of_eq_Some_iff)

lemma um_find_update: "um_find (um_put k v m) k' = (if k' = k then Some v else um_find m k')"
  by (simp add: um_find_def um_put_def update_conv')

lemma um_find_delete: "um_find (um_erase k m) k' = (if k' = k then None else um_find m k')"
  by (simp add: um_find_def um_erase_def delete_conv')

interpretation um: hash_map um_find um_put um_erase um_values um_ok um_empty
proof (unfold_locales, goal_cases)
  case (1 k) show ?case by (simp add: um_find_def um_empty_def)
next
  case (2 k v m k') show ?case by (rule um_find_update)
next
  case (3 k m k') show ?case by (rule um_find_delete)
next
  case 4 show ?case by (simp add: um_ok_def um_empty_def)
next
  case (5 m k v) then show ?case by (simp add: um_ok_def um_put_def distinct_update)
next
  case (6 m k) then show ?case by (simp add: um_ok_def um_erase_def distinct_delete)
next
  case (7 m) then show ?case by (rule um_set_values)
qed

lemmas um_simps = um.find_empty um.find_put um.find_erase

lemma um_find_map [simp]: "um_find (um_map f m) k = map_option f (um_find m k)"
  by (induction m) (auto simp: um_find_def um_map_def)

lemma um_ok_map [simp]: "um_ok (um_map f m) = um_ok m"
  by (simp add: um_ok_def um_map_def case_prod_beta comp_def)

lemma um_ok_Nil [simp]: "um_ok []"
  by (simp add: um_ok_def)

lemma um_find_Nil [simp]: "um_find [] k = None"
  by (simp add: um_find_def)

lemma um_list_all:
  "um_ok m \<Longrightarrow> list_all P m \<longleftrightarrow> (\<forall>k v. um_find m k = Some v \<longrightarrow> P (k, v))"
  by (auto simp: um_ok_def um_find_def list_all_iff map_of_eq_Some_iff)

lemmas um_eval = um_find_def um_put_def um_erase_def um_values_def um_map_def um_empty_def um_ok_def

section \<open>Runs and reachable states\<close>

text \<open>
  A component is a state and the operations clients call on it. A run applies a list of
  operations in order; the reachable states are the ends of runs from an initial state.
\<close>

fun run :: "('s \<Rightarrow> 'a \<Rightarrow> 's) \<Rightarrow> 's \<Rightarrow> 'a list \<Rightarrow> 's" where
  "run step s [] = s"
| "run step s (a # as) = run step (step s a) as"

inductive reachable :: "('s \<Rightarrow> bool) \<Rightarrow> ('s \<Rightarrow> 's \<Rightarrow> bool) \<Rightarrow> 's \<Rightarrow> bool"
  for init :: "'s \<Rightarrow> bool" and step :: "'s \<Rightarrow> 's \<Rightarrow> bool" where
  start: "init s \<Longrightarrow> reachable init step s"
| move: "reachable init step s \<Longrightarrow> step s t \<Longrightarrow> reachable init step t"

text \<open>The contract of an invariant, and its two consequences.\<close>

locale invariant_step =
  fixes step :: "'s \<Rightarrow> 'a \<Rightarrow> 's" and inv :: "'s \<Rightarrow> bool"
  assumes step_inv: "inv s \<Longrightarrow> inv (step s a)"
begin

lemma run_inv: "inv s \<Longrightarrow> inv (run step s as)"
  by (induction as arbitrary: s) (simp_all add: step_inv)

end

locale invariant_rel =
  fixes init :: "'s \<Rightarrow> bool" and step :: "'s \<Rightarrow> 's \<Rightarrow> bool" and inv :: "'s \<Rightarrow> bool"
  assumes init_inv: "init s \<Longrightarrow> inv s"
    and rel_inv: "inv s \<Longrightarrow> step s t \<Longrightarrow> inv t"
begin

lemma reachable_inv: "reachable init step s \<Longrightarrow> inv s"
  by (induction rule: reachable.induct) (auto intro: init_inv rel_inv)

end

text \<open>
  A log of changes, each with the state before and after, that starts in \<open>s\<close>, follows the
  edges of a graph without a gap and ends in \<open>t\<close>.
\<close>

fun edge_path :: "('s \<Rightarrow> 's \<Rightarrow> bool) \<Rightarrow> 's \<Rightarrow> ('s \<times> 's) list \<Rightarrow> 's \<Rightarrow> bool" where
  "edge_path edge s [] t \<longleftrightarrow> s = t"
| "edge_path edge s ((a, b) # es) t \<longleftrightarrow> a = s \<and> edge a b \<and> edge_path edge b es t"

lemma edge_path_append:
  "edge_path edge s (es @ fs) t \<longleftrightarrow> (\<exists>u. edge_path edge s es u \<and> edge_path edge u fs t)"
  by (induction es arbitrary: s) auto

lemma edge_path_snoc [simp]:
  "edge_path edge s (es @ [(a, b)]) t \<longleftrightarrow> edge_path edge s es a \<and> edge a b \<and> b = t"
  by (auto simp: edge_path_append)

lemma run_append: "run step s (as @ bs) = run step (run step s as) bs"
  by (induction as arbitrary: s) simp_all

end
