(* ===== verification/Nm.thy ===== *)
theory Nm
  imports Prelude
begin

text \<open>
  ara::nm, network management: include/ara/nm/network_management.h and src/ara/nm/nm.cpp. A
  network is a record with a state and a reference count; \<open>RequestNetwork\<close> and
  \<open>ReleaseNetwork\<close> count its users, and the RAII class \<open>NetworkHandle\<close> ties one count to
  the lifetime of one object. The locale \<open>counted_resource\<close> is what a holder of handles relies
  on; its laws are proved for the code's operations, and give that a network is active exactly
  while some valid handle to it lives.
\<close>

section \<open>Data\<close>

datatype NetworkState =
  kBusSleep | kPrepareBusSleep | kReady | kNormal | kRepeat | kError

datatype NmRequestResult = kSuccess | kAlreadyRequested | kNetworkUnknown | kError

text \<open>\<open>NetworkId\<close> is an enum over \<open>uint16_t\<close>: any 16-bit value can be passed.\<close>

type_synonym NetworkId = u16

definition kEthIPC :: NetworkId where "kEthIPC = 0x0001"
definition kEthExternal :: NetworkId where "kEthExternal = 0x0002"
definition kEthDoIP :: NetworkId where "kEthDoIP = 0x0003"
definition kLoopback :: NetworkId where "kLoopback = 0x00FF"

lemmas network_ids = kEthIPC_def kEthExternal_def kEthDoIP_def kLoopback_def

record NetworkRecord =
  nr_id :: NetworkId
  nr_state :: NetworkState
  nr_refCount :: u32

record NetworkManagement =
  nm_networks :: "(u16, NetworkRecord) umap"
  nm_stateCallback :: "callback option"

type_synonym NmNotification = "callback \<times> NetworkId \<times> NetworkState \<times> NetworkState"

definition NetworkManagement_new :: NetworkManagement where
  "NetworkManagement_new = \<lparr>nm_networks = um_empty, nm_stateCallback = None\<rparr>"

section \<open>Operations\<close>

definition RequestNetwork ::
  "NetworkId \<Rightarrow> NetworkManagement \<Rightarrow> NmRequestResult \<times> NetworkManagement \<times> NmNotification list"
where
  "RequestNetwork networkId nm =
     (case um_find (nm_networks nm) networkId of
        None \<Rightarrow> (NmRequestResult.kNetworkUnknown, nm, [])
      | Some rec \<Rightarrow>
          let prev = nr_refCount rec;
              rec1 = rec\<lparr>nr_refCount := prev + 1\<rparr>
          in if prev = 0
             then let oldState = nr_state rec1;
                      rec2 = rec1\<lparr>nr_state := NetworkState.kNormal\<rparr>
                  in (NmRequestResult.kSuccess,
                      nm\<lparr>nm_networks := um_put networkId rec2 (nm_networks nm)\<rparr>,
                      invoke (nm_stateCallback nm)
                        (networkId, oldState, NetworkState.kNormal))
             else (NmRequestResult.kAlreadyRequested,
                   nm\<lparr>nm_networks := um_put networkId rec1 (nm_networks nm)\<rparr>, []))"

definition ReleaseNetwork ::
  "NetworkId \<Rightarrow> NetworkManagement \<Rightarrow> NmRequestResult \<times> NetworkManagement \<times> NmNotification list"
where
  "ReleaseNetwork networkId nm =
     (case um_find (nm_networks nm) networkId of
        None \<Rightarrow> (NmRequestResult.kNetworkUnknown, nm, [])
      | Some rec \<Rightarrow>
          if nr_refCount rec = 0 then (NmRequestResult.kError, nm, [])
          else
            let prev = nr_refCount rec;
                rec1 = rec\<lparr>nr_refCount := prev - 1\<rparr>
            in if prev = 1
               then let oldState = nr_state rec1;
                        rec2 = rec1\<lparr>nr_state := NetworkState.kBusSleep\<rparr>
                    in (NmRequestResult.kSuccess,
                        nm\<lparr>nm_networks := um_put networkId rec2 (nm_networks nm)\<rparr>,
                        invoke (nm_stateCallback nm)
                          (networkId, oldState, NetworkState.kBusSleep))
               else (NmRequestResult.kSuccess,
                     nm\<lparr>nm_networks := um_put networkId rec1 (nm_networks nm)\<rparr>, []))"

definition GetNetworkState :: "NetworkId \<Rightarrow> NetworkManagement \<Rightarrow> NetworkState" where
  "GetNetworkState networkId nm =
     (case um_find (nm_networks nm) networkId of
        None \<Rightarrow> NetworkState.kError
      | Some rec \<Rightarrow> nr_state rec)"

definition RegisterNetworkStateCallback ::
  "callback option \<Rightarrow> NetworkManagement \<Rightarrow> NetworkManagement" where
  "RegisterNetworkStateCallback cb nm = nm\<lparr>nm_stateCallback := cb\<rparr>"

text \<open>The local lambda \<open>addNetwork\<close> of \<open>Initialize\<close>, and \<open>Initialize\<close>.\<close>

definition addNetwork :: "NetworkId \<Rightarrow> NetworkManagement \<Rightarrow> NetworkManagement" where
  "addNetwork netId nm =
     (if um_find (nm_networks nm) netId = None
      then nm\<lparr>nm_networks := um_put netId
             \<lparr>nr_id = netId, nr_state = NetworkState.kBusSleep, nr_refCount = 0\<rparr>
             (nm_networks nm)\<rparr>
      else nm)"

definition Nm_Initialize :: "NetworkManagement \<Rightarrow> bool \<times> NetworkManagement" where
  "Nm_Initialize nm =
     (True, addNetwork kLoopback (addNetwork kEthDoIP
              (addNetwork kEthExternal (addNetwork kEthIPC nm))))"

definition Nm_Shutdown :: "NetworkManagement \<Rightarrow> NetworkManagement" where
  "Nm_Shutdown nm =
     nm\<lparr>nm_networks :=
          um_map (\<lambda>rec. rec\<lparr>nr_refCount := 0, nr_state := NetworkState.kBusSleep\<rparr>)
            (nm_networks nm)\<rparr>"

definition GetActiveNetworks :: "NetworkManagement \<Rightarrow> NetworkId list" where
  "GetActiveNetworks nm =
     map nr_id (filter (\<lambda>rec. nr_state rec = NetworkState.kNormal) (um_values (nm_networks nm)))"

section \<open>Network handles\<close>

record NetworkHandle =
  nh_networkId :: NetworkId
  nh_valid :: bool

definition NetworkHandle_ctor ::
  "NetworkId \<Rightarrow> NetworkManagement \<Rightarrow> NetworkHandle \<times> NetworkManagement \<times> NmNotification list"
where
  "NetworkHandle_ctor networkId nm =
     (case RequestNetwork networkId nm of (result, nm', calls) \<Rightarrow>
        (\<lparr>nh_networkId = networkId,
          nh_valid = (result = NmRequestResult.kSuccess \<or>
                      result = NmRequestResult.kAlreadyRequested)\<rparr>, nm', calls))"

definition NetworkHandle_dtor ::
  "NetworkHandle \<Rightarrow> NetworkManagement \<Rightarrow> NetworkManagement \<times> NmNotification list" where
  "NetworkHandle_dtor h nm =
     (if nh_valid h
      then (case ReleaseNetwork (nh_networkId h) nm of (_, nm', calls) \<Rightarrow> (nm', calls))
      else (nm, []))"

definition Handle_IsValid :: "NetworkHandle \<Rightarrow> bool" where
  "Handle_IsValid h = nh_valid h"

definition GetNetworkId :: "NetworkHandle \<Rightarrow> NetworkId" where
  "GetNetworkId h = nh_networkId h"

text \<open>The move constructor: the new object, and what is left of the one moved from.\<close>

definition NetworkHandle_move :: "NetworkHandle \<Rightarrow> NetworkHandle \<times> NetworkHandle" where
  "NetworkHandle_move other =
     (\<lparr>nh_networkId = nh_networkId other, nh_valid = nh_valid other\<rparr>,
      other\<lparr>nh_valid := False\<rparr>)"

section \<open>Well-formed networks\<close>

text \<open>
  The state of a network follows its reference count; the other states of the enum are never
  entered.
\<close>

definition record_ok :: "u16 \<times> NetworkRecord \<Rightarrow> bool" where
  "record_ok = (\<lambda>(k, rec). nr_id rec = k \<and>
     nr_state rec = (if nr_refCount rec = 0 then NetworkState.kBusSleep else NetworkState.kNormal))"

definition nm_ok :: "NetworkManagement \<Rightarrow> bool" where
  "nm_ok nm \<longleftrightarrow> um_ok (nm_networks nm) \<and> list_all record_ok (nm_networks nm)"

text \<open>The abstract view: how many requests each known network has.\<close>

definition nm_count :: "NetworkManagement \<Rightarrow> NetworkId \<Rightarrow> nat option" where
  "nm_count nm k = map_option (\<lambda>rec. unat (nr_refCount rec)) (um_find (nm_networks nm) k)"

lemma nm_ok_iff:
  "nm_ok nm \<longleftrightarrow> um_ok (nm_networks nm) \<and>
     (\<forall>k rec. um_find (nm_networks nm) k = Some rec \<longrightarrow> record_ok (k, rec))"
  by (auto simp: nm_ok_def um_list_all)

lemma nm_okD:
  assumes "nm_ok nm" and "um_find (nm_networks nm) k = Some rec"
  shows "nr_id rec = k"
    and "nr_state rec = (if nr_refCount rec = 0 then NetworkState.kBusSleep else NetworkState.kNormal)"
  using assms by (auto simp: nm_ok_iff record_ok_def)

lemma nm_ok_put:
  assumes "nm_ok nm" and "record_ok (k, rec)"
  shows "nm_ok (nm\<lparr>nm_networks := um_put k rec (nm_networks nm)\<rparr>)"
  using assms by (simp add: nm_ok_iff um.wf_put um.find_put)

lemma nm_count_put:
  "nm_count (nm\<lparr>nm_networks := um_put k rec (nm_networks nm)\<rparr>) =
     (nm_count nm)(k \<mapsto> unat (nr_refCount rec))"
  by (auto simp: nm_count_def um.find_put fun_eq_iff)

lemma nm_count_eq_Some:
  "nm_count nm k = Some n \<longleftrightarrow>
     (\<exists>rec. um_find (nm_networks nm) k = Some rec \<and> unat (nr_refCount rec) = n)"
  by (auto simp: nm_count_def)

lemma nm_count_eq_None: "nm_count nm k = None \<longleftrightarrow> um_find (nm_networks nm) k = None"
  by (simp add: nm_count_def)

lemma unat_Suc_u32: "unat (c :: u32) < 2 ^ 32 - 1 \<Longrightarrow> unat (c + 1) = Suc (unat c)"
  by (simp add: unat_word_ariths)

lemma unat_pred_u32: "(c :: u32) \<noteq> 0 \<Longrightarrow> unat (c - 1) = unat c - 1"
  by (simp add: unat_minus_one)

lemma RequestNetwork_ok:
  assumes "nm_ok nm" and "nm_count nm i = Some n" and "n < 2 ^ 32 - 1"
  shows "nm_ok (fst (snd (RequestNetwork i nm)))"
    and "nm_count (fst (snd (RequestNetwork i nm))) = (nm_count nm)(i \<mapsto> Suc n)"
proof -
  from assms(2) obtain rec where rec: "um_find (nm_networks nm) i = Some rec"
    and n: "unat (nr_refCount rec) = n" by (auto simp: nm_count_eq_Some)
  have suc: "unat (nr_refCount rec + 1) = Suc n"
    using assms(3) n by (simp add: unat_Suc_u32)
  then have nz: "nr_refCount rec + 1 \<noteq> 0" by (metis Zero_not_Suc unat_0)
  note st = nm_okD [OF assms(1) rec]
  show "nm_ok (fst (snd (RequestNetwork i nm)))"
    using assms(1) rec st nz
    by (simp add: RequestNetwork_def Let_def) (auto intro!: nm_ok_put simp: record_ok_def)
  show "nm_count (fst (snd (RequestNetwork i nm))) = (nm_count nm)(i \<mapsto> Suc n)"
    using rec suc by (auto simp: RequestNetwork_def Let_def nm_count_put)
qed

lemma ReleaseNetwork_ok:
  assumes "nm_ok nm" and "nm_count nm i = Some (Suc n)"
  shows "nm_ok (fst (snd (ReleaseNetwork i nm)))"
    and "nm_count (fst (snd (ReleaseNetwork i nm))) = (nm_count nm)(i \<mapsto> n)"
proof -
  from assms(2) obtain rec where rec: "um_find (nm_networks nm) i = Some rec"
    and n: "unat (nr_refCount rec) = Suc n" by (auto simp: nm_count_eq_Some)
  then have nz: "nr_refCount rec \<noteq> 0" by auto
  have pred: "unat (nr_refCount rec - 1) = n" using n nz by (simp add: unat_pred_u32)
  have one: "nr_refCount rec - 1 = 0 \<longleftrightarrow> nr_refCount rec = 1" by simp
  note st = nm_okD [OF assms(1) rec]
  show "nm_ok (fst (snd (ReleaseNetwork i nm)))"
    using assms(1) rec st nz one
    by (simp add: ReleaseNetwork_def Let_def) (auto intro!: nm_ok_put simp: record_ok_def)
  show "nm_count (fst (snd (ReleaseNetwork i nm))) = (nm_count nm)(i \<mapsto> n)"
    using rec nz pred by (auto simp: ReleaseNetwork_def Let_def nm_count_put)
qed

lemma GetNetworkState_count:
  assumes "nm_ok nm"
  shows "GetNetworkState k nm =
     (case nm_count nm k of None \<Rightarrow> NetworkState.kError
      | Some n \<Rightarrow> if n = 0 then NetworkState.kBusSleep else NetworkState.kNormal)"
  using assms
  by (auto simp: GetNetworkState_def nm_count_def nm_okD unat_eq_0 split: option.split)

section \<open>Counted resources and their holders\<close>

text \<open>
  A pool says which holder (an object, by its address) has taken which resource. It is balanced
  with a state when every count is the number of its holders.
\<close>

definition balanced ::
  "('s \<Rightarrow> bool) \<Rightarrow> ('s \<Rightarrow> 'i \<Rightarrow> nat option) \<Rightarrow> 's \<Rightarrow> ('h \<rightharpoonup> 'i) \<Rightarrow> bool" where
  "balanced good cnt s pool \<longleftrightarrow> good s \<and> finite (dom pool) \<and> ran pool \<subseteq> dom (cnt s) \<and>
     (\<forall>i n. cnt s i = Some n \<longrightarrow> n = card {h. pool h = Some i})"

locale counted_resource =
  fixes acquire :: "'i \<Rightarrow> 's \<Rightarrow> 's"
    and release :: "'i \<Rightarrow> 's \<Rightarrow> 's"
    and count :: "'s \<Rightarrow> 'i \<Rightarrow> nat option"
    and wf :: "'s \<Rightarrow> bool"
    and cap :: nat
  assumes acquire_wf: "wf s \<Longrightarrow> count s i = Some n \<Longrightarrow> n < cap \<Longrightarrow> wf (acquire i s)"
    and acquire_count:
      "wf s \<Longrightarrow> count s i = Some n \<Longrightarrow> n < cap \<Longrightarrow> count (acquire i s) = (count s)(i \<mapsto> Suc n)"
    and release_wf: "wf s \<Longrightarrow> count s i = Some (Suc n) \<Longrightarrow> wf (release i s)"
    and release_count:
      "wf s \<Longrightarrow> count s i = Some (Suc n) \<Longrightarrow> count (release i s) = (count s)(i \<mapsto> n)"
begin

lemma holders_finite: "balanced wf count s pool \<Longrightarrow> finite {h. pool h = Some i}"
  by (rule finite_subset [of _ "dom pool"]) (auto simp: balanced_def)

lemma balanced_count:
  "balanced wf count s pool \<Longrightarrow> count s i = Some n \<Longrightarrow> n = card {h. pool h = Some i}"
  by (simp add: balanced_def)

lemma balanced_acquire:
  assumes bal: "balanced wf count s pool" and i: "count s i \<noteq> None"
    and new: "pool h = None" and room: "card (dom pool) < cap"
  shows "balanced wf count (acquire i s) (pool(h \<mapsto> i))"
proof -
  from i obtain n where n: "count s i = Some n" by blast
  have fin: "finite (dom pool)" using bal by (simp add: balanced_def)
  have card: "n = card {h. pool h = Some i}" by (rule balanced_count [OF bal n])
  also have "\<dots> \<le> card (dom pool)" by (rule card_mono [OF fin]) auto
  finally have "n < cap" using room by simp
  have wf: "wf s" using bal by (simp add: balanced_def)
  have own: "{h'. (pool(h \<mapsto> i)) h' = Some i} = insert h {h'. pool h' = Some i}" by auto
  have other: "{h'. (pool(h \<mapsto> i)) h' = Some j} = {h'. pool h' = Some j}" if "j \<noteq> i" for j
    using that new by auto
  have "card (insert h {h'. pool h' = Some i}) = Suc n"
    using new card holders_finite [OF bal] by simp
  then show ?thesis
    using bal acquire_wf [OF wf n \<open>n < cap\<close>] acquire_count [OF wf n \<open>n < cap\<close>] own other
    by (auto simp: balanced_def ran_def split: if_splits)
qed

lemma balanced_release:
  assumes bal: "balanced wf count s pool" and h: "pool h = Some i"
  shows "balanced wf count (release i s) (pool(h := None))"
proof -
  have wf: "wf s" using bal by (simp add: balanced_def)
  have "i \<in> dom (count s)" using bal h by (auto simp: balanced_def ran_def)
  then obtain m where m: "count s i = Some m" by blast
  have card: "m = card {h'. pool h' = Some i}" by (rule balanced_count [OF bal m])
  have own: "{h'. (pool(h := None)) h' = Some i} = {h'. pool h' = Some i} - {h}" by auto
  have other: "{h'. (pool(h := None)) h' = Some j} = {h'. pool h' = Some j}" if "j \<noteq> i" for j
    using that h by auto
  have rem: "Suc (card ({h'. pool h' = Some i} - {h})) = m"
    unfolding card by (rule card_Suc_Diff1 [OF holders_finite [OF bal]]) (simp add: h)
  then have n: "count s i = Some (Suc (card ({h'. pool h' = Some i} - {h})))" by (simp add: m)
  show ?thesis
    using bal release_wf [OF wf n] release_count [OF wf n] own other
    by (auto simp: balanced_def ran_def split: if_splits)
qed

lemma balanced_transfer:
  assumes bal: "balanced wf count s pool" and h: "pool h = Some i" and h': "pool h' = None"
  shows "balanced wf count s (pool(h := None, h' \<mapsto> i))"
proof -
  have ne: "h \<noteq> h'" using h h' by auto
  have own: "card {g. (pool(h := None, h' \<mapsto> i)) g = Some i} = card {g. pool g = Some i}"
  proof (rule bij_betw_same_card [where f = "\<lambda>g. if g = h' then h else g"])
    show "bij_betw (\<lambda>g. if g = h' then h else g) {g. (pool(h := None, h' \<mapsto> i)) g = Some i}
        {g. pool g = Some i}"
      unfolding bij_betw_def using h h' ne by (auto simp: inj_on_def image_iff split: if_splits)
  qed
  have other: "{g. (pool(h := None, h' \<mapsto> i)) g = Some j} = {g. pool g = Some j}" if "j \<noteq> i" for j
    using that h h' by auto
  have "count s j = Some n \<Longrightarrow> n = card {g. (pool(h := None, h' \<mapsto> i)) g = Some j}" for j n
    using balanced_count [OF bal] own other by (cases "j = i") auto
  moreover have "ran (pool(h := None, h' \<mapsto> i)) \<subseteq> dom (count s)"
    using bal h by (auto simp: balanced_def ran_def split: if_splits)
  ultimately show ?thesis using bal by (simp add: balanced_def)
qed

lemma balanced_held:
  assumes "balanced wf count s pool" and "pool h = Some i"
  shows "\<exists>n. count s i = Some n \<and> 0 < n"
proof -
  have "i \<in> dom (count s)" using assms by (auto simp: balanced_def ran_def)
  then obtain n where n: "count s i = Some n" by blast
  moreover have "card {h. pool h = Some i} \<noteq> 0"
    using holders_finite [OF assms(1)] assms(2) by auto
  ultimately show ?thesis using balanced_count [OF assms(1)] by force
qed

lemma balanced_free:
  assumes "balanced wf count s pool" and "i \<notin> ran pool" and "count s i = Some n"
  shows "n = 0"
proof -
  have "{h. pool h = Some i} = {}" using assms(2) by (auto simp: ran_def)
  then show ?thesis using balanced_count [OF assms(1,3)] by simp
qed

end

interpretation net: counted_resource
  "\<lambda>i nm. fst (snd (RequestNetwork i nm))" "\<lambda>i nm. fst (snd (ReleaseNetwork i nm))"
  nm_count nm_ok "2 ^ 32 - 1"
  by unfold_locales (fact RequestNetwork_ok ReleaseNetwork_ok)+

section \<open>The handles of a program\<close>

text \<open>
  The program's handles are objects at addresses, created, moved and destroyed in any order
  and by any thread (each operation locks the manager's mutex). \<open>Initialize\<close> and the
  registration of a callback may come at any time. The bound on the number of live objects is
  the one that keeps a 32-bit counter from wrapping.
\<close>

type_synonym handles = "nat \<rightharpoonup> NetworkHandle"

definition held :: "handles \<Rightarrow> nat \<rightharpoonup> NetworkId" where
  "held hs a = (case hs a of None \<Rightarrow> None
     | Some h \<Rightarrow> if nh_valid h then Some (nh_networkId h) else None)"

definition world_start :: "NetworkManagement \<times> handles \<Rightarrow> bool" where
  "world_start w \<longleftrightarrow> w = (NetworkManagement_new, Map.empty)"

inductive handle_step ::
  "NetworkManagement \<times> handles \<Rightarrow> NetworkManagement \<times> handles \<Rightarrow> bool" where
  construct: "hs a = None \<Longrightarrow> card (dom hs) < 2 ^ 32 - 1 \<Longrightarrow>
     NetworkHandle_ctor netId nm = (h, nm', calls) \<Longrightarrow>
     handle_step (nm, hs) (nm', hs(a \<mapsto> h))"
| transfer: "hs a = Some h \<Longrightarrow> hs b = None \<Longrightarrow> NetworkHandle_move h = (new, old) \<Longrightarrow>
     handle_step (nm, hs) (nm, hs(a \<mapsto> old, b \<mapsto> new))"
| destroy: "hs a = Some h \<Longrightarrow> NetworkHandle_dtor h nm = (nm', calls) \<Longrightarrow>
     handle_step (nm, hs) (nm', hs(a := None))"
| initialize: "handle_step (nm, hs) (snd (Nm_Initialize nm), hs)"
| listen: "handle_step (nm, hs) (RegisterNetworkStateCallback cb nm, hs)"

inductive_cases handle_stepE: "handle_step w w'"

definition world_inv :: "NetworkManagement \<times> handles \<Rightarrow> bool" where
  "world_inv w \<longleftrightarrow> balanced nm_ok nm_count (fst w) (held (snd w)) \<and> finite (dom (snd w))"

lemma held_simps [simp]:
  "held Map.empty = Map.empty"
  "held (hs(a := None)) = (held hs)(a := None)"
  "held (hs(a \<mapsto> h)) = (held hs)(a := if nh_valid h then Some (nh_networkId h) else None)"
  by (auto simp: held_def fun_eq_iff)

lemma held_dom: "dom (held hs) \<subseteq> dom hs"
  by (auto simp: held_def split: option.splits)

lemma balanced_cong_nm:
  assumes "balanced nm_ok nm_count nm p" and "nm_ok nm'"
    and "\<And>k. k \<in> ran p \<Longrightarrow> nm_count nm' k = nm_count nm k"
    and "\<And>k n. nm_count nm' k = Some n \<Longrightarrow> nm_count nm k = None \<Longrightarrow> n = 0"
    and "\<And>k n. nm_count nm' k = Some n \<Longrightarrow> nm_count nm k \<noteq> None \<Longrightarrow> nm_count nm k = Some n"
  shows "balanced nm_ok nm_count nm' p"
proof -
  have "n = card {h. p h = Some k}" if n: "nm_count nm' k = Some n" for k n
  proof (cases "nm_count nm k")
    case None
    then have "k \<notin> ran p" using assms(1) by (auto simp: balanced_def)
    then have "{h. p h = Some k} = {}" by (auto simp: ran_def)
    with None n assms(4) show ?thesis by simp
  next
    case (Some m)
    then show ?thesis using assms(1) assms(5) [OF n] by (simp add: balanced_def)
  qed
  moreover have "ran p \<subseteq> dom (nm_count nm')"
    using assms(1,3) by (auto simp: balanced_def)
  ultimately show ?thesis using assms(1,2) by (simp add: balanced_def)
qed

lemma addNetwork_ok: "nm_ok nm \<Longrightarrow> nm_ok (addNetwork k nm)"
  by (auto simp: addNetwork_def record_ok_def intro!: nm_ok_put)

lemma addNetwork_count:
  "nm_count (addNetwork k nm) =
     (if nm_count nm k = None then (nm_count nm)(k \<mapsto> 0) else nm_count nm)"
  by (auto simp: addNetwork_def nm_count_put nm_count_eq_None)

lemma balanced_addNetwork:
  "balanced nm_ok nm_count nm p \<Longrightarrow> balanced nm_ok nm_count (addNetwork k nm) p"
  by (rule balanced_cong_nm)
    (auto simp: addNetwork_count addNetwork_ok balanced_def split: if_splits)

lemma balanced_Initialize:
  "balanced nm_ok nm_count nm p \<Longrightarrow> balanced nm_ok nm_count (snd (Nm_Initialize nm)) p"
  by (simp add: Nm_Initialize_def balanced_addNetwork)

lemma balanced_Register:
  "balanced nm_ok nm_count nm p \<Longrightarrow>
   balanced nm_ok nm_count (RegisterNetworkStateCallback cb nm) p"
proof -
  have "nm_count (RegisterNetworkStateCallback cb nm) = nm_count nm"
    by (simp add: fun_eq_iff nm_count_def RegisterNetworkStateCallback_def)
  then show "balanced nm_ok nm_count nm p \<Longrightarrow> ?thesis"
    by (simp add: balanced_def nm_ok_def RegisterNetworkStateCallback_def)
qed

lemma ctor_unfold:
  "NetworkHandle_ctor k nm =
     (\<lparr>nh_networkId = k, nh_valid = (nm_count nm k \<noteq> None)\<rparr>,
      fst (snd (RequestNetwork k nm)), snd (snd (RequestNetwork k nm)))"
  by (auto simp: NetworkHandle_ctor_def RequestNetwork_def nm_count_def Let_def
      split: option.splits prod.splits)

lemma dtor_unfold:
  "NetworkHandle_dtor h nm =
     (if nh_valid h then (fst (snd (ReleaseNetwork (nh_networkId h) nm)),
                          snd (snd (ReleaseNetwork (nh_networkId h) nm)))
      else (nm, []))"
  by (simp add: NetworkHandle_dtor_def split: prod.splits)

lemma Request_unknown: "nm_count nm k = None \<Longrightarrow> fst (snd (RequestNetwork k nm)) = nm"
  by (simp add: RequestNetwork_def nm_count_eq_None)

lemma world_inv_construct:
  assumes inv: "world_inv (nm, hs)" and a: "hs a = None" and room: "card (dom hs) < 2 ^ 32 - 1"
    and c: "NetworkHandle_ctor k nm = (h, nm', calls)"
  shows "world_inv (nm', hs(a \<mapsto> h))"
proof (cases "nm_count nm k = None")
  case True
  then show ?thesis using inv c a
    by (auto simp: ctor_unfold Request_unknown world_inv_def held_def fun_upd_idem)
next
  case False
  have fin: "finite (dom hs)" and bal: "balanced nm_ok nm_count nm (held hs)"
    using inv by (auto simp: world_inv_def)
  have "card (dom (held hs)) < 2 ^ 32 - 1"
    using card_mono [OF fin held_dom] room by simp
  moreover have "held hs a = None" using a by (simp add: held_def)
  ultimately have "balanced nm_ok nm_count (fst (snd (RequestNetwork k nm))) ((held hs)(a \<mapsto> k))"
    by (intro net.balanced_acquire bal False)
  then show ?thesis using c False fin by (auto simp: ctor_unfold world_inv_def)
qed

lemma world_inv_transfer:
  assumes inv: "world_inv (nm, hs)" and a: "hs a = Some h" and b: "hs b = None"
    and m: "NetworkHandle_move h = (new, old)"
  shows "world_inv (nm, hs(a \<mapsto> old, b \<mapsto> new))"
proof (cases "nh_valid h")
  case True
  have "held hs a = Some (nh_networkId h)" and "held hs b = None"
    using a b True by (simp_all add: held_def)
  then have "balanced nm_ok nm_count nm ((held hs)(a := None, b \<mapsto> nh_networkId h))"
    using inv by (intro net.balanced_transfer) (simp_all add: world_inv_def)
  then show ?thesis using inv m True by (auto simp: NetworkHandle_move_def world_inv_def)
next
  case False
  then have "held hs a = None" and "held hs b = None" using a b by (simp_all add: held_def)
  then show ?thesis using inv m False
    by (auto simp: NetworkHandle_move_def world_inv_def fun_upd_idem)
qed

lemma world_inv_destroy:
  assumes inv: "world_inv (nm, hs)" and a: "hs a = Some h"
    and d: "NetworkHandle_dtor h nm = (nm', calls)"
  shows "world_inv (nm', hs(a := None))"
proof (cases "nh_valid h")
  case True
  then have "held hs a = Some (nh_networkId h)" using a by (simp add: held_def)
  then have "balanced nm_ok nm_count (fst (snd (ReleaseNetwork (nh_networkId h) nm)))
      ((held hs)(a := None))"
    using inv by (intro net.balanced_release) (simp_all add: world_inv_def)
  then show ?thesis using inv d True by (auto simp: dtor_unfold world_inv_def)
next
  case False
  then have "held hs a = None" using a by (simp add: held_def)
  then show ?thesis using inv d False by (auto simp: dtor_unfold world_inv_def fun_upd_idem)
qed

interpretation handle_world: invariant_rel world_start handle_step world_inv
proof (unfold_locales, goal_cases)
  case (1 w)
  then show ?case
    by (simp add: world_start_def world_inv_def balanced_def nm_ok_def nm_count_def
        NetworkManagement_new_def um_empty_def ran_def)
next
  case (2 w w')
  from 2(2,1) show ?case
  proof cases
    case construct then show ?thesis using 2(1) by (auto intro: world_inv_construct)
  next
    case transfer then show ?thesis using 2(1) by (auto intro: world_inv_transfer)
  next
    case destroy then show ?thesis using 2(1) by (auto intro: world_inv_destroy)
  next
    case initialize then show ?thesis using 2(1)
      by (simp add: world_inv_def balanced_Initialize)
  next
    case listen then show ?thesis using 2(1)
      by (simp add: world_inv_def balanced_Register)
  qed
qed

lemma active_record:
  "nm_ok nm \<Longrightarrow> um_find (nm_networks nm) k = Some rec \<Longrightarrow>
   nr_id rec = k \<and> (nr_state rec = NetworkState.kNormal \<longleftrightarrow> nr_refCount rec \<noteq> 0)"
  using nm_okD [of nm k rec] by (simp split: if_splits)

lemma GetActiveNetworks_iff:
  assumes "nm_ok nm"
  shows "k \<in> set (GetActiveNetworks nm) \<longleftrightarrow> (\<exists>n. nm_count nm k = Some n \<and> 0 < n)"
proof -
  have ok: "um_ok (nm_networks nm)" using assms by (simp add: nm_ok_def)
  have "k \<in> set (GetActiveNetworks nm) \<longleftrightarrow>
      (\<exists>k' rec. um_find (nm_networks nm) k' = Some rec \<and> nr_state rec = NetworkState.kNormal \<and>
        nr_id rec = k)"
    by (auto simp: GetActiveNetworks_def um_set_values [OF ok])
  also have "\<dots> \<longleftrightarrow> (\<exists>rec. um_find (nm_networks nm) k = Some rec \<and> nr_refCount rec \<noteq> 0)"
    using active_record [OF assms] by blast
  also have "\<dots> \<longleftrightarrow> (\<exists>n. nm_count nm k = Some n \<and> 0 < n)"
    by (auto simp: nm_count_eq_Some unat_gt_0)
  finally show ?thesis .
qed

lemma active_held:
  assumes "balanced nm_ok nm_count nm p"
  shows "k \<in> set (GetActiveNetworks nm) \<longleftrightarrow> k \<in> ran p"
proof -
  have "nm_ok nm" using assms by (simp add: balanced_def)
  moreover have "k \<in> ran p \<longleftrightarrow> (\<exists>n. nm_count nm k = Some n \<and> 0 < n)"
    using net.balanced_held [OF assms] net.balanced_free [OF assms, of k] by (fastforce simp: ran_def)
  ultimately show ?thesis by (simp add: GetActiveNetworks_iff)
qed

section \<open>What network management promises\<close>

text \<open>
  C4: in every state that creating, moving and destroying handles can reach, a network is among
  the active ones exactly when some live handle to it is valid. No handle keeps a network awake
  after it is gone, and none loses its network while it lives.
\<close>

theorem active_iff_valid_handle:
  assumes "reachable world_start handle_step (nm, hs)"
  shows "k \<in> set (GetActiveNetworks nm) \<longleftrightarrow>
    (\<exists>a h. hs a = Some h \<and> nh_valid h \<and> nh_networkId h = k)"
proof -
  have "balanced nm_ok nm_count nm (held hs)"
    using handle_world.reachable_inv [OF assms] by (simp add: world_inv_def)
  moreover have "k \<in> ran (held hs) \<longleftrightarrow> (\<exists>a h. hs a = Some h \<and> nh_valid h \<and> nh_networkId h = k)"
    by (auto simp: ran_def held_def split: option.splits if_splits)
  ultimately show ?thesis by (simp add: active_held)
qed

theorem active_iff_valid_handle_witness:
  "\<exists>nm h. reachable world_start handle_step (nm, [0 \<mapsto> h]) \<and> nh_valid h \<and>
     kEthIPC \<in> set (GetActiveNetworks nm)"
proof -
  let ?nm = "snd (Nm_Initialize NetworkManagement_new)"
  let ?c = "NetworkHandle_ctor kEthIPC ?nm"
  have "reachable world_start handle_step (NetworkManagement_new, Map.empty)"
    by (rule reachable.start) (simp add: world_start_def)
  then have "reachable world_start handle_step (?nm, Map.empty)"
    by (rule reachable.move) (rule handle_step.initialize)
  moreover have "handle_step (?nm, Map.empty) (fst (snd ?c), Map.empty(0 \<mapsto> fst ?c))"
    by (rule handle_step.construct [where calls = "snd (snd ?c)" and netId = kEthIPC]) simp_all
  ultimately have r: "reachable world_start handle_step (fst (snd ?c), [0 \<mapsto> fst ?c])"
    by (rule reachable.move)
  have v: "nh_valid (fst ?c) \<and> nh_networkId (fst ?c) = kEthIPC" by code_simp
  then have "\<exists>(a :: nat) h. [0 \<mapsto> fst ?c] a = Some h \<and> nh_valid h \<and> nh_networkId h = kEthIPC"
    by (intro exI [of _ "0 :: nat"] exI [of _ "fst ?c"]) simp
  then have "kEthIPC \<in> set (GetActiveNetworks (fst (snd ?c)))"
    using active_iff_valid_handle [OF r, of kEthIPC] by blast
  with r v show ?thesis by blast
qed

text \<open>The abstract specification: a counter per known network, with no bound.\<close>

datatype nm_op = Request NetworkId | Release NetworkId

fun nm_step :: "NetworkManagement \<Rightarrow> nm_op \<Rightarrow> NetworkManagement" where
  "nm_step nm (Request k) = fst (snd (RequestNetwork k nm))"
| "nm_step nm (Release k) = fst (snd (ReleaseNetwork k nm))"

fun count_step :: "(NetworkId \<rightharpoonup> nat) \<Rightarrow> nm_op \<Rightarrow> (NetworkId \<rightharpoonup> nat)" where
  "count_step c (Request k) = (case c k of None \<Rightarrow> c | Some n \<Rightarrow> c(k \<mapsto> Suc n))"
| "count_step c (Release k) =
     (case c k of None \<Rightarrow> c | Some n \<Rightarrow> if n = 0 then c else c(k \<mapsto> n - 1))"

lemma ReleaseNetwork_idle:
  "nm_count nm k = None \<or> nm_count nm k = Some 0 \<Longrightarrow> fst (snd (ReleaseNetwork k nm)) = nm"
  by (auto simp: ReleaseNetwork_def nm_count_def unat_eq_0 split: option.splits)

lemma nm_step_refines:
  assumes "nm_ok nm" and "\<forall>k n. nm_count nm k = Some n \<longrightarrow> n < 2 ^ 32 - 1"
  shows "nm_ok (nm_step nm op) \<and> nm_count (nm_step nm op) = count_step (nm_count nm) op"
proof (cases op)
  case (Request k)
  then show ?thesis using assms
    by (cases "nm_count nm k") (auto simp: Request_unknown RequestNetwork_ok)
next
  case (Release k)
  show ?thesis
  proof (cases "nm_count nm k = None \<or> nm_count nm k = Some 0")
    case True
    with Release assms show ?thesis by (auto simp: ReleaseNetwork_idle)
  next
    case False
    then obtain n where "nm_count nm k = Some (Suc n)" by (metis not0_implies_Suc not_None_eq)
    with Release assms show ?thesis by (auto simp: ReleaseNetwork_ok)
  qed
qed

lemma count_step_bound:
  "\<forall>k n. c k = Some n \<longrightarrow> n + m < b \<Longrightarrow> 0 < m \<Longrightarrow>
   \<forall>k n. count_step c op k = Some n \<longrightarrow> n + (m - 1) < b"
  by (cases op) (force split: option.splits if_splits)+

text \<open>
  C11: requests and releases, in any number and order, refine plain counting: as long as the
  32-bit counters have room for the whole sequence, the counts after it are those of the abstract
  specification, and every network's state still follows its count.
\<close>

theorem nm_run_refines_counting:
  assumes "nm_ok nm" and "\<forall>k n. nm_count nm k = Some n \<longrightarrow> n + length ops < 2 ^ 32"
  shows "nm_count (run nm_step nm ops) = run count_step (nm_count nm) ops \<and>
    nm_ok (run nm_step nm ops)"
  using assms
proof (induction ops arbitrary: nm)
  case Nil
  then show ?case by simp
next
  case (Cons op ops)
  have "\<forall>k n. nm_count nm k = Some n \<longrightarrow> n < 2 ^ 32 - 1" using Cons.prems(2) by fastforce
  then have step: "nm_ok (nm_step nm op)"
    "nm_count (nm_step nm op) = count_step (nm_count nm) op"
    using nm_step_refines [OF Cons.prems(1)] by auto
  have "\<forall>k n. nm_count (nm_step nm op) k = Some n \<longrightarrow> n + length ops < 2 ^ 32"
    using count_step_bound [OF Cons.prems(2), of op] step(2) by simp
  from Cons.IH [OF step(1) this] step(2) show ?case by simp
qed

theorem nm_run_refines_counting_witness:
  "nm_count (run nm_step (snd (Nm_Initialize NetworkManagement_new))
     [Request kEthIPC, Request kEthIPC, Release kEthIPC]) kEthIPC = Some 1"
proof -
  let ?nm = "snd (Nm_Initialize NetworkManagement_new)"
  let ?ops = "[Request kEthIPC, Request kEthIPC, Release kEthIPC]"
  have ok: "nm_ok ?nm" by code_simp
  have "\<forall>kv \<in> set (nm_networks ?nm). unat (nr_refCount (snd kv)) = 0" by code_simp
  then have room: "\<forall>k n. nm_count ?nm k = Some n \<longrightarrow> n + length ?ops < 2 ^ 32"
    by (auto simp: nm_count_eq_Some um_find_def dest!: map_of_SomeD)
  have spec: "run count_step c ?ops kEthIPC = Some 1" if "c kEthIPC = Some 0" for c
    using that by simp
  have "nm_count ?nm kEthIPC = Some 0" by code_simp
  then show ?thesis
    by (simp only: nm_run_refines_counting [OF ok room, THEN conjunct1] spec)
qed

text \<open>
  The registered callback hears of a network exactly when its state changes, once per change,
  with the state before and the state after; a request or release that does not change the state
  calls nobody.
\<close>

theorem notifications_are_state_changes:
  assumes "nm_ok nm"
    and "(\<exists>r. RequestNetwork k nm = (r, nm', calls)) \<or> (\<exists>r. ReleaseNetwork k nm = (r, nm', calls))"
  shows "calls =
    (if GetNetworkState k nm' = GetNetworkState k nm then []
     else invoke (nm_stateCallback nm) (k, GetNetworkState k nm, GetNetworkState k nm'))"
  using assms(2) nm_okD [OF assms(1), of k]
  by (auto simp: RequestNetwork_def ReleaseNetwork_def GetNetworkState_def Let_def um.find_put
      split: option.splits if_splits)

theorem notifications_are_state_changes_witness:
  "let nm = RegisterNetworkStateCallback (Some 7) (snd (Nm_Initialize NetworkManagement_new))
   in snd (snd (RequestNetwork kEthIPC nm)) =
        [(7, kEthIPC, NetworkState.kBusSleep, NetworkState.kNormal)]"
proof -
  let ?nm = "RegisterNetworkStateCallback (Some 7) (snd (Nm_Initialize NetworkManagement_new))"
  let ?r = "RequestNetwork kEthIPC ?nm"
  have ok: "nm_ok ?nm" by code_simp
  have "snd (snd ?r) =
      (if GetNetworkState kEthIPC (fst (snd ?r)) = GetNetworkState kEthIPC ?nm then []
       else invoke (nm_stateCallback ?nm)
         (kEthIPC, GetNetworkState kEthIPC ?nm, GetNetworkState kEthIPC (fst (snd ?r))))"
    by (rule notifications_are_state_changes [OF ok]) (auto intro: exI [of _ "fst ?r"])
  moreover have "GetNetworkState kEthIPC (fst (snd ?r)) = NetworkState.kNormal" by code_simp
  moreover have "GetNetworkState kEthIPC ?nm = NetworkState.kBusSleep" by code_simp
  moreover have "nm_stateCallback ?nm = Some 7" by code_simp
  ultimately show ?thesis by (simp add: Let_def)
qed

text \<open>
  \<open>Shutdown\<close> resets the counts under the handles that are still alive. A handle taken
  before it, when destroyed after it, gives back the request of a handle taken since: that newer
  handle is valid, and its network is asleep.
\<close>

theorem Shutdown_lets_old_handle_release_new:
  assumes "nm_ok nm" and "nm_count nm k \<noteq> None"
  shows "let (old, nm1, _) = NetworkHandle_ctor k nm;
             nm2 = Nm_Shutdown nm1;
             (new, nm3, _) = NetworkHandle_ctor k nm2;
             (nm4, _) = NetworkHandle_dtor old nm3
         in nh_valid new \<and> GetNetworkState k nm3 = NetworkState.kNormal \<and>
            GetNetworkState k nm4 = NetworkState.kBusSleep"
proof -
  let ?nm1 = "fst (snd (RequestNetwork k nm))"
  let ?nm2 = "Nm_Shutdown ?nm1"
  let ?nm3 = "fst (snd (RequestNetwork k ?nm2))"
  let ?nm4 = "fst (snd (ReleaseNetwork k ?nm3))"
  have "\<exists>rec. um_find (nm_networks ?nm1) k = Some rec"
    using assms(2) by (auto simp: RequestNetwork_def nm_count_def Let_def um.find_put split: option.splits)
  then obtain rec where rec: "um_find (nm_networks ?nm2) k = Some rec"
    and "nr_refCount rec = 0" and "nr_state rec = NetworkState.kBusSleep"
    by (auto simp: Nm_Shutdown_def)
  then have rec3: "um_find (nm_networks ?nm3) k =
      Some (rec\<lparr>nr_refCount := 1, nr_state := NetworkState.kNormal\<rparr>)"
    by (simp add: RequestNetwork_def Let_def um.find_put)
  then have "GetNetworkState k ?nm4 = NetworkState.kBusSleep"
    by (simp add: ReleaseNetwork_def GetNetworkState_def Let_def um.find_put)
  moreover have "GetNetworkState k ?nm3 = NetworkState.kNormal"
    using rec3 by (simp add: GetNetworkState_def)
  moreover have "nm_count ?nm2 k \<noteq> None" using rec by (simp add: nm_count_def)
  ultimately show ?thesis
    using assms(2) by (simp add: ctor_unfold dtor_unfold Let_def case_prod_beta)
qed

theorem Shutdown_lets_old_handle_release_new_witness:
  "let nm = snd (Nm_Initialize NetworkManagement_new);
       (old, nm1, _) = NetworkHandle_ctor kEthIPC nm;
       (new, nm3, _) = NetworkHandle_ctor kEthIPC (Nm_Shutdown nm1);
       (nm4, _) = NetworkHandle_dtor old nm3
   in nh_valid new \<and> GetNetworkState kEthIPC nm4 = NetworkState.kBusSleep"
proof -
  let ?nm = "snd (Nm_Initialize NetworkManagement_new)"
  have "nm_ok ?nm" and "nm_count ?nm kEthIPC \<noteq> None" by code_simp+
  from Shutdown_lets_old_handle_release_new [OF this] show ?thesis
    by (simp add: Let_def case_prod_beta)
qed

end
