(* ===== verification/Crc.thy ===== *)
theory Crc
  imports Prelude
begin

text \<open>
  The two checksums of the program, bit by bit as the code computes them: \<open>e2e_crc8\<close> of
  include/ara/com/someip_proto.h, which protects the vehicle-signal payload, and
  \<open>SpiIpcFrame::ComputeCRC16\<close> of src/application/SwcIPCBridge/IPCBridgeService.cpp, which
  protects a SPI frame. The locale \<open>crc_register\<close> is what error detection needs of a
  checksum register: feeding a byte is linear over exclusive or and loses nothing.
\<close>

section \<open>The interface of a checksum register\<close>

locale crc_register =
  fixes feed :: "'w::len word \<Rightarrow> u8 \<Rightarrow> 'w word"
  assumes feed_xor: "feed (a XOR b) (x XOR y) = feed a x XOR feed b y"
    and feed_state_kernel: "feed a 0 = 0 \<Longrightarrow> a = 0"
    and feed_byte_kernel: "feed 0 x = 0 \<Longrightarrow> x = 0"
begin

lemma feed_eq_iff_diff: "feed a x = feed b y \<longleftrightarrow> feed (a XOR b) (x XOR y) = 0"
  by (simp add: feed_xor word_xor_eq_0)

lemma feed_inj_state: "feed a x = feed b x \<longleftrightarrow> a = b"
proof
  assume "feed a x = feed b x"
  then have "feed (a XOR b) 0 = 0" by (simp add: feed_eq_iff_diff)
  then have "a XOR b = 0" by (rule feed_state_kernel)
  then show "a = b" by (simp add: word_xor_eq_0)
qed simp

lemma feed_inj_byte: "feed a x = feed a y \<longleftrightarrow> x = y"
proof
  assume "feed a x = feed a y"
  then have "feed 0 (x XOR y) = 0" by (simp add: feed_eq_iff_diff)
  then have "x XOR y = 0" by (rule feed_byte_kernel)
  then show "x = y" by (simp add: word_xor_eq_0)
qed simp

lemma foldl_feed_inj_state: "foldl feed a xs = foldl feed b xs \<longleftrightarrow> a = b"
  by (induction xs arbitrary: a b) (simp_all add: feed_inj_state)

text \<open>Replacing one byte, anywhere, changes the register.\<close>

lemma foldl_feed_byte:
  "foldl feed a (pre @ x # post) = foldl feed a (pre @ y # post) \<longleftrightarrow> x = y"
  by (simp add: foldl_feed_inj_state feed_inj_byte)

text \<open>The effect of an error pattern does not depend on the message it hits.\<close>

lemma foldl_feed_xor:
  "length xs = length ys \<Longrightarrow>
   foldl feed (a XOR b) (map2 (XOR) xs ys) = foldl feed a xs XOR foldl feed b ys"
proof (induction xs ys arbitrary: a b rule: list_induct2)
  case Nil
  then show ?case by simp
next
  case (Cons x xs y ys)
  then show ?case by (simp add: feed_xor)
qed

end

section \<open>Bits of a register\<close>

lemma and_power_bit:
  fixes c :: "'w::len word"
  shows "c AND push_bit n 1 \<noteq> 0 \<longleftrightarrow> bit c n"
  by (simp add: bit_iff_and_push_bit_not_eq_0)

lemma and_128_bit: "(c :: u8) AND 0x80 \<noteq> 0 \<longleftrightarrow> bit c 7"
  using and_power_bit [of c 7] by simp

lemma and_8000_bit: "(c :: u16) AND 0x8000 \<noteq> 0 \<longleftrightarrow> bit c 15"
  using and_power_bit [of c 15] by simp

lemma xor_cancel_both:
  fixes a b p :: "'w::len word"
  shows "(a XOR p) XOR (b XOR p) = a XOR b"
  by (rule bit_word_eqI) (auto simp: bit_simps)

lemma xor_move_left:
  fixes a b p :: "'w::len word"
  shows "(a XOR b) XOR p = (a XOR p) XOR b" and "(a XOR b) XOR p = a XOR (b XOR p)"
  by (simp_all add: ac_simps)

lemma push_bit_1_eq_0:
  fixes c :: "'w::len word"
  assumes "push_bit 1 c = 0" and "\<not> bit c (LENGTH('w) - 1)"
  shows "c = 0"
proof (rule bit_word_eqI)
  fix n assume n: "n < LENGTH('w)"
  show "bit c n \<longleftrightarrow> bit (0 :: 'w word) n"
  proof (cases "n = LENGTH('w) - 1")
    case True
    with assms(2) show ?thesis by simp
  next
    case False
    with n have "Suc n < LENGTH('w)" by simp
    then have "bit (push_bit 1 c) (Suc n) \<longleftrightarrow> bit c n" by (simp add: bit_simps)
    with assms(1) show ?thesis by simp
  qed
qed

section \<open>E2E CRC-8\<close>

text \<open>The inner loop, \<open>n\<close> rounds of it.\<close>

fun crc8_bits :: "nat \<Rightarrow> u8 \<Rightarrow> u8" where
  "crc8_bits 0 crc = crc"
| "crc8_bits (Suc n) crc =
     crc8_bits n (if crc AND 0x80 \<noteq> 0 then push_bit 1 crc XOR 0x1D else push_bit 1 crc)"

definition crc8_feed :: "u8 \<Rightarrow> u8 \<Rightarrow> u8" where
  "crc8_feed crc b = crc8_bits 8 (crc XOR b)"

definition e2e_crc8 :: "u8 list \<Rightarrow> u8" where
  "e2e_crc8 data = foldl crc8_feed 0xFF data XOR 0xFF"

lemma crc8_bits_xor: "crc8_bits n (a XOR b) = crc8_bits n a XOR crc8_bits n b"
proof (induction n arbitrary: a b)
  case 0
  show ?case by simp
next
  case (Suc n)
  show ?case
    by (cases "bit a 7"; cases "bit b 7")
      (simp_all add: and_128_bit bit_simps push_bit_xor xor_cancel_both Suc.IH [symmetric]
         ac_simps)
qed

lemma crc8_bits_kernel: "crc8_bits n a = 0 \<Longrightarrow> a = 0"
proof (induction n arbitrary: a)
  case 0
  then show ?case by simp
next
  case (Suc n)
  show ?case
  proof (cases "bit a 7")
    case True
    with Suc have "push_bit 1 a XOR 0x1D = 0" by (simp add: and_128_bit)
    then have "bit (push_bit 1 a XOR 0x1D) 0 \<longleftrightarrow> False" by simp
    then show ?thesis by (simp add: bit_xor_iff bit_shift_one)
  next
    case False
    with Suc have "push_bit 1 a = 0" by (simp add: and_128_bit)
    then show ?thesis by (rule push_bit_1_eq_0) (simp add: False)
  qed
qed

interpretation crc8: crc_register crc8_feed
proof (unfold_locales, goal_cases)
  case (1 a b x y)
  have "(a XOR b) XOR (x XOR y) = (a XOR x) XOR (b XOR y)" by (simp add: ac_simps)
  then show ?case by (simp only: crc8_feed_def crc8_bits_xor [symmetric])
next
  case (2 a) then show ?case using crc8_bits_kernel [of 8 a] by (simp add: crc8_feed_def)
next
  case (3 x) then show ?case using crc8_bits_kernel [of 8 x] by (simp add: crc8_feed_def)
qed

lemma e2e_crc8_snoc: "e2e_crc8 (xs @ [x]) = crc8_feed (e2e_crc8 xs XOR 0xFF) x XOR 0xFF"
  by (simp add: e2e_crc8_def xor.assoc)

section \<open>SPI frame CRC-16\<close>

fun crc16_bits :: "nat \<Rightarrow> u16 \<Rightarrow> u16" where
  "crc16_bits 0 crc = crc"
| "crc16_bits (Suc n) crc =
     crc16_bits n (if crc AND 0x8000 \<noteq> 0 then push_bit 1 crc XOR 0x1021 else push_bit 1 crc)"

definition crc16_feed :: "u16 \<Rightarrow> u8 \<Rightarrow> u16" where
  "crc16_feed crc byte = crc16_bits 8 (crc XOR push_bit 8 (ucast byte))"

definition ComputeCRC16 :: "u8 list \<Rightarrow> u16" where
  "ComputeCRC16 data = foldl crc16_feed 0xFFFF data"

lemma crc16_bits_xor: "crc16_bits n (a XOR b) = crc16_bits n a XOR crc16_bits n b"
proof (induction n arbitrary: a b)
  case 0
  show ?case by simp
next
  case (Suc n)
  show ?case
    by (cases "bit a 15"; cases "bit b 15")
      (simp_all add: and_8000_bit bit_simps push_bit_xor xor_cancel_both Suc.IH [symmetric]
         ac_simps)
qed

lemma crc16_bits_kernel: "crc16_bits n a = 0 \<Longrightarrow> a = 0"
proof (induction n arbitrary: a)
  case 0
  then show ?case by simp
next
  case (Suc n)
  show ?case
  proof (cases "bit a 15")
    case True
    with Suc have "push_bit 1 a XOR 0x1021 = 0" by (simp add: and_8000_bit)
    then have "bit (push_bit 1 a XOR 0x1021) 0 \<longleftrightarrow> False" by simp
    then show ?thesis by (simp add: bit_xor_iff bit_shift_one)
  next
    case False
    with Suc have "push_bit 1 a = 0" by (simp add: and_8000_bit)
    then show ?thesis by (rule push_bit_1_eq_0) (simp add: False)
  qed
qed

lemma ucast_byte_xor: "(ucast (x XOR y :: u8) :: u16) = ucast x XOR ucast y"
  by (rule bit_word_eqI) (auto simp: bit_simps)

lemma ucast_shift_kernel: "push_bit 8 (ucast (x :: u8) :: u16) = 0 \<Longrightarrow> x = 0"
proof (rule bit_word_eqI)
  fix n assume h: "push_bit 8 (ucast x :: u16) = 0" and n: "n < LENGTH(8)"
  have "bit (push_bit 8 (ucast x :: u16)) (n + 8) \<longleftrightarrow> bit x n"
    using n by (simp add: bit_simps)
  with h show "bit x n \<longleftrightarrow> bit (0 :: u8) n" by simp
qed

interpretation crc16: crc_register crc16_feed
proof (unfold_locales, goal_cases)
  case (1 a b x y)
  have "(a XOR b) XOR push_bit 8 (ucast (x XOR y)) =
      (a XOR push_bit 8 (ucast x)) XOR (b XOR push_bit 8 (ucast y))"
    by (simp add: ucast_byte_xor push_bit_xor ac_simps)
  then show ?case by (simp only: crc16_feed_def crc16_bits_xor [symmetric])
next
  case (2 a) then show ?case using crc16_bits_kernel [of 8 a] by (simp add: crc16_feed_def)
next
  case (3 x) then show ?case
    using crc16_bits_kernel [of 8 "push_bit 8 (ucast x)"] ucast_shift_kernel [of x]
    by (simp add: crc16_feed_def)
qed

text \<open>While no bit reaches the top, the register only shifts.\<close>

lemma crc16_bits_no_feedback:
  assumes "n \<le> 16" and "\<And>k. 16 - n \<le> k \<Longrightarrow> k < 16 \<Longrightarrow> \<not> bit c k"
  shows "crc16_bits n c = push_bit n c"
  using assms
proof (induction n arbitrary: c)
  case 0
  then show ?case by simp
next
  case (Suc n)
  have top: "\<not> bit c 15" using Suc.prems by (simp add: le_diff_conv)
  have "crc16_bits n (push_bit 1 c) = push_bit n (push_bit 1 c)"
    using Suc.prems by (intro Suc.IH) (auto simp: bit_simps)
  with top show ?case by (simp add: and_8000_bit ac_simps)
qed

lemma crc16_bits_low_byte: "crc16_bits 8 (ucast (x :: u8)) = push_bit 8 (ucast x)"
  by (rule crc16_bits_no_feedback) (auto simp: bit_simps dest: bit_imp_le_length)

text \<open>Two bytes fed into an empty register are the 16 rounds of their concatenation.\<close>

lemma crc16_feed_pair:
  "crc16_feed (crc16_feed 0 x) y = crc16_bits 8 (crc16_bits 8 (push_bit 8 (ucast x) XOR ucast y))"
  by (simp add: crc16_feed_def crc16_bits_xor crc16_bits_low_byte)

lemma shift_or_byte_kernel:
  assumes "push_bit 8 (ucast (x :: u8)) XOR ucast (y :: u8) = (0 :: u16)"
  shows "x = 0 \<and> y = 0"
proof
  show "y = 0"
  proof (rule bit_word_eqI)
    fix n assume "n < LENGTH(8)"
    then have "bit (push_bit 8 (ucast x) XOR ucast y :: u16) n \<longleftrightarrow> bit y n"
      by (simp add: bit_simps)
    with assms show "bit y n \<longleftrightarrow> bit (0 :: u8) n" by simp
  qed
  with assms show "x = 0" by (auto intro: ucast_shift_kernel)
qed

lemma crc16_feed_pair_kernel: "crc16_feed (crc16_feed 0 x) y = 0 \<Longrightarrow> x = 0 \<and> y = 0"
  unfolding crc16_feed_pair by (drule crc16_bits_kernel)+ (rule shift_or_byte_kernel)

lemma crc16_pair_inj:
  assumes "crc16_feed (crc16_feed s x) y = crc16_feed (crc16_feed s x') y'"
  shows "x = x' \<and> y = y'"
proof -
  have "crc16_feed (crc16_feed 0 (x XOR x')) (y XOR y') = 0"
    using assms crc16.feed_xor [of s s x x'] by (simp add: crc16.feed_eq_iff_diff [of _ y])
  then have "x XOR x' = 0 \<and> y XOR y' = 0" by (rule crc16_feed_pair_kernel)
  then show ?thesis by (simp add: word_xor_eq_0)
qed

text \<open>Feeding a register's own two bytes, high byte first, empties it.\<close>

lemma crc16_absorb_self:
  "crc16_feed (crc16_feed c (ucast (drop_bit 8 c))) (ucast c) = 0"
proof -
  have "c XOR push_bit 8 (ucast (ucast (drop_bit 8 c) :: u8)) = ucast (ucast c :: u8)"
    by (rule bit_word_eqI) (auto simp: bit_simps)
  then have "crc16_feed c (ucast (drop_bit 8 c)) = push_bit 8 (ucast (ucast c :: u8))"
    by (simp add: crc16_feed_def crc16_bits_low_byte)
  moreover have "crc16_bits 8 0 = 0" by code_simp
  ultimately show ?thesis by (simp add: crc16_feed_def)
qed

section \<open>What the checksums promise\<close>

text \<open>
  The CRC-8 of two payloads that agree except possibly in one byte is the same exactly when
  that byte is the same too: \<open>e2e_crc8\<close> detects every corruption of a single byte, wherever it is
  and however long the data are.
\<close>

theorem e2e_crc8_detects_byte:
  "e2e_crc8 (pre @ x # post) = e2e_crc8 (pre @ y # post) \<longleftrightarrow> x = y"
  by (simp only: e2e_crc8_def word_xor_cancel crc8.foldl_feed_byte)

text \<open>
  C33: the CRC-16 of a SPI frame detects every corruption of up to two adjacent bytes, that is
  every error burst that stays within them.
\<close>

theorem ComputeCRC16_detects_two_bytes:
  "ComputeCRC16 (pre @ x # y # post) = ComputeCRC16 (pre @ x' # y' # post)
     \<longleftrightarrow> x = x' \<and> y = y'"
proof -
  let ?s = "foldl crc16_feed 0xFFFF pre"
  have "crc16_feed (crc16_feed ?s x) y = crc16_feed (crc16_feed ?s x') y' \<longleftrightarrow> x = x' \<and> y = y'"
    by (metis crc16_pair_inj)
  then show ?thesis by (simp add: ComputeCRC16_def crc16.foldl_feed_inj_state)
qed

text \<open>
  A receiver that runs \<open>ComputeCRC16\<close> over the data followed by the transmitted checksum,
  high byte first, gets zero.
\<close>

theorem ComputeCRC16_residue:
  "ComputeCRC16 (data @ [ucast (drop_bit 8 (ComputeCRC16 data)), ucast (ComputeCRC16 data)]) = 0"
  by (simp add: ComputeCRC16_def crc16_absorb_self)

section \<open>Equivalence with a bit-serial register\<close>

text \<open>
  The reference is the shift register of the standards: one message bit at a time, the most
  significant bit of a byte first, is added to the bit that leaves the register, and the
  polynomial is added when the sum is one. The code takes in a whole byte and then shifts it out.
\<close>

locale shift_register =
  fixes rounds :: "nat \<Rightarrow> 'w::len word \<Rightarrow> 'w word" and poly :: "'w word"
    and bit_in :: "'w word \<Rightarrow> bool \<Rightarrow> 'w word"
  assumes rounds_0: "rounds 0 c = c"
    and rounds_Suc: "rounds (Suc n) c =
      rounds n (if bit c (LENGTH('w) - 1) then push_bit 1 c XOR poly else push_bit 1 c)"
    and bit_in: "bit_in c b =
      (if bit c (LENGTH('w) - 1) \<noteq> b then push_bit 1 c XOR poly else push_bit 1 c)"
begin

lemma one_round:
  "rounds (Suc n) (c XOR w) = rounds n (bit_in c (bit w (LENGTH('w) - 1)) XOR push_bit 1 w)"
  by (simp add: rounds_Suc bit_in bit_xor_iff push_bit_xor ac_simps)

text \<open>The top \<open>n\<close> bits of \<open>w\<close>, added at once, are the same as added one by one.\<close>

lemma rounds_bits:
  assumes "n \<le> LENGTH('w)" and "\<And>j. j < LENGTH('w) - n \<Longrightarrow> \<not> bit w j"
  shows "rounds n (c XOR w) = foldl bit_in c (map (\<lambda>i. bit w (LENGTH('w) - 1 - i)) [0..<n])"
  using assms
proof (induction n arbitrary: c w)
  case 0
  then have "w = 0" by (auto intro!: bit_word_eqI)
  then show ?case by (simp add: rounds_0)
next
  case (Suc n)
  have "\<not> bit (push_bit 1 w) j" if "j < LENGTH('w) - n" for j
    using that Suc.prems by (cases j) (auto simp: bit_simps)
  then have "rounds (Suc n) (c XOR w) = foldl bit_in (bit_in c (bit w (LENGTH('w) - 1)))
      (map (\<lambda>i. bit (push_bit 1 w) (LENGTH('w) - 1 - i)) [0..<n])"
    unfolding one_round using Suc.prems by (intro Suc.IH) auto
  also have "map (\<lambda>i. bit (push_bit 1 w) (LENGTH('w) - 1 - i)) [0..<n] =
      map (\<lambda>i. bit w (LENGTH('w) - 1 - Suc i)) [0..<n]"
    using Suc.prems by (intro map_cong) (auto simp: bit_simps)
  also have "bit_in c (bit w (LENGTH('w) - 1)) = foldl bit_in c [bit w (LENGTH('w) - 1 - 0)]"
    by simp
  finally show ?case
    by (simp add: upt_conv_Cons map_Suc_upt [symmetric] o_def del: upt_Suc)
qed

end

definition crc8_bit_in :: "u8 \<Rightarrow> bool \<Rightarrow> u8" where
  "crc8_bit_in c b = (if bit c 7 \<noteq> b then push_bit 1 c XOR 0x1D else push_bit 1 c)"

definition crc16_bit_in :: "u16 \<Rightarrow> bool \<Rightarrow> u16" where
  "crc16_bit_in c b = (if bit c 15 \<noteq> b then push_bit 1 c XOR 0x1021 else push_bit 1 c)"

definition byte_bits :: "u8 \<Rightarrow> bool list" where
  "byte_bits x = map (\<lambda>i. bit x (7 - i)) [0..<8]"

definition message_bits :: "u8 list \<Rightarrow> bool list" where
  "message_bits data = concat (map byte_bits data)"

interpretation sr8: shift_register crc8_bits "0x1D" crc8_bit_in
  by unfold_locales (simp_all add: and_128_bit crc8_bit_in_def)

interpretation sr16: shift_register crc16_bits "0x1021" crc16_bit_in
  by unfold_locales (simp_all add: and_8000_bit crc16_bit_in_def)

lemma crc8_feed_bits: "crc8_feed c x = foldl crc8_bit_in c (byte_bits x)"
  using sr8.rounds_bits [of 8 x c] by (simp add: crc8_feed_def byte_bits_def)

lemma crc16_feed_bits: "crc16_feed c x = foldl crc16_bit_in c (byte_bits x)"
proof -
  have "crc16_feed c x = foldl crc16_bit_in c
      (map (\<lambda>i. bit (push_bit 8 (ucast x) :: u16) (LENGTH(16) - 1 - i)) [0..<8])"
    unfolding crc16_feed_def by (rule sr16.rounds_bits) (auto simp: bit_simps)
  also have "map (\<lambda>i. bit (push_bit 8 (ucast x) :: u16) (LENGTH(16) - 1 - i)) [0..<8] = byte_bits x"
    unfolding byte_bits_def by (intro map_cong) (auto simp: bit_simps)
  finally show ?thesis .
qed

lemma foldl_feed_bits:
  assumes "\<And>c x. feed c x = foldl bit_in c (byte_bits x)"
  shows "foldl feed c data = foldl bit_in c (message_bits data)"
  by (induction data arbitrary: c) (simp_all add: message_bits_def assms)

text \<open>
  C23: both checksums are the standard ones: \<open>e2e_crc8\<close> is the bit-serial register with polynomial
  0x1D, start and final value 0xFF, over the message bits, and \<open>ComputeCRC16\<close> the one with
  polynomial 0x1021, start 0xFFFF and no final inversion.
\<close>

theorem checksums_are_bit_serial:
  "e2e_crc8 data = foldl crc8_bit_in 0xFF (message_bits data) XOR 0xFF \<and>
   ComputeCRC16 data = foldl crc16_bit_in 0xFFFF (message_bits data)"
  by (simp add: e2e_crc8_def ComputeCRC16_def foldl_feed_bits [OF crc8_feed_bits]
      foldl_feed_bits [OF crc16_feed_bits])

end
