(* ===== verification/Phm.thy ===== *)
theory Phm
  imports Prelude
begin

text \<open>
  ara::phm, platform health management: include/ara/phm/platform_health_management.h and
  src/ara/phm/phm.cpp. Supervised entities are registered by name and report checkpoints;
  \<open>GetGlobalStatus\<close> aggregates their states. Every reading of the clock is an argument \<open>now\<close>.
  The locale \<open>supervision\<close> is what the owner of a supervised entity relies on.
\<close>

section \<open>Data\<close>

datatype SupervisionStatus = kOk | kFailed | kExpired | kStopped | kDeactivated

datatype GlobalSupervisionStatus = kNormal | kFailed | kExpired | kStopped

datatype PhmAction = kNone | kReportError | kRestartApp | kTriggerSm | kHardReset

record AliveSupervisionConfig =
  ac_aliveReferenceCycleMs :: u32
  ac_minMargin :: u32
  ac_maxMargin :: u32
  ac_failedSupervisionCyclesTol :: u32

record DeadlineSupervisionConfig =
  dc_minDeadlineMs :: u32
  dc_maxDeadlineMs :: u32

record LogicalSupervisionConfig =
  lc_checkpointCount :: u32
  lc_transitionGraph :: string

type_synonym CheckpointId = u32

record EntityRecord =
  er_aliveConf :: AliveSupervisionConfig
  er_status :: SupervisionStatus
  er_lastCheckpointTime :: time_point
  er_aliveCountInCycle :: u32
  er_action :: PhmAction

record PlatformHealthManagement =
  ph_entities :: "(string, EntityRecord) umap"
  ph_recoveryCallback :: "callback option"
  ph_running :: bool
  ph_lastWdgKick :: time_point

text \<open>The default-constructed \<open>steady_clock::time_point\<close> is tick 0.\<close>

definition Phm_new :: PlatformHealthManagement where
  "Phm_new = \<lparr>ph_entities = um_empty, ph_recoveryCallback = None, ph_running = False,
     ph_lastWdgKick = 0\<rparr>"

section \<open>Operations of the manager\<close>

definition RegisterEntity ::
  "string \<Rightarrow> AliveSupervisionConfig \<Rightarrow> time_point \<Rightarrow> PlatformHealthManagement \<Rightarrow>
   bool \<times> PlatformHealthManagement" where
  "RegisterEntity entityId aliveConf now phm =
     (if um_find (ph_entities phm) entityId \<noteq> None then (False, phm)
      else (True, phm\<lparr>ph_entities := um_put entityId
              \<lparr>er_aliveConf = aliveConf, er_status = SupervisionStatus.kOk,
               er_lastCheckpointTime = now, er_aliveCountInCycle = 0,
               er_action = PhmAction.kReportError\<rparr> (ph_entities phm)\<rparr>))"

definition UnregisterEntity :: "string \<Rightarrow> PlatformHealthManagement \<Rightarrow> PlatformHealthManagement" where
  "UnregisterEntity entityId phm = phm\<lparr>ph_entities := um_erase entityId (ph_entities phm)\<rparr>"

definition ReportCheckpoint ::
  "string \<Rightarrow> CheckpointId \<Rightarrow> time_point \<Rightarrow> PlatformHealthManagement \<Rightarrow> PlatformHealthManagement" where
  "ReportCheckpoint entityId cpId now phm =
     (case um_find (ph_entities phm) entityId of
        None \<Rightarrow> phm
      | Some rec \<Rightarrow>
          phm\<lparr>ph_entities := um_put entityId
                (rec\<lparr>er_lastCheckpointTime := now,
                     er_aliveCountInCycle := er_aliveCountInCycle rec + 1,
                     er_status := SupervisionStatus.kOk\<rparr>) (ph_entities phm)\<rparr>)"

text \<open>The loop of \<open>GetGlobalStatus\<close> over the records, with its \<open>break\<close>.\<close>

fun global_status_loop ::
  "GlobalSupervisionStatus \<Rightarrow> EntityRecord list \<Rightarrow> GlobalSupervisionStatus" where
  "global_status_loop globalStatus [] = globalStatus"
| "global_status_loop globalStatus (rec # recs) =
     (let s = er_status rec in
      if s = SupervisionStatus.kExpired then GlobalSupervisionStatus.kExpired
      else if s = SupervisionStatus.kFailed
        then global_status_loop GlobalSupervisionStatus.kFailed recs
      else if s = SupervisionStatus.kStopped \<and> globalStatus = GlobalSupervisionStatus.kNormal
        then global_status_loop GlobalSupervisionStatus.kStopped recs
      else global_status_loop globalStatus recs)"

definition GetGlobalStatus :: "PlatformHealthManagement \<Rightarrow> GlobalSupervisionStatus" where
  "GetGlobalStatus phm =
     global_status_loop GlobalSupervisionStatus.kNormal (um_values (ph_entities phm))"

definition KickWatchdog :: "time_point \<Rightarrow> PlatformHealthManagement \<Rightarrow> PlatformHealthManagement" where
  "KickWatchdog now phm = phm\<lparr>ph_lastWdgKick := now\<rparr>"

definition SetRecoveryCallback ::
  "callback option \<Rightarrow> PlatformHealthManagement \<Rightarrow> PlatformHealthManagement" where
  "SetRecoveryCallback cb phm = phm\<lparr>ph_recoveryCallback := cb\<rparr>"

definition SetPhmAction ::
  "string \<Rightarrow> PhmAction \<Rightarrow> PlatformHealthManagement \<Rightarrow> PlatformHealthManagement" where
  "SetPhmAction entityId action phm =
     (case um_find (ph_entities phm) entityId of
        None \<Rightarrow> phm
      | Some rec \<Rightarrow>
          phm\<lparr>ph_entities := um_put entityId (rec\<lparr>er_action := action\<rparr>) (ph_entities phm)\<rparr>)"

definition Phm_IsRunning :: "PlatformHealthManagement \<Rightarrow> bool" where
  "Phm_IsRunning phm = ph_running phm"

definition Phm_Start :: "time_point \<Rightarrow> PlatformHealthManagement \<Rightarrow> PlatformHealthManagement" where
  "Phm_Start now phm = phm\<lparr>ph_running := True, ph_lastWdgKick := now\<rparr>"

definition Phm_Stop :: "PlatformHealthManagement \<Rightarrow> PlatformHealthManagement" where
  "Phm_Stop phm = phm\<lparr>ph_running := False\<rparr>"

lemmas phm_defs = RegisterEntity_def UnregisterEntity_def ReportCheckpoint_def KickWatchdog_def
  SetRecoveryCallback_def SetPhmAction_def Phm_Start_def Phm_Stop_def

section \<open>Supervised entities\<close>

record SupervisedEntity =
  se_instanceId :: string
  se_status :: SupervisionStatus
  se_lastCheckpointTime :: time_point
  se_checkpointCount :: u32

definition defaultConf :: AliveSupervisionConfig where
  "defaultConf = \<lparr>ac_aliveReferenceCycleMs = 100, ac_minMargin = 0, ac_maxMargin = 2,
     ac_failedSupervisionCyclesTol = 3\<rparr>"

text \<open>The constructor reads the clock twice: for its own record and in \<open>RegisterEntity\<close>.\<close>

definition SupervisedEntity_ctor ::
  "string \<Rightarrow> time_point \<Rightarrow> time_point \<Rightarrow> PlatformHealthManagement \<Rightarrow>
   SupervisedEntity \<times> PlatformHealthManagement" where
  "SupervisedEntity_ctor instanceId now now' phm =
     (\<lparr>se_instanceId = instanceId, se_status = SupervisionStatus.kOk,
       se_lastCheckpointTime = now, se_checkpointCount = 0\<rparr>,
      snd (RegisterEntity instanceId defaultConf now' phm))"

definition SupervisedEntity_dtor ::
  "SupervisedEntity \<Rightarrow> PlatformHealthManagement \<Rightarrow> PlatformHealthManagement" where
  "SupervisedEntity_dtor se phm = UnregisterEntity (se_instanceId se) phm"

definition CheckpointReached ::
  "CheckpointId \<Rightarrow> time_point \<Rightarrow> time_point \<Rightarrow> SupervisedEntity \<Rightarrow> PlatformHealthManagement \<Rightarrow>
   SupervisedEntity \<times> PlatformHealthManagement" where
  "CheckpointReached checkpointId now now' se phm =
     (se\<lparr>se_lastCheckpointTime := now, se_checkpointCount := se_checkpointCount se + 1\<rparr>,
      ReportCheckpoint (se_instanceId se) checkpointId now' phm)"

definition SupervisedEntity_GetInstanceId :: "SupervisedEntity \<Rightarrow> string" where
  "SupervisedEntity_GetInstanceId se = se_instanceId se"

definition SupervisedEntity_GetStatus :: "SupervisedEntity \<Rightarrow> SupervisionStatus" where
  "SupervisedEntity_GetStatus se = se_status se"

section \<open>The contract of supervision\<close>

locale supervision =
  fixes register :: "'e \<Rightarrow> 's \<Rightarrow> bool \<times> 's"
    and unregister :: "'e \<Rightarrow> 's \<Rightarrow> 's"
    and known :: "'s \<Rightarrow> 'e \<Rightarrow> bool"
  assumes register_result: "fst (register e s) \<longleftrightarrow> \<not> known s e"
    and register_known: "known (snd (register e s)) e' \<longleftrightarrow> e' = e \<or> known s e'"
    and unregister_known: "known (unregister e s) e' \<longleftrightarrow> e' \<noteq> e \<and> known s e'"
begin

text \<open>
  Names are not counted: however often a name has been registered, one removal makes it unknown.
\<close>

lemma register_all_known:
  "known (fold (\<lambda>e s. snd (register e s)) es s) e \<longleftrightarrow> e \<in> set es \<or> known s e"
  by (induction es arbitrary: s) (auto simp: register_known)

lemma removal_is_final: "\<not> known (unregister e (fold (\<lambda>e s. snd (register e s)) es s)) e"
  by (simp add: unregister_known)

lemma register_again_fails: "\<not> fst (register e (snd (register e s)))"
  by (simp add: register_result register_known)

end

definition phm_known :: "PlatformHealthManagement \<Rightarrow> string \<Rightarrow> bool" where
  "phm_known phm e \<longleftrightarrow> um_find (ph_entities phm) e \<noteq> None"

interpretation entities: supervision
  "\<lambda>e phm. RegisterEntity e conf now phm" UnregisterEntity phm_known
  by unfold_locales
    (auto simp: RegisterEntity_def UnregisterEntity_def phm_known_def um_simps split: if_splits)

lemma ReportCheckpoint_unknown: "\<not> phm_known phm e \<Longrightarrow> ReportCheckpoint e cp now phm = phm"
  by (simp add: ReportCheckpoint_def phm_known_def)

lemma SetPhmAction_unknown: "\<not> phm_known phm e \<Longrightarrow> SetPhmAction e a phm = phm"
  by (simp add: SetPhmAction_def phm_known_def)

section \<open>Aggregation\<close>

text \<open>How severe a status is: expired before failed before stopped before the rest.\<close>

fun status_severity :: "SupervisionStatus \<Rightarrow> nat" where
  "status_severity SupervisionStatus.kExpired = 3"
| "status_severity SupervisionStatus.kFailed = 2"
| "status_severity SupervisionStatus.kStopped = 1"
| "status_severity SupervisionStatus.kOk = 0"
| "status_severity SupervisionStatus.kDeactivated = 0"

fun global_severity :: "GlobalSupervisionStatus \<Rightarrow> nat" where
  "global_severity GlobalSupervisionStatus.kExpired = 3"
| "global_severity GlobalSupervisionStatus.kFailed = 2"
| "global_severity GlobalSupervisionStatus.kStopped = 1"
| "global_severity GlobalSupervisionStatus.kNormal = 0"

lemma global_severity_inj: "global_severity g = global_severity g' \<longleftrightarrow> g = g'"
  by (cases g; cases g') simp_all

lemma status_severity_le: "status_severity s \<le> 3"
  by (cases s) simp_all

lemma severities_le:
  "fold max (map (\<lambda>rec. status_severity (er_status rec)) recs) 3 = 3"
  by (induction recs) (simp_all add: status_severity_le)

lemma global_status_loop_severity:
  assumes "g \<noteq> GlobalSupervisionStatus.kExpired"
  shows "global_severity (global_status_loop g recs) =
    fold max (map (\<lambda>rec. status_severity (er_status rec)) recs) (global_severity g)"
  using assms
proof (induction recs arbitrary: g)
  case Nil
  then show ?case by simp
next
  case (Cons rec recs)
  then show ?case
    by (cases "er_status rec"; cases g) (simp_all add: severities_le [unfolded numeral_3_eq_3] numeral_2_eq_2 numeral_3_eq_3)
qed

section \<open>What supervision promises, and what it does not\<close>

text \<open>
  The global status is the most severe status of the registered entities, whatever order the
  hash map yields them in: expired over failed over stopped over normal.
\<close>

theorem GetGlobalStatus_most_severe:
  "global_severity (GetGlobalStatus phm) =
     Max (insert 0 ((\<lambda>rec. status_severity (er_status rec)) ` set (um_values (ph_entities phm))))"
proof -
  let ?sev = "\<lambda>rec. status_severity (er_status rec)"
  have "global_severity (GetGlobalStatus phm) = fold max (map ?sev (um_values (ph_entities phm))) 0"
    by (simp add: GetGlobalStatus_def global_status_loop_severity)
  also have "\<dots> = Max (set (0 # map ?sev (um_values (ph_entities phm))))"
    by (simp only: Max.set_eq_fold)
  finally show ?thesis by simp
qed

text \<open>The calls clients can make on the manager; \<open>SupervisedEntity\<close> makes no others.\<close>

datatype phm_op =
    OpRegister string AliveSupervisionConfig time_point
  | OpUnregister string
  | OpCheckpoint string CheckpointId time_point
  | OpKick time_point
  | OpSetCallback "callback option"
  | OpSetAction string PhmAction
  | OpStart time_point
  | OpStop

fun phm_step :: "PlatformHealthManagement \<Rightarrow> phm_op \<Rightarrow> PlatformHealthManagement" where
  "phm_step phm (OpRegister e conf now) = snd (RegisterEntity e conf now phm)"
| "phm_step phm (OpUnregister e) = UnregisterEntity e phm"
| "phm_step phm (OpCheckpoint e cp now) = ReportCheckpoint e cp now phm"
| "phm_step phm (OpKick now) = KickWatchdog now phm"
| "phm_step phm (OpSetCallback cb) = SetRecoveryCallback cb phm"
| "phm_step phm (OpSetAction e a) = SetPhmAction e a phm"
| "phm_step phm (OpStart now) = Phm_Start now phm"
| "phm_step phm OpStop = Phm_Stop phm"

definition all_ok :: "PlatformHealthManagement \<Rightarrow> bool" where
  "all_ok phm \<longleftrightarrow> um_ok (ph_entities phm) \<and>
     list_all (\<lambda>(_, rec). er_status rec = SupervisionStatus.kOk) (ph_entities phm)"

lemma all_ok_iff:
  "all_ok phm \<longleftrightarrow> um_ok (ph_entities phm) \<and>
     (\<forall>e rec. um_find (ph_entities phm) e = Some rec \<longrightarrow> er_status rec = SupervisionStatus.kOk)"
  by (auto simp: all_ok_def um_list_all)

lemma phm_step_all_ok: "all_ok phm \<Longrightarrow> all_ok (phm_step phm op)"
  by (cases op)
    (auto simp: all_ok_iff phm_defs um.wf_put um.wf_erase um_simps split: option.splits)

interpretation phm_calls: invariant_step phm_step all_ok
  by unfold_locales (rule phm_step_all_ok)

lemma all_ok_new: "all_ok Phm_new"
  by (simp add: all_ok_def Phm_new_def um_empty_def)

lemma all_ok_global: "all_ok phm \<Longrightarrow> GetGlobalStatus phm = GlobalSupervisionStatus.kNormal"
proof -
  assume ok: "all_ok phm"
  have "global_status_loop GlobalSupervisionStatus.kNormal recs = GlobalSupervisionStatus.kNormal"
    if "\<forall>rec \<in> set recs. er_status rec = SupervisionStatus.kOk" for recs
    using that by (induction recs) simp_all
  with ok show ?thesis
    by (simp add: GetGlobalStatus_def all_ok_def um_values_def list_all_iff case_prod_beta)
qed

text \<open>
  C30: whatever clients do, and however long any of them stays silent, the manager reports the
  platform as normal: no operation ever stores a status other than \<open>kOk\<close>. In particular the
  status is normal when the manager has been stopped, and the alive configuration of an entity
  is never consulted.
\<close>

theorem global_status_always_normal:
  "GetGlobalStatus (run phm_step Phm_new ops) = GlobalSupervisionStatus.kNormal"
  by (rule all_ok_global) (rule phm_calls.run_inv [OF all_ok_new])

text \<open>
  The checkpoints a registered entity reports are counted modulo \<open>2^32\<close>, the time of the
  latest is kept, and neither another entity's record nor its own configuration and action
  change; the identity of the checkpoint plays no part.
\<close>

theorem checkpoints_counted:
  assumes "um_find (ph_entities phm) e = Some rec" and "cps \<noteq> []"
  shows "um_find (ph_entities (foldl (\<lambda>p (cp, now). ReportCheckpoint e cp now p) phm cps)) e' =
    (if e' = e
     then Some (rec\<lparr>er_lastCheckpointTime := snd (last cps),
                    er_aliveCountInCycle := er_aliveCountInCycle rec + of_nat (length cps),
                    er_status := SupervisionStatus.kOk\<rparr>)
     else um_find (ph_entities phm) e')"
  using assms
proof (induction cps arbitrary: phm rec)
  case Nil
  then show ?case by simp
next
  case (Cons c cps)
  let ?phm = "ReportCheckpoint e (fst c) (snd c) phm"
  let ?rec = "rec\<lparr>er_lastCheckpointTime := snd c,
      er_aliveCountInCycle := er_aliveCountInCycle rec + 1, er_status := SupervisionStatus.kOk\<rparr>"
  have find: "um_find (ph_entities ?phm) x = (if x = e then Some ?rec else um_find (ph_entities phm) x)"
    for x using Cons.prems by (simp add: ReportCheckpoint_def um_simps)
  show ?case
  proof (cases "cps = []")
    case True
    with find show ?thesis by (simp add: case_prod_beta)
  next
    case False
    with Cons.IH [of ?phm ?rec] find show ?thesis by (simp add: case_prod_beta ac_simps)
  qed
qed

theorem checkpoints_counted_witness:
  "let phm = snd (RegisterEntity ''A'' defaultConf 0 Phm_new)
   in map_option er_aliveCountInCycle
        (um_find (ph_entities (foldl (\<lambda>p (cp, now). ReportCheckpoint ''A'' cp now p) phm
           [(1, 10), (255, 20)])) ''A'') = Some 2"
proof -
  let ?phm = "snd (RegisterEntity ''A'' defaultConf 0 Phm_new)"
  let ?rec = "\<lparr>er_aliveConf = defaultConf, er_status = SupervisionStatus.kOk,
    er_lastCheckpointTime = 0, er_aliveCountInCycle = 0, er_action = PhmAction.kReportError\<rparr>"
  have "um_find (ph_entities ?phm) ''A'' = Some ?rec"
    by (simp add: RegisterEntity_def Phm_new_def um_simps)
  from checkpoints_counted [OF this, of "[(1, 10), (255, 20)]" "''A''"] show ?thesis
    by (simp add: Let_def)
qed

text \<open>
  A second entity constructed under a name that is taken is not registered, and the
  constructor does not say so; once the first entity is destroyed the second, still alive,
  is unknown to the manager, and its checkpoints have no effect.
\<close>

theorem second_entity_unsupervised:
  "let (first, p1) = SupervisedEntity_ctor e t1 t1' phm;
       (second, p2) = SupervisedEntity_ctor e t2 t2' p1;
       p3 = SupervisedEntity_dtor first p2;
       (second', p4) = CheckpointReached cp t3 t3' second p3
   in p2 = p1 \<and> p4 = p3 \<and> \<not> phm_known p4 e \<and>
      SupervisedEntity_GetStatus second' = SupervisionStatus.kOk"
proof -
  let ?p1 = "snd (RegisterEntity e defaultConf t1' phm)"
  have "\<not> fst (RegisterEntity e defaultConf t2' ?p1)"
    by (simp add: entities.register_result entities.register_known)
  then have "snd (RegisterEntity e defaultConf t2' ?p1) = ?p1"
    by (auto simp: RegisterEntity_def split: if_splits)
  then show ?thesis
    by (simp add: SupervisedEntity_ctor_def SupervisedEntity_dtor_def CheckpointReached_def Let_def
        ReportCheckpoint_unknown entities.unregister_known SupervisedEntity_GetStatus_def)
qed

end
