(* ===== verification/Sm.thy ===== *)
theory Sm
  imports Prelude
begin

text \<open>
  ara::sm, state management: include/ara/sm/state_management.h and src/ara/sm/sm.cpp. The machine
  state with its transition matrix, and the function groups. Function groups are shared objects:
  they live in a heap, a list of objects, and a \<open>std::shared_ptr\<close> is an index into it,
  \<^const>\<open>None\<close> being the null pointer. Invocations of callbacks are returned by the operation
  that makes them.
\<close>

section \<open>Data\<close>

datatype MachineState = kStartup | kDriving | kParked | kCharging | kShutdown | kError

datatype FunctionGroupState = kOff | kOn | kSuspend | kDiag

datatype StateTransitionResult = kSuccess | kRejected | kTimeout | kInvalidState | kInProgress

record FunctionGroup =
  fg_name :: string
  fg_currentState :: FunctionGroupState
  fg_stateChangeCallback :: "callback option"

type_synonym fg_heap = "FunctionGroup list"
type_synonym fg_ptr = "nat option"
type_synonym fg_calls = "(callback \<times> FunctionGroupState \<times> FunctionGroupState) list"
type_synonym machine_calls = "(callback \<times> MachineState \<times> MachineState) list"

record StateManagement =
  sm_currentState :: MachineState
  sm_functionGroups :: "(string, fg_ptr) umap"
  sm_machineStateCallback :: "callback option"

definition StateManagement_new :: StateManagement where
  "StateManagement_new = \<lparr>sm_currentState = MachineState.kStartup, sm_functionGroups = um_empty,
     sm_machineStateCallback = None\<rparr>"

section \<open>Function groups\<close>

definition FunctionGroup_ctor :: "string \<Rightarrow> FunctionGroupState \<Rightarrow> FunctionGroup" where
  "FunctionGroup_ctor name initialState =
     \<lparr>fg_name = name, fg_currentState = initialState, fg_stateChangeCallback = None\<rparr>"

definition RequestStateChange ::
  "FunctionGroupState \<Rightarrow> FunctionGroup \<Rightarrow> StateTransitionResult \<times> FunctionGroup \<times> fg_calls" where
  "RequestStateChange targetState fg =
     (let oldState = fg_currentState fg in
      if oldState = targetState then (StateTransitionResult.kSuccess, fg, [])
      else (StateTransitionResult.kSuccess, fg\<lparr>fg_currentState := targetState\<rparr>,
            invoke (fg_stateChangeCallback fg) (oldState, targetState)))"

definition Fg_GetCurrentState :: "FunctionGroup \<Rightarrow> FunctionGroupState" where
  "Fg_GetCurrentState fg = fg_currentState fg"

definition Fg_GetName :: "FunctionGroup \<Rightarrow> string" where
  "Fg_GetName fg = fg_name fg"

definition SetStateChangeCallback :: "callback option \<Rightarrow> FunctionGroup \<Rightarrow> FunctionGroup" where
  "SetStateChangeCallback cb fg = fg\<lparr>fg_stateChangeCallback := cb\<rparr>"

text \<open>\<open>std::make_shared\<close>: the new object goes to the end of the heap.\<close>

definition make_shared_fg :: "FunctionGroup \<Rightarrow> fg_heap \<Rightarrow> fg_ptr \<times> fg_heap" where
  "make_shared_fg fg h = (Some (length h), h @ [fg])"

section \<open>The machine state\<close>

definition IsValidTransition :: "MachineState \<Rightarrow> MachineState \<Rightarrow> bool" where
  "IsValidTransition source dest =
     (if dest = MachineState.kShutdown then True
      else if dest = MachineState.kError then True
      else (case source of
              MachineState.kStartup \<Rightarrow> dest = MachineState.kDriving \<or> dest = MachineState.kParked
            | MachineState.kDriving \<Rightarrow> dest = MachineState.kParked
            | MachineState.kParked \<Rightarrow> dest = MachineState.kDriving \<or> dest = MachineState.kCharging
            | MachineState.kCharging \<Rightarrow> dest = MachineState.kParked
            | _ \<Rightarrow> False))"

definition RequestMachineStateChange ::
  "MachineState \<Rightarrow> StateManagement \<Rightarrow> StateTransitionResult \<times> StateManagement \<times> machine_calls" where
  "RequestMachineStateChange targetState sm =
     (let current = sm_currentState sm in
      if current = targetState then (StateTransitionResult.kSuccess, sm, [])
      else if \<not> IsValidTransition current targetState then (StateTransitionResult.kRejected, sm, [])
      else (StateTransitionResult.kSuccess, sm\<lparr>sm_currentState := targetState\<rparr>,
            invoke (sm_machineStateCallback sm) (current, targetState)))"

definition GetCurrentMachineState :: "StateManagement \<Rightarrow> MachineState" where
  "GetCurrentMachineState sm = sm_currentState sm"

definition RegisterFunctionGroup :: "fg_ptr \<Rightarrow> fg_heap \<Rightarrow> StateManagement \<Rightarrow> StateManagement" where
  "RegisterFunctionGroup fg h sm =
     (case fg of
        None \<Rightarrow> sm
      | Some i \<Rightarrow> sm\<lparr>sm_functionGroups := um_put (Fg_GetName (h ! i)) (Some i) (sm_functionGroups sm)\<rparr>)"

definition GetFunctionGroup :: "string \<Rightarrow> StateManagement \<Rightarrow> fg_ptr" where
  "GetFunctionGroup name sm =
     (case um_find (sm_functionGroups sm) name of Some p \<Rightarrow> p | None \<Rightarrow> None)"

definition SetMachineStateCallback :: "callback option \<Rightarrow> StateManagement \<Rightarrow> StateManagement" where
  "SetMachineStateCallback cb sm = sm\<lparr>sm_machineStateCallback := cb\<rparr>"

text \<open>Returns what it writes to \<open>std::cerr\<close> besides the new state and the invocations.\<close>

definition TriggerErrorState ::
  "string \<Rightarrow> StateManagement \<Rightarrow> string \<times> StateManagement \<times> machine_calls" where
  "TriggerErrorState reason sm =
     (''[ara::sm] Error state triggered: '' @ reason @ [CHR 0x0A],
      snd (RequestMachineStateChange MachineState.kError sm))"

definition Sm_Initialize :: "fg_heap \<Rightarrow> StateManagement \<Rightarrow> bool \<times> fg_heap \<times> StateManagement" where
  "Sm_Initialize h sm =
     (let (driveAssist, h) = make_shared_fg (FunctionGroup_ctor ''DriveAssist'' FunctionGroupState.kOff) h;
          (infotainment, h) = make_shared_fg (FunctionGroup_ctor ''Infotainment'' FunctionGroupState.kOff) h;
          (diagnostic, h) = make_shared_fg (FunctionGroup_ctor ''Diagnostic'' FunctionGroupState.kOff) h;
          (ota, h) = make_shared_fg (FunctionGroup_ctor ''OTA'' FunctionGroupState.kOff) h;
          sm = RegisterFunctionGroup driveAssist h sm;
          sm = RegisterFunctionGroup infotainment h sm;
          sm = RegisterFunctionGroup diagnostic h sm;
          sm = RegisterFunctionGroup ota h sm
      in (True, h, sm))"

definition Sm_Shutdown :: "StateManagement \<Rightarrow> StateManagement \<times> machine_calls" where
  "Sm_Shutdown sm = snd (RequestMachineStateChange MachineState.kShutdown sm)"

section \<open>Clients\<close>

text \<open>
  The world a client sees: the manager, the objects, and the machine notifications so far. A
  client can make calls on the manager and on every function group it holds a pointer to; a
  pointer it does not hold is not dereferenced.
\<close>

record sm_world =
  w_sm :: StateManagement
  w_heap :: fg_heap
  w_calls :: machine_calls

datatype sm_op =
    SmRequest MachineState
  | SmTrigger string
  | SmShutdown
  | SmSetCallback "callback option"
  | SmInitialize
  | SmRegister fg_ptr
  | FgNew string FunctionGroupState
  | FgRequest nat FunctionGroupState
  | FgSetCallback nat "callback option"

definition after_machine :: "StateManagement \<times> machine_calls \<Rightarrow> sm_world \<Rightarrow> sm_world" where
  "after_machine r w = w\<lparr>w_sm := fst r, w_calls := w_calls w @ snd r\<rparr>"

fun sm_step :: "sm_world \<Rightarrow> sm_op \<Rightarrow> sm_world" where
  "sm_step w (SmRequest t) = after_machine (snd (RequestMachineStateChange t (w_sm w))) w"
| "sm_step w (SmTrigger r) = after_machine (snd (TriggerErrorState r (w_sm w))) w"
| "sm_step w SmShutdown = after_machine (Sm_Shutdown (w_sm w)) w"
| "sm_step w (SmSetCallback cb) = w\<lparr>w_sm := SetMachineStateCallback cb (w_sm w)\<rparr>"
| "sm_step w SmInitialize =
     (let (_, h, sm) = Sm_Initialize (w_heap w) (w_sm w) in w\<lparr>w_heap := h, w_sm := sm\<rparr>)"
| "sm_step w (SmRegister p) =
     (if case p of None \<Rightarrow> True | Some i \<Rightarrow> i < length (w_heap w)
      then w\<lparr>w_sm := RegisterFunctionGroup p (w_heap w) (w_sm w)\<rparr> else w)"
| "sm_step w (FgNew n s) = w\<lparr>w_heap := snd (make_shared_fg (FunctionGroup_ctor n s) (w_heap w))\<rparr>"
| "sm_step w (FgRequest i s) =
     (if i < length (w_heap w)
      then w\<lparr>w_heap := (w_heap w)[i := fst (snd (RequestStateChange s (w_heap w ! i)))]\<rparr> else w)"
| "sm_step w (FgSetCallback i cb) =
     (if i < length (w_heap w)
      then w\<lparr>w_heap := (w_heap w)[i := SetStateChangeCallback cb (w_heap w ! i)]\<rparr> else w)"

definition sm_start :: sm_world where
  "sm_start = \<lparr>w_sm = StateManagement_new, w_heap = [], w_calls = []\<rparr>"

section \<open>The documented transition graph\<close>

text \<open>
  The matrix of the file's head comment, as a relation: operating states are left in the listed
  ways, and shutdown and error are entered from anywhere.
\<close>

inductive sm_edge :: "MachineState \<Rightarrow> MachineState \<Rightarrow> bool" where
  startup_driving: "sm_edge MachineState.kStartup MachineState.kDriving"
| startup_parked: "sm_edge MachineState.kStartup MachineState.kParked"
| driving_parked: "sm_edge MachineState.kDriving MachineState.kParked"
| parked_driving: "sm_edge MachineState.kParked MachineState.kDriving"
| parked_charging: "sm_edge MachineState.kParked MachineState.kCharging"
| charging_parked: "sm_edge MachineState.kCharging MachineState.kParked"
| to_shutdown: "s \<noteq> MachineState.kShutdown \<Longrightarrow> sm_edge s MachineState.kShutdown"
| to_error: "s \<noteq> MachineState.kError \<Longrightarrow> sm_edge s MachineState.kError"

inductive_simps sm_edge_to: "sm_edge s t"

lemma sm_edge_iff: "sm_edge s t \<longleftrightarrow> s \<noteq> t \<and> IsValidTransition s t"
  by (cases s; cases t) (simp_all add: sm_edge_to IsValidTransition_def)

abbreviation sm_path :: "MachineState \<Rightarrow> (MachineState \<times> MachineState) list \<Rightarrow> MachineState \<Rightarrow> bool" where
  "sm_path \<equiv> edge_path sm_edge"

lemma RequestMachineStateChange_cases:
  "RequestMachineStateChange t sm =
     (if sm_currentState sm = t then (StateTransitionResult.kSuccess, sm, [])
      else if sm_edge (sm_currentState sm) t
      then (StateTransitionResult.kSuccess, sm\<lparr>sm_currentState := t\<rparr>,
            invoke (sm_machineStateCallback sm) (sm_currentState sm, t))
      else (StateTransitionResult.kRejected, sm, []))"
  by (simp add: RequestMachineStateChange_def sm_edge_iff Let_def)

lemmas sm_machine_defs = after_machine_def TriggerErrorState_def Sm_Shutdown_def
  RequestMachineStateChange_cases SetMachineStateCallback_def

lemma RegisterFunctionGroup_machine [simp]:
  "sm_currentState (RegisterFunctionGroup p h sm) = sm_currentState sm"
  "sm_machineStateCallback (RegisterFunctionGroup p h sm) = sm_machineStateCallback sm"
  by (simp_all add: RegisterFunctionGroup_def split: option.splits)

lemma sm_step_state:
  "sm_currentState (w_sm (sm_step w op)) = sm_currentState (w_sm w) \<or>
   sm_edge (sm_currentState (w_sm w)) (sm_currentState (w_sm (sm_step w op)))"
  by (cases op) (auto simp: sm_machine_defs Sm_Initialize_def Let_def make_shared_fg_def)


section \<open>What the machine state machine promises\<close>

fun sets_machine_callback :: "sm_op \<Rightarrow> bool" where
  "sets_machine_callback (SmSetCallback _) = True"
| "sets_machine_callback _ = False"

lemma Sm_Initialize_machine:
  "sm_currentState (snd (snd (Sm_Initialize h sm))) = sm_currentState sm"
  "sm_machineStateCallback (snd (snd (Sm_Initialize h sm))) = sm_machineStateCallback sm"
  by (simp_all add: Sm_Initialize_def Let_def make_shared_fg_def)

lemma sm_step_path:
  assumes "\<not> sets_machine_callback op"
    and "sm_machineStateCallback (w_sm w) = Some f"
    and "sm_path s (map snd (w_calls w)) (sm_currentState (w_sm w))"
  shows "sm_machineStateCallback (w_sm (sm_step w op)) = Some f \<and>
    sm_path s (map snd (w_calls (sm_step w op))) (sm_currentState (w_sm (sm_step w op)))"
  using assms
  by (cases op)
    (auto simp: sm_machine_defs Sm_Initialize_machine case_prod_beta Let_def edge_path_append)

text \<open>
  C7: while a machine state callback is registered and not replaced, the notifications it
  receives, whatever calls clients make in whatever order, are an unbroken path in the documented
  transition graph, from the state at the start to the present state: no change of state goes
  unreported, no refused request is reported, and no change outside the graph is made.
\<close>

theorem machine_notifications_follow_graph:
  assumes "sm_machineStateCallback (w_sm w) = Some f" and "w_calls w = []"
    and "\<not> list_ex sets_machine_callback ops"
  shows "sm_path (sm_currentState (w_sm w)) (map snd (w_calls (run sm_step w ops)))
    (GetCurrentMachineState (w_sm (run sm_step w ops)))"
proof -
  have "sm_path s (map snd (w_calls (run sm_step v ops))) (sm_currentState (w_sm (run sm_step v ops)))"
    if "sm_machineStateCallback (w_sm v) = Some f"
      and "sm_path s (map snd (w_calls v)) (sm_currentState (w_sm v))" for s v
    using that assms(3)
  proof (induction ops arbitrary: v)
    case Nil
    then show ?case by simp
  next
    case (Cons op ops)
    then have "\<not> sets_machine_callback op" and rest: "\<not> list_ex sets_machine_callback ops" by simp_all
    from sm_step_path [OF this(1) Cons.prems(1) Cons.prems(2)] Cons.IH rest show ?case by simp
  qed
  from this [of w "sm_currentState (w_sm w)"] assms(1,2) show ?thesis
    by (simp add: GetCurrentMachineState_def)
qed

definition sm_demo :: sm_world where
  "sm_demo = sm_step sm_start (SmSetCallback (Some 7))"

definition sm_demo_ops :: "sm_op list" where
  "sm_demo_ops = [SmInitialize, SmRequest MachineState.kCharging, SmRequest MachineState.kParked,
     SmRequest MachineState.kCharging, SmRequest MachineState.kDriving, SmTrigger ''x'', SmShutdown]"

theorem machine_notifications_follow_graph_witness:
  "sm_path MachineState.kStartup (map snd (w_calls (run sm_step sm_demo sm_demo_ops))) MachineState.kShutdown \<and>
   map snd (w_calls (run sm_step sm_demo sm_demo_ops)) =
     [(MachineState.kStartup, MachineState.kParked), (MachineState.kParked, MachineState.kCharging),
      (MachineState.kCharging, MachineState.kError), (MachineState.kError, MachineState.kShutdown)]"
proof -
  have "sm_machineStateCallback (w_sm sm_demo) = Some 7" "w_calls sm_demo = []"
    "\<not> list_ex sets_machine_callback sm_demo_ops" "sm_currentState (w_sm sm_demo) = MachineState.kStartup"
    by code_simp+
  moreover have "GetCurrentMachineState (w_sm (run sm_step sm_demo sm_demo_ops)) = MachineState.kShutdown"
    "map snd (w_calls (run sm_step sm_demo sm_demo_ops)) =
     [(MachineState.kStartup, MachineState.kParked), (MachineState.kParked, MachineState.kCharging),
      (MachineState.kCharging, MachineState.kError), (MachineState.kError, MachineState.kShutdown)]"
    by code_simp+
  ultimately show ?thesis
    using machine_notifications_follow_graph [of sm_demo 7 sm_demo_ops] by simp
qed

definition is_terminal :: "MachineState \<Rightarrow> bool" where
  "is_terminal s \<longleftrightarrow> s = MachineState.kShutdown \<or> s = MachineState.kError"

lemma sm_edge_terminal: "sm_edge s t \<Longrightarrow> is_terminal s \<Longrightarrow> is_terminal t"
  by (auto simp: is_terminal_def sm_edge_to)

interpretation terminal: invariant_step sm_step "\<lambda>w. is_terminal (sm_currentState (w_sm w))"
  by unfold_locales (metis sm_step_state sm_edge_terminal)

text \<open>
  Shutdown and error are traps. Once the machine is in one of them, no sequence of calls ever
  brings it back to an operating state, and a request for an operating state is rejected.
\<close>

theorem shutdown_and_error_are_final:
  assumes "is_terminal (sm_currentState (w_sm w))" and "\<not> is_terminal t"
  shows "fst (RequestMachineStateChange t (w_sm (run sm_step w ops))) = StateTransitionResult.kRejected"
proof -
  have "is_terminal (sm_currentState (w_sm (run sm_step w ops)))"
    by (rule terminal.run_inv) (rule assms(1))
  then show ?thesis
    using assms(2) by (auto simp: RequestMachineStateChange_cases is_terminal_def sm_edge_to)
qed

theorem shutdown_and_error_are_final_witness:
  "fst (RequestMachineStateChange MachineState.kDriving
     (w_sm (run sm_step (sm_step sm_start (SmTrigger ''x'')) [SmInitialize, SmRequest MachineState.kParked])))
   = StateTransitionResult.kRejected"
  by (rule shutdown_and_error_are_final) code_simp+

section \<open>What the registry of function groups promises\<close>

definition groups_ok :: "sm_world \<Rightarrow> bool" where
  "groups_ok w \<longleftrightarrow> (\<forall>n p. um_find (sm_functionGroups (w_sm w)) n = Some p \<longrightarrow>
     (\<exists>i. p = Some i \<and> i < length (w_heap w) \<and> Fg_GetName (w_heap w ! i) = n))"

lemma groups_ok_heap:
  assumes "groups_ok w" and "length (w_heap w) \<le> length h"
    and "\<And>i. i < length (w_heap w) \<Longrightarrow> Fg_GetName (h ! i) = Fg_GetName (w_heap w ! i)"
  shows "groups_ok (w\<lparr>w_heap := h\<rparr>)"
  using assms by (fastforce simp: groups_ok_def)

lemma groups_ok_register:
  assumes "groups_ok w" and "\<And>i. p = Some i \<Longrightarrow> i < length (w_heap w)"
  shows "groups_ok (w\<lparr>w_sm := RegisterFunctionGroup p (w_heap w) (w_sm w)\<rparr>)"
  using assms by (auto simp: groups_ok_def RegisterFunctionGroup_def um_simps split: option.splits)

lemma groups_ok_same:
  "groups_ok w \<Longrightarrow> sm_functionGroups sm = sm_functionGroups (w_sm w) \<Longrightarrow> groups_ok (w\<lparr>w_sm := sm\<rparr>)"
  by (simp add: groups_ok_def)

lemma RequestMachineStateChange_groups [simp]:
  "sm_functionGroups (fst (snd (RequestMachineStateChange t sm))) = sm_functionGroups sm"
  by (simp add: RequestMachineStateChange_cases)

lemma RequestStateChange_name [simp]:
  "Fg_GetName (fst (snd (RequestStateChange s fg))) = Fg_GetName fg"
  by (simp add: RequestStateChange_def Let_def Fg_GetName_def)

lemma SetStateChangeCallback_name [simp]: "Fg_GetName (SetStateChangeCallback cb fg) = Fg_GetName fg"
  by (simp add: SetStateChangeCallback_def Fg_GetName_def)

definition default_groups :: "FunctionGroup list" where
  "default_groups = map (\<lambda>n. FunctionGroup_ctor n FunctionGroupState.kOff)
     [''DriveAssist'', ''Infotainment'', ''Diagnostic'', ''OTA'']"

lemma Sm_Initialize_eq:
  "Sm_Initialize h sm =
     (True, h @ default_groups,
      foldl (\<lambda>sm i. RegisterFunctionGroup (Some i) (h @ default_groups) sm) sm
        [length h, length h + 1, length h + 2, length h + 3])"
  by (simp add: Sm_Initialize_def make_shared_fg_def default_groups_def Let_def eval_nat_numeral)

lemma groups_ok_register_all:
  assumes "groups_ok w" and "\<forall>i \<in> set is. i < length (w_heap w)"
  shows "groups_ok (w\<lparr>w_sm := foldl (\<lambda>sm i. RegisterFunctionGroup (Some i) (w_heap w) sm) (w_sm w) is\<rparr>)"
  using assms
proof (induction "is" arbitrary: w)
  case (Cons i "is")
  from groups_ok_register [of w "Some i"] Cons.prems
  have "groups_ok (w\<lparr>w_sm := RegisterFunctionGroup (Some i) (w_heap w) (w_sm w)\<rparr>)" by simp
  from Cons.IH [OF this] Cons.prems show ?case by simp
qed simp

lemma groups_ok_initialize:
  assumes "groups_ok w"
  shows "groups_ok (sm_step w SmInitialize)"
proof -
  let ?v = "w\<lparr>w_heap := w_heap w @ default_groups\<rparr>"
  have "groups_ok ?v"
    by (rule groups_ok_heap [OF assms]) (simp_all add: nth_append)
  from groups_ok_register_all [OF this, of "[length (w_heap w), length (w_heap w) + 1,
      length (w_heap w) + 2, length (w_heap w) + 3]"]
  show ?thesis by (simp add: Sm_Initialize_eq default_groups_def)
qed

lemma groups_ok_step: "groups_ok w \<Longrightarrow> groups_ok (sm_step w op)"
proof (cases op)
  case SmInitialize
  then show "groups_ok w \<Longrightarrow> groups_ok (sm_step w op)" by (simp only: groups_ok_initialize)
next
  case (SmRegister p)
  then show "groups_ok w \<Longrightarrow> groups_ok (sm_step w op)"
    by (auto intro: groups_ok_register split: option.splits)
next
  case (FgNew n s)
  then show "groups_ok w \<Longrightarrow> groups_ok (sm_step w op)"
    by (simp add: make_shared_fg_def) (rule groups_ok_heap, simp_all add: nth_append)
next
  case (FgRequest i s)
  then show "groups_ok w \<Longrightarrow> groups_ok (sm_step w op)"
    by simp (intro impI groups_ok_heap, simp_all add: nth_list_update)
next
  case (FgSetCallback i cb)
  then show "groups_ok w \<Longrightarrow> groups_ok (sm_step w op)"
    by simp (intro impI groups_ok_heap, simp_all add: nth_list_update)
qed (simp_all add: groups_ok_def sm_machine_defs)

interpretation group_registry: invariant_step sm_step groups_ok
  by unfold_locales (rule groups_ok_step)

text \<open>
  C40: after any sequence of calls from the start, a function group found under a name is a live
  object of that very name: no lookup yields a null or dangling pointer for a name that is known.
\<close>

theorem function_groups_found_by_name:
  "let w = run sm_step sm_start ops in
   case um_find (sm_functionGroups (w_sm w)) n of
     None \<Rightarrow> GetFunctionGroup n (w_sm w) = None
   | Some _ \<Rightarrow> (\<exists>i. GetFunctionGroup n (w_sm w) = Some i \<and> i < length (w_heap w) \<and>
                  Fg_GetName (w_heap w ! i) = n)"
proof -
  have "groups_ok sm_start"
    by (simp add: groups_ok_def sm_start_def StateManagement_new_def um_simps)
  from group_registry.run_inv [OF this, of ops] show ?thesis
    by (auto simp: groups_ok_def GetFunctionGroup_def Let_def split: option.splits)
qed

lemma GetFunctionGroup_register:
  "GetFunctionGroup n (RegisterFunctionGroup (Some i) h sm) =
     (if Fg_GetName (h ! i) = n then Some i else GetFunctionGroup n sm)"
  by (simp add: GetFunctionGroup_def RegisterFunctionGroup_def um_simps)

lemma Sm_Initialize_lookup:
  assumes "i < 4"
  shows "GetFunctionGroup (Fg_GetName (default_groups ! i)) (snd (snd (Sm_Initialize h sm))) =
    Some (length h + i)"
proof -
  have "i = 0 \<or> i = 1 \<or> i = 2 \<or> i = 3" using assms by linarith
  then show ?thesis
    by (elim disjE)
      (simp_all add: Sm_Initialize_eq GetFunctionGroup_register default_groups_def nth_append
        FunctionGroup_ctor_def Fg_GetName_def)
qed

text \<open>
  Initialising again replaces the four default groups by new ones that are off. Whoever kept
  a pointer \<open>j\<close> to an object from before then steers an object the registry no longer knows: what
  it requests does not change the state found under any default group's name.
\<close>

theorem reinitialize_orphans_groups:
  assumes "i < 4" and "j < length (w_heap w)"
  shows "let w' = run sm_step w [SmInitialize, FgRequest j s];
             p = GetFunctionGroup (Fg_GetName (default_groups ! i)) (w_sm w')
         in p = Some (length (w_heap w) + i) \<and>
            Fg_GetCurrentState (w_heap w' ! (length (w_heap w) + i)) = FunctionGroupState.kOff"
proof -
  have "Fg_GetCurrentState (default_groups ! i) = FunctionGroupState.kOff"
  proof -
    have "length default_groups = 4" by (simp add: default_groups_def)
    then have "default_groups ! i \<in> set default_groups" using assms(1) by (metis nth_mem)
    then show ?thesis
      by (auto simp: default_groups_def FunctionGroup_ctor_def Fg_GetCurrentState_def)
  qed
  moreover have "fst (snd (Sm_Initialize h sm)) = h @ default_groups" for h sm
    by (simp add: Sm_Initialize_eq)
  ultimately show ?thesis
    using assms Sm_Initialize_lookup [OF assms(1), of "w_heap w" "w_sm w"]
    by (simp add: Let_def case_prod_beta nth_append)
qed

theorem reinitialize_orphans_groups_witness:
  "let w = run sm_step sm_start [SmInitialize, FgRequest 3 FunctionGroupState.kOn];
       w' = run sm_step w [SmInitialize, FgRequest 3 FunctionGroupState.kSuspend]
   in GetFunctionGroup ''OTA'' (w_sm w) = Some 3 \<and> GetFunctionGroup ''OTA'' (w_sm w') = Some 7 \<and>
      Fg_GetCurrentState (w_heap w' ! 7) = FunctionGroupState.kOff"
proof -
  let ?w = "run sm_step sm_start [SmInitialize, FgRequest 3 FunctionGroupState.kOn]"
  have "length (w_heap ?w) = 4" "Fg_GetName (default_groups ! 3) = ''OTA''"
    "GetFunctionGroup ''OTA'' (w_sm ?w) = Some 3"
    by code_simp+
  with reinitialize_orphans_groups [of 3 3 ?w FunctionGroupState.kSuspend]
  show ?thesis by (simp add: Let_def)
qed

end
