(* ===== verification/Iam.thy ===== *)
theory Iam
  imports Prelude
begin

text \<open>
  ara::iam, identity and access management: include/ara/iam/identity_access_management.h and
  src/ara/iam/iam.cpp. Tokens, access policies, the decision of \<open>CheckAccess\<close> with its audit
  calls, and revocation. The reading of \<open>system_clock\<close>, in whole seconds, is the argument
  \<open>nowUnix\<close>.
\<close>

section \<open>Data\<close>

datatype IamResult = kGranted | kDenied | kInvalidToken | kUnknownEntity | kError

datatype AccessLevel = kNone | kRead | kWrite | kAdmin | kSecurity

text \<open>\<open>static_cast<uint8_t>\<close> of a level; levels are compared by it.\<close>

fun level_u8 :: "AccessLevel \<Rightarrow> u8" where
  "level_u8 AccessLevel.kNone = 0"
| "level_u8 AccessLevel.kRead = 1"
| "level_u8 AccessLevel.kWrite = 2"
| "level_u8 AccessLevel.kAdmin = 3"
| "level_u8 AccessLevel.kSecurity = 4"

lemma level_u8_inj: "level_u8 a = level_u8 b \<Longrightarrow> a = b"
  by (cases a; cases b) simp_all

instantiation AccessLevel :: linorder
begin

definition less_eq_AccessLevel :: "AccessLevel \<Rightarrow> AccessLevel \<Rightarrow> bool" where
  "less_eq_AccessLevel a b \<longleftrightarrow> level_u8 a \<le> level_u8 b"

definition less_AccessLevel :: "AccessLevel \<Rightarrow> AccessLevel \<Rightarrow> bool" where
  "less_AccessLevel a b \<longleftrightarrow> level_u8 a < level_u8 b"

instance
  by intro_classes (auto simp: less_eq_AccessLevel_def less_AccessLevel_def intro: level_u8_inj)

end

record IdentityToken =
  tk_subjectId :: string
  tk_issuer :: string
  tk_notBefore :: int
  tk_notAfter :: int
  tk_roles :: "string list"
  tk_signature :: "u8 list"

record AccessPolicy =
  ap_resourceId :: string
  ap_role :: string
  ap_level :: AccessLevel
  ap_allowRemote :: bool

record SubjectRecord =
  sr_roles :: "string list"
  sr_tokenExpiry :: int
  sr_revoked :: bool

record IdentityAccessManagement =
  ia_subjects :: "(string, SubjectRecord) umap"
  ia_policies :: "AccessPolicy list"
  ia_auditCallback :: "callback option"

type_synonym audit_calls = "(callback \<times> string \<times> string \<times> IamResult) list"

definition Iam_new :: IdentityAccessManagement where
  "Iam_new = \<lparr>ia_subjects = um_empty, ia_policies = [], ia_auditCallback = None\<rparr>"

section \<open>Operations\<close>

definition Token_IsValid :: "int \<Rightarrow> IdentityToken \<Rightarrow> bool" where
  "Token_IsValid nowUnix token =
     (if tk_subjectId token = [] then False
      else nowUnix \<ge> tk_notBefore token \<and> nowUnix \<le> tk_notAfter token)"

definition RegisterPolicy :: "AccessPolicy \<Rightarrow> IdentityAccessManagement \<Rightarrow> IdentityAccessManagement" where
  "RegisterPolicy policy iam = iam\<lparr>ia_policies := ia_policies iam @ [policy]\<rparr>"

definition mk_policy :: "string \<Rightarrow> string \<Rightarrow> AccessLevel \<Rightarrow> bool \<Rightarrow> AccessPolicy" where
  "mk_policy resourceId role level allowRemote =
     \<lparr>ap_resourceId = resourceId, ap_role = role, ap_level = level, ap_allowRemote = allowRemote\<rparr>"

definition Iam_Initialize :: "IdentityAccessManagement \<Rightarrow> bool \<times> IdentityAccessManagement" where
  "Iam_Initialize iam =
     (let iam = RegisterPolicy (mk_policy ''VehicleSignalService'' ''DriveAssist'' AccessLevel.kRead False) iam;
          iam = RegisterPolicy (mk_policy ''VehicleSignalService'' ''SafetyMonitor'' AccessLevel.kRead False) iam;
          iam = RegisterPolicy (mk_policy ''SafetyStatusService'' ''SafetyMonitor'' AccessLevel.kRead False) iam;
          iam = RegisterPolicy (mk_policy ''DiagnosticProxyService'' ''Diagnostic'' AccessLevel.kWrite True) iam;
          iam = RegisterPolicy (mk_policy ''OTATransferService'' ''OTAClient'' AccessLevel.kWrite True) iam;
          iam = RegisterPolicy (mk_policy ''HMICommandService'' ''HMIController'' AccessLevel.kWrite False) iam
      in (True, iam))"

definition VerifyIdentity :: "int \<Rightarrow> IdentityToken \<Rightarrow> u8 list list \<Rightarrow> IamResult" where
  "VerifyIdentity nowUnix token certChain =
     (if tk_subjectId token = [] then IamResult.kInvalidToken
      else if \<not> Token_IsValid nowUnix token then IamResult.kInvalidToken
      else IamResult.kGranted)"

text \<open>The two nested loops: true when the body's \<open>return kGranted\<close> is reached.\<close>

fun policy_loop :: "AccessPolicy list \<Rightarrow> string \<Rightarrow> string \<Rightarrow> AccessLevel \<Rightarrow> bool" where
  "policy_loop [] role resourceId level = False"
| "policy_loop (policy # policies) role resourceId level =
     (if ap_resourceId policy = resourceId \<and> ap_role policy = role
         \<and> level_u8 (ap_level policy) \<ge> level_u8 level
      then True else policy_loop policies role resourceId level)"

fun role_loop :: "string list \<Rightarrow> AccessPolicy list \<Rightarrow> string \<Rightarrow> AccessLevel \<Rightarrow> bool" where
  "role_loop [] policies resourceId level = False"
| "role_loop (role # roles) policies resourceId level =
     (if policy_loop policies role resourceId level then True
      else role_loop roles policies resourceId level)"

definition CheckAccess ::
  "int \<Rightarrow> IdentityToken \<Rightarrow> string \<Rightarrow> AccessLevel \<Rightarrow> IdentityAccessManagement \<Rightarrow>
   IamResult \<times> audit_calls" where
  "CheckAccess nowUnix token resourceId level iam =
     (if \<not> Token_IsValid nowUnix token then (IamResult.kInvalidToken, [])
      else if (case um_find (ia_subjects iam) (tk_subjectId token) of
                 Some rec \<Rightarrow> sr_revoked rec | None \<Rightarrow> False)
      then (IamResult.kDenied,
            invoke (ia_auditCallback iam) (tk_subjectId token, resourceId, IamResult.kDenied))
      else if role_loop (tk_roles token) (ia_policies iam) resourceId level
      then (IamResult.kGranted,
            invoke (ia_auditCallback iam) (tk_subjectId token, resourceId, IamResult.kGranted))
      else (IamResult.kDenied,
            invoke (ia_auditCallback iam) (tk_subjectId token, resourceId, IamResult.kDenied)))"

definition IssueRuntimeToken ::
  "int \<Rightarrow> string \<Rightarrow> string list \<Rightarrow> IdentityAccessManagement \<Rightarrow>
   IdentityToken \<times> IdentityAccessManagement" where
  "IssueRuntimeToken nowUnix appId roles iam =
     (let token = \<lparr>tk_subjectId = appId, tk_issuer = ''OEM-CA'', tk_notBefore = nowUnix,
                   tk_notAfter = nowUnix + 3600, tk_roles = roles, tk_signature = []\<rparr>;
          rec = \<lparr>sr_roles = roles, sr_tokenExpiry = tk_notAfter token, sr_revoked = False\<rparr>
      in (token, iam\<lparr>ia_subjects := um_put appId rec (ia_subjects iam)\<rparr>))"

definition RevokeToken :: "string \<Rightarrow> IdentityAccessManagement \<Rightarrow> IdentityAccessManagement" where
  "RevokeToken subjectId iam =
     (case um_find (ia_subjects iam) subjectId of
        None \<Rightarrow> iam
      | Some rec \<Rightarrow>
          iam\<lparr>ia_subjects := um_put subjectId (rec\<lparr>sr_revoked := True\<rparr>) (ia_subjects iam)\<rparr>)"

definition SetAuditCallback ::
  "callback option \<Rightarrow> IdentityAccessManagement \<Rightarrow> IdentityAccessManagement" where
  "SetAuditCallback cb iam = iam\<lparr>ia_auditCallback := cb\<rparr>"

definition GetRoles :: "string \<Rightarrow> IdentityAccessManagement \<Rightarrow> string list" where
  "GetRoles subjectId iam =
     (case um_find (ia_subjects iam) subjectId of Some rec \<Rightarrow> sr_roles rec | None \<Rightarrow> [])"

section \<open>The decision as a specification\<close>

definition allows :: "AccessPolicy \<Rightarrow> string \<Rightarrow> string \<Rightarrow> AccessLevel \<Rightarrow> bool" where
  "allows p role resourceId level \<longleftrightarrow>
     ap_resourceId p = resourceId \<and> ap_role p = role \<and> level \<le> ap_level p"

definition is_revoked :: "IdentityAccessManagement \<Rightarrow> string \<Rightarrow> bool" where
  "is_revoked iam s \<longleftrightarrow>
     (case um_find (ia_subjects iam) s of Some rec \<Rightarrow> sr_revoked rec | None \<Rightarrow> False)"

lemma policy_loop_iff:
  "policy_loop ps role res level \<longleftrightarrow> list_ex (\<lambda>p. allows p role res level) ps"
  by (induction ps) (auto simp: allows_def less_eq_AccessLevel_def)

lemma role_loop_iff:
  "role_loop rs ps res level \<longleftrightarrow> (\<exists>role \<in> set rs. \<exists>p \<in> set ps. allows p role res level)"
  by (induction rs) (auto simp: policy_loop_iff list_ex_iff)

lemma CheckAccess_result:
  "fst (CheckAccess now tok res level iam) =
     (if \<not> Token_IsValid now tok then IamResult.kInvalidToken
      else if \<not> is_revoked iam (tk_subjectId tok) \<and>
              (\<exists>role \<in> set (tk_roles tok). \<exists>p \<in> set (ia_policies iam). allows p role res level)
      then IamResult.kGranted else IamResult.kDenied)"
  by (simp add: CheckAccess_def is_revoked_def role_loop_iff)

text \<open>
  C5: access is granted exactly when the token names a subject and is within its validity, the
  subject is not revoked, and one of the token's roles has a policy for the resource at least at
  the requested level.
\<close>

theorem CheckAccess_granted_iff:
  "fst (CheckAccess now tok res level iam) = IamResult.kGranted \<longleftrightarrow>
     tk_subjectId tok \<noteq> [] \<and> tk_notBefore tok \<le> now \<and> now \<le> tk_notAfter tok \<and>
     \<not> is_revoked iam (tk_subjectId tok) \<and>
     list_ex (\<lambda>role. list_ex (\<lambda>p. allows p role res level) (ia_policies iam)) (tk_roles tok)"
  by (auto simp: CheckAccess_result Token_IsValid_def list_ex_iff)

lemma CheckAccess_level_mono:
  assumes "fst (CheckAccess now tok res level iam) = IamResult.kGranted" and "level' \<le> level"
  shows "fst (CheckAccess now tok res level' iam) = IamResult.kGranted"
  using assms by (auto simp: CheckAccess_result allows_def split: if_splits) (blast intro: order_trans)

text \<open>
  With an audit callback registered, every decision on a valid token is reported exactly
  once, with the subject, the resource and the decision taken; an attempt with an invalid or
  expired token is not reported at all.
\<close>

theorem CheckAccess_audited:
  "snd (CheckAccess now tok res level iam) =
     (if Token_IsValid now tok
      then invoke (ia_auditCallback iam)
             (tk_subjectId tok, res, fst (CheckAccess now tok res level iam))
      else [])"
  by (simp add: CheckAccess_def)

section \<open>Revocation over time\<close>

datatype iam_op =
    IamInitialize
  | IamPolicy AccessPolicy
  | IamIssue int string "string list"
  | IamRevoke string
  | IamSetAudit "callback option"

fun iam_step :: "IdentityAccessManagement \<Rightarrow> iam_op \<Rightarrow> IdentityAccessManagement" where
  "iam_step iam IamInitialize = snd (Iam_Initialize iam)"
| "iam_step iam (IamPolicy p) = RegisterPolicy p iam"
| "iam_step iam (IamIssue now s rs) = snd (IssueRuntimeToken now s rs iam)"
| "iam_step iam (IamRevoke s) = RevokeToken s iam"
| "iam_step iam (IamSetAudit cb) = SetAuditCallback cb iam"

fun issues_for :: "string \<Rightarrow> iam_op \<Rightarrow> bool" where
  "issues_for s (IamIssue now s' rs) \<longleftrightarrow> s' = s"
| "issues_for s _ \<longleftrightarrow> False"

lemmas iam_defs = Iam_Initialize_def RegisterPolicy_def IssueRuntimeToken_def RevokeToken_def
  SetAuditCallback_def

lemma is_revoked_step:
  "is_revoked iam s \<Longrightarrow> \<not> issues_for s op \<Longrightarrow> is_revoked (iam_step iam op) s"
  by (cases op) (auto simp: iam_defs is_revoked_def um_simps Let_def split: option.splits)

lemma is_revoked_run:
  "is_revoked iam s \<Longrightarrow> \<not> list_ex (issues_for s) ops \<Longrightarrow> is_revoked (run iam_step iam ops) s"
  by (induction ops arbitrary: iam) (simp_all add: is_revoked_step)

lemma is_revoked_RevokeToken:
  "is_revoked (RevokeToken s iam) s \<longleftrightarrow> um_find (ia_subjects iam) s \<noteq> None"
  by (auto simp: RevokeToken_def is_revoked_def um_simps split: option.splits)

lemma RevokeToken_unknown: "um_find (ia_subjects iam) s = None \<Longrightarrow> RevokeToken s iam = iam"
  by (simp add: RevokeToken_def)

text \<open>
  Once a subject that has been issued a token is revoked, none of its tokens is granted
  anything, whatever else happens, until a new token is issued for that subject.
\<close>

theorem revoked_until_reissued:
  assumes "um_find (ia_subjects iam) (tk_subjectId tok) \<noteq> None"
    and "\<not> list_ex (issues_for (tk_subjectId tok)) ops"
  shows "fst (CheckAccess now tok res level (run iam_step (RevokeToken (tk_subjectId tok) iam) ops))
    \<noteq> IamResult.kGranted"
  using is_revoked_run [OF _ assms(2), of "RevokeToken (tk_subjectId tok) iam"] assms(1)
  by (simp add: CheckAccess_result is_revoked_RevokeToken)

definition iam_demo :: "IdentityToken \<times> IdentityAccessManagement" where
  "iam_demo = IssueRuntimeToken 100 ''app'' [''DriveAssist''] (snd (Iam_Initialize Iam_new))"

theorem revoked_until_reissued_witness:
  "fst (CheckAccess 200 (fst iam_demo) ''VehicleSignalService'' AccessLevel.kRead (snd iam_demo))
     = IamResult.kGranted \<and>
   fst (CheckAccess 200 (fst iam_demo) ''VehicleSignalService'' AccessLevel.kRead
     (run iam_step (RevokeToken (tk_subjectId (fst iam_demo)) (snd iam_demo)) [IamInitialize, IamIssue 5 ''b'' []]))
     \<noteq> IamResult.kGranted"
proof -
  have "um_find (ia_subjects (snd iam_demo)) (tk_subjectId (fst iam_demo)) \<noteq> None"
    "\<not> list_ex (issues_for (tk_subjectId (fst iam_demo))) [IamInitialize, IamIssue 5 ''b'' []]"
    "fst (CheckAccess 200 (fst iam_demo) ''VehicleSignalService'' AccessLevel.kRead (snd iam_demo))
       = IamResult.kGranted"
    by code_simp+
  with revoked_until_reissued show ?thesis by blast
qed

text \<open>
  Revocation is a flag of the subject, not of a token, and a token carries its own roles.
  Issuing a subject a new token, even one without any role, makes the subject's earlier tokens
  good again with the roles they were issued with: the decision is the one for a manager that
  never revoked the subject.
\<close>

theorem reissue_reinstates_old_tokens:
  assumes "tk_subjectId tok = s"
  shows "fst (CheckAccess now tok res level (snd (IssueRuntimeToken t s roles' (RevokeToken s iam)))) =
    fst (CheckAccess now tok res level (snd (IssueRuntimeToken t s roles' iam)))"
    (is "?l = ?r")
proof -
  have "is_revoked (snd (IssueRuntimeToken t s roles' i)) s = False" for i
    by (simp add: IssueRuntimeToken_def Let_def is_revoked_def um_simps)
  moreover have "ia_policies (snd (IssueRuntimeToken t s roles' (RevokeToken s iam))) =
      ia_policies (snd (IssueRuntimeToken t s roles' iam))"
    by (simp add: IssueRuntimeToken_def Let_def RevokeToken_def split: option.split)
  ultimately show ?thesis using assms by (simp add: CheckAccess_result)
qed

theorem reissue_reinstates_old_tokens_witness:
  "fst (CheckAccess 200 (fst iam_demo) ''VehicleSignalService'' AccessLevel.kRead
     (snd (IssueRuntimeToken 150 ''app'' [] (RevokeToken ''app'' (snd iam_demo))))) = IamResult.kGranted"
proof -
  have "tk_subjectId (fst iam_demo) = ''app''"
    "fst (CheckAccess 200 (fst iam_demo) ''VehicleSignalService'' AccessLevel.kRead
       (snd (IssueRuntimeToken 150 ''app'' [] (snd iam_demo)))) = IamResult.kGranted"
    by code_simp+
  with reissue_reinstates_old_tokens [of "fst iam_demo" "''app''" 200] show ?thesis by simp
qed

text \<open>
  Neither the certificate chain, nor the signature, nor the issuer, nor the roles the manager
  recorded for the subject take part in a decision. A self-made token that names any subject the
  manager has not revoked, with the role of a registered policy, is verified and granted that
  policy's level.
\<close>

theorem self_made_token_accepted:
  assumes "p \<in> set (ia_policies iam)" and "s \<noteq> []" and "\<not> is_revoked iam s"
  shows "let forged = \<lparr>tk_subjectId = s, tk_issuer = issuer, tk_notBefore = now, tk_notAfter = now,
                       tk_roles = [ap_role p], tk_signature = sig\<rparr>
         in VerifyIdentity now forged chain = IamResult.kGranted \<and>
            fst (CheckAccess now forged (ap_resourceId p) (ap_level p) iam) = IamResult.kGranted"
  using assms
  by (auto simp: Let_def VerifyIdentity_def Token_IsValid_def CheckAccess_result allows_def)

theorem self_made_token_accepted_witness:
  "fst (CheckAccess 9 \<lparr>tk_subjectId = ''x'', tk_issuer = ''nobody'', tk_notBefore = 9,
      tk_notAfter = 9, tk_roles = [''OTAClient''], tk_signature = []\<rparr>
      ''OTATransferService'' AccessLevel.kWrite (snd (Iam_Initialize Iam_new))) = IamResult.kGranted"
proof -
  let ?p = "mk_policy ''OTATransferService'' ''OTAClient'' AccessLevel.kWrite True"
  have "?p \<in> set (ia_policies (snd (Iam_Initialize Iam_new)))"
    by (simp add: Iam_Initialize_def RegisterPolicy_def Iam_new_def Let_def)
  moreover have "\<not> is_revoked (snd (Iam_Initialize Iam_new)) ''x''" by code_simp
  ultimately show ?thesis
    using self_made_token_accepted [of ?p "snd (Iam_Initialize Iam_new)" "''x''" "''nobody''" 9 "[]" "[]"]
    by (simp add: mk_policy_def Let_def)
qed

end
