(* ===== verification/Tsync.thy ===== *)
theory Tsync
  imports Prelude
begin

text \<open>
  ara::tsync, time synchronization: include/ara/tsync/time_sync.h and src/ara/tsync/tsync.cpp.
  Time points, their order and difference, the four global time bases and the operations of
  providers and consumers on them, and the conversions from and to \<open>std::chrono\<close>. Signed
  64-bit arithmetic is exact on \<^typ>\<open>int\<close> with a fault on overflow; \<open>/\<close> and \<open>%\<close> truncate
  towards zero as in C++. A reading of \<open>system_clock\<close> is a number of its ticks, and \<open>tick\<close> is
  the length of a tick in nanoseconds, which the standard leaves to the implementation.
\<close>

section \<open>Data\<close>

text \<open>\<open>seconds\<close> and \<open>nanoseconds\<close>; the order is the code's \<open>operator<\<close>.\<close>

datatype TimePoint = TimePoint (tp_seconds: int) (tp_nanoseconds: u32)

definition TimePoint_less :: "TimePoint \<Rightarrow> TimePoint \<Rightarrow> bool" where
  "TimePoint_less this other =
     (if tp_seconds this \<noteq> tp_seconds other then tp_seconds this < tp_seconds other
      else tp_nanoseconds this < tp_nanoseconds other)"

definition TimePoint_less_eq :: "TimePoint \<Rightarrow> TimePoint \<Rightarrow> bool" where
  "TimePoint_less_eq this other \<longleftrightarrow> \<not> TimePoint_less other this"

lemmas TimePoint_order_defs = TimePoint_less_eq_def TimePoint_less_def

instantiation TimePoint :: linorder
begin

definition less_TimePoint :: "TimePoint \<Rightarrow> TimePoint \<Rightarrow> bool" where
  "less_TimePoint = TimePoint_less"

definition less_eq_TimePoint :: "TimePoint \<Rightarrow> TimePoint \<Rightarrow> bool" where
  "less_eq_TimePoint = TimePoint_less_eq"

instance
proof
  fix x y z :: TimePoint
  show "x < y \<longleftrightarrow> x \<le> y \<and> \<not> y \<le> x"
    by (auto simp: less_eq_TimePoint_def less_TimePoint_def TimePoint_order_defs split: if_splits)
  show "x \<le> x" by (simp add: less_eq_TimePoint_def less_TimePoint_def TimePoint_order_defs)
  show "x \<le> y \<Longrightarrow> y \<le> z \<Longrightarrow> x \<le> z"
    by (auto simp: less_eq_TimePoint_def less_TimePoint_def TimePoint_order_defs split: if_splits)
  show "x \<le> y \<Longrightarrow> y \<le> x \<Longrightarrow> x = y"
    by (cases x; cases y) (auto simp: less_eq_TimePoint_def less_TimePoint_def TimePoint_order_defs split: if_splits)
  show "x \<le> y \<or> y \<le> x"
    by (auto simp: less_eq_TimePoint_def less_TimePoint_def TimePoint_order_defs split: if_splits)
qed

end

record TimeDiff =
  td_nanosecondsTotal :: int

text \<open>The id is an enumeration over \<open>uint8_t\<close>; \<open>GetTimeBaseState\<close> guards against other values.\<close>

type_synonym TimeBaseId = u8

definition kSystemTime :: TimeBaseId where "kSystemTime = 0"
definition kVehicleTime :: TimeBaseId where "kVehicleTime = 1"
definition kGpsTime :: TimeBaseId where "kGpsTime = 2"
definition kLocalMono :: TimeBaseId where "kLocalMono = 3"

datatype SyncStatus = kSynchronized | kSyncing | kLostSync | kNotSupported

record TimeBaseState =
  tb_epochSeconds :: int
  tb_nanoSeconds :: u32
  tb_syncStatus :: SyncStatus

type_synonym time_bases = "TimeBaseState list"

section \<open>Arithmetic\<close>

definition ck64 :: "int \<Rightarrow> int outcome" where
  "ck64 x = (if int64_ok x then Inr x else Inl SignedOverflow)"

abbreviation G9 :: int where
  "G9 \<equiv> 1000000000"

text \<open>\<open>seconds * 1000000000LL + nanoseconds\<close>.\<close>

definition total_ns :: "int \<Rightarrow> u32 \<Rightarrow> int outcome" where
  "total_ns s n = obind (ck64 (s * G9)) (\<lambda>p. ck64 (p + uint n))"

definition split_ns :: "int \<Rightarrow> TimePoint" where
  "split_ns totalNs = TimePoint (totalNs sdiv G9) (word_of_int (totalNs smod G9))"

section \<open>The time bases\<close>

definition tb_index :: "TimeBaseId \<Rightarrow> nat" where
  "tb_index tid = (let idx = unat tid in if idx \<ge> 4 then 3 else idx)"

definition GetTimeBaseState :: "TimeBaseId \<Rightarrow> time_bases \<Rightarrow> TimeBaseState" where
  "GetTimeBaseState tid tbs = tbs ! tb_index tid"

definition TimeBaseInitializer :: "int \<Rightarrow> int \<Rightarrow> time_bases" where
  "TimeBaseInitializer tick now =
     (let epoch = (now * tick) sdiv G9;
          nanos = (now * tick) smod G9;
          tb = \<lparr>tb_epochSeconds = epoch, tb_nanoSeconds = word_of_int nanos,
                tb_syncStatus = SyncStatus.kSyncing\<rparr>;
          tbs = [tb, tb, tb, tb]
      in tbs[0 := (tbs ! 0)\<lparr>tb_syncStatus := SyncStatus.kSynchronized\<rparr>])"

definition Consumer_GetCurrentTime :: "TimeBaseId \<Rightarrow> int \<Rightarrow> int \<Rightarrow> time_bases \<Rightarrow> TimePoint" where
  "Consumer_GetCurrentTime tid tick now tbs = (let tb = GetTimeBaseState tid tbs in split_ns (now * tick))"

definition GetTimeDiff :: "TimePoint \<Rightarrow> TimePoint \<Rightarrow> TimeDiff outcome" where
  "GetTimeDiff t1 t2 =
     obind (total_ns (tp_seconds t1) (tp_nanoseconds t1)) (\<lambda>ns1.
     obind (total_ns (tp_seconds t2) (tp_nanoseconds t2)) (\<lambda>ns2.
     obind (ck64 (ns2 - ns1)) (\<lambda>d. Inr \<lparr>td_nanosecondsTotal = d\<rparr>)))"

definition GetSyncStatus :: "TimeBaseId \<Rightarrow> time_bases \<Rightarrow> SyncStatus" where
  "GetSyncStatus tid tbs = tb_syncStatus (GetTimeBaseState tid tbs)"

definition SetTime :: "TimeBaseId \<Rightarrow> TimePoint \<Rightarrow> time_bases \<Rightarrow> time_bases" where
  "SetTime tid timePoint tbs =
     tbs[tb_index tid := (GetTimeBaseState tid tbs)\<lparr>tb_epochSeconds := tp_seconds timePoint,
           tb_nanoSeconds := tp_nanoseconds timePoint,
           tb_syncStatus := SyncStatus.kSynchronized\<rparr>]"

definition SetSyncStatus :: "TimeBaseId \<Rightarrow> SyncStatus \<Rightarrow> time_bases \<Rightarrow> time_bases" where
  "SetSyncStatus tid status tbs =
     tbs[tb_index tid := (GetTimeBaseState tid tbs)\<lparr>tb_syncStatus := status\<rparr>]"

definition ApplyCorrection :: "TimeBaseId \<Rightarrow> int \<Rightarrow> time_bases \<Rightarrow> time_bases outcome" where
  "ApplyCorrection tid correctionNs tbs =
     (let tb = GetTimeBaseState tid tbs in
      obind (total_ns (tb_epochSeconds tb) (tb_nanoSeconds tb)) (\<lambda>curNs.
      obind (ck64 (curNs + correctionNs)) (\<lambda>curNs.
      Inr (tbs[tb_index tid := tb\<lparr>tb_epochSeconds := curNs sdiv G9,
                                  tb_nanoSeconds := word_of_int (curNs smod G9)\<rparr>]))))"

text \<open>
  The objects by which applications name a time base. \<open>TimeBaseState\<close> above is what they share.
\<close>

record SynchronizedTimeBaseConsumer =
  tc_timeBaseId :: TimeBaseId

definition Consumer_ctor :: "TimeBaseId \<Rightarrow> SynchronizedTimeBaseConsumer" where
  "Consumer_ctor timeBaseId = \<lparr>tc_timeBaseId = timeBaseId\<rparr>"

definition GetTimeBaseId :: "SynchronizedTimeBaseConsumer \<Rightarrow> TimeBaseId" where
  "GetTimeBaseId consumer = tc_timeBaseId consumer"

record SynchronizedTimeBaseProvider =
  tv_timeBaseId :: TimeBaseId

definition Provider_ctor :: "TimeBaseId \<Rightarrow> SynchronizedTimeBaseProvider" where
  "Provider_ctor timeBaseId = \<lparr>tv_timeBaseId = timeBaseId\<rparr>"

section \<open>Conversions\<close>

definition GetCurrentTime :: "int \<Rightarrow> int \<Rightarrow> time_bases \<Rightarrow> TimePoint" where
  "GetCurrentTime tick now tbs =
     (let consumer = Consumer_ctor kSystemTime
      in Consumer_GetCurrentTime (GetTimeBaseId consumer) tick now tbs)"

definition ToChronoTimePoint :: "int \<Rightarrow> TimePoint \<Rightarrow> int outcome" where
  "ToChronoTimePoint tick tp =
     obind (total_ns (tp_seconds tp) (tp_nanoseconds tp)) (\<lambda>dur. Inr (dur sdiv tick))"

definition FromChronoTimePoint :: "int \<Rightarrow> int \<Rightarrow> TimePoint outcome" where
  "FromChronoTimePoint tick tp = obind (ck64 (tp * tick)) (\<lambda>totalNs. Inr (split_ns totalNs))"

section \<open>Nanoseconds and time points\<close>

text \<open>A time point is normalised when its nanoseconds are those of a second.\<close>

definition normalised :: "TimePoint \<Rightarrow> bool" where
  "normalised tp \<longleftrightarrow> uint (tp_nanoseconds tp) < G9"

definition in_ns :: "TimePoint \<Rightarrow> int" where
  "in_ns tp = tp_seconds tp * G9 + uint (tp_nanoseconds tp)"

lemma uint_of_rest:
  assumes "0 \<le> x" and "x < G9" shows "uint (word_of_int x :: u32) = x"
  using assms by (simp add: uint_word_of_int_eq take_bit_int_eq_self)

lemma uint_of_negative:
  fixes x :: int
  assumes "0 < x" and "x < G9" shows "uint (word_of_int (- x) :: u32) = 2 ^ 32 - x"
proof -
  have "(- x) mod 2 ^ 32 = 2 ^ 32 - x mod 2 ^ 32"
    using assms by (subst zmod_zminus1_eq_if) simp
  then show ?thesis using assms by (simp only: uint_word_of_int) simp
qed

lemma not_normalised_of_negative:
  "0 < x \<Longrightarrow> x < G9 \<Longrightarrow> \<not> uint (word_of_int (- x) :: u32) < G9"
  using uint_of_negative [of x] by simp

lemma split_ns_nonneg:
  assumes "0 \<le> x"
  shows "split_ns x = TimePoint (x div G9) (word_of_int (x mod G9))"
    and "normalised (split_ns x)" and "in_ns (split_ns x) = x"
  using assms uint_of_rest [of "x mod G9"]
  by (simp_all add: split_ns_def sdiv_nonneg smod_nonneg normalised_def in_ns_def)

lemma split_in_ns:
  assumes "normalised tp" and "0 \<le> tp_seconds tp"
  shows "split_ns (in_ns tp) = tp"
proof -
  have "0 \<le> uint (tp_nanoseconds tp)" "uint (tp_nanoseconds tp) < G9"
    using assms(1) by (simp_all add: normalised_def)
  moreover from this have "0 \<le> in_ns tp" using assms(2) by (simp add: in_ns_def)
  ultimately show ?thesis
    by (cases tp) (simp add: split_ns_nonneg(1) in_ns_def)
qed

lemma lex_arith:
  assumes "0 \<le> (a::int)" "a < G9" "0 \<le> b" "b < G9"
  shows "s * G9 + a < t * G9 + b \<longleftrightarrow> s < t \<or> s = t \<and> a < b"
  using assms by linarith

lemma in_ns_less_iff:
  assumes "normalised t1" and "normalised t2"
  shows "in_ns t1 < in_ns t2 \<longleftrightarrow> t1 < t2"
proof -
  have "0 \<le> uint (tp_nanoseconds t1)" "0 \<le> uint (tp_nanoseconds t2)" by simp_all
  with assms lex_arith show ?thesis
    by (auto simp: in_ns_def normalised_def less_TimePoint_def TimePoint_less_def word_less_def)
qed

lemma ck64_Inr [outcome_simps]: "ck64 x = Inr y \<longleftrightarrow> int64_ok x \<and> y = x"
  by (auto simp: ck64_def)

lemma total_ns_Inr [outcome_simps]:
  "total_ns s n = Inr x \<longleftrightarrow>
     int64_ok (s * G9) \<and> int64_ok (s * G9 + uint n) \<and> x = s * G9 + uint n"
  by (auto simp: total_ns_def outcome_simps)


definition in_range :: "TimePoint \<Rightarrow> bool" where
  "in_range tp \<longleftrightarrow> int64_ok (tp_seconds tp * G9) \<and> int64_ok (in_ns tp)"

lemma total_ns_in_range:
  "total_ns (tp_seconds tp) (tp_nanoseconds tp) = Inr x \<longleftrightarrow> in_range tp \<and> x = in_ns tp"
  by (auto simp: outcome_simps in_range_def in_ns_def)

lemma GetTimeDiff_Inr:
  "GetTimeDiff t1 t2 = Inr d \<longleftrightarrow> in_range t1 \<and> in_range t2 \<and>
     int64_ok (td_nanosecondsTotal d) \<and> td_nanosecondsTotal d = in_ns t2 - in_ns t1"
  by (cases d) (auto simp: GetTimeDiff_def obind_eq_Inr total_ns_in_range ck64_Inr)

section \<open>What time points promise\<close>

text \<open>
  Whenever \<open>GetTimeDiff\<close> does not overflow, the difference of two normalised time points
  is positive exactly when the first is earlier in the order of \<open>operator<\<close>, and zero exactly
  when they are equal: the nanosecond scale and the comparison agree.
\<close>

theorem GetTimeDiff_sign:
  assumes "normalised t1" and "normalised t2" and "GetTimeDiff t1 t2 = Inr diff"
  shows "sgn (td_nanosecondsTotal diff) = (if t1 < t2 then 1 else if t1 = t2 then 0 else - 1)"
proof -
  have d: "td_nanosecondsTotal diff = in_ns t2 - in_ns t1" using assms(3) by (simp add: GetTimeDiff_Inr)
  consider "t1 < t2" | "t1 = t2" | "t2 < t1" by fastforce
  then show ?thesis
  proof cases
    case 1
    then have "in_ns t1 < in_ns t2" using in_ns_less_iff assms by simp
    with 1 d show ?thesis by simp
  next
    case 2
    with d show ?thesis by simp
  next
    case 3
    then have "in_ns t2 < in_ns t1" using in_ns_less_iff assms by simp
    moreover have "\<not> t1 < t2" "t1 \<noteq> t2" using 3 by auto
    ultimately show ?thesis using d by (simp add: sgn_if)
  qed
qed

theorem GetTimeDiff_sign_witness:
  "GetTimeDiff (TimePoint 7 999999999) (TimePoint 8 1) = Inr \<lparr>td_nanosecondsTotal = 2\<rparr> \<and>
   sgn (2 :: int) = (if TimePoint 7 999999999 < TimePoint 8 1 then 1
                   else if TimePoint 7 999999999 = TimePoint 8 1 then 0 else - 1)"
proof -
  have "normalised (TimePoint 7 999999999)" "normalised (TimePoint 8 1)"
    "GetTimeDiff (TimePoint 7 999999999) (TimePoint 8 1) = Inr \<lparr>td_nanosecondsTotal = 2\<rparr>"
    by code_simp+
  with GetTimeDiff_sign [OF this] show ?thesis by simp
qed

text \<open>
  A time point at or after the epoch converts to a \<open>system_clock\<close> point and back without
  loss, on any clock whose ticks divide the second and the time point's nanoseconds.
\<close>

theorem chrono_roundtrip:
  assumes "normalised tp" and "0 \<le> tp_seconds tp" and "in_range tp"
    and "0 < tick" and "tick dvd G9" and "tick dvd uint (tp_nanoseconds tp)"
  shows "obind (ToChronoTimePoint tick tp) (FromChronoTimePoint tick) = Inr tp"
proof -
  have "0 \<le> in_ns tp" using assms(2) by (simp add: in_ns_def)
  moreover have "tick dvd in_ns tp" using assms(5,6) by (simp add: in_ns_def dvd_mult)
  ultimately have "in_ns tp sdiv tick * tick = in_ns tp"
    using assms(4) by (simp add: sdiv_nonneg)
  moreover have "total_ns (tp_seconds tp) (tp_nanoseconds tp) = Inr (in_ns tp)"
    using assms(3) by (simp add: total_ns_in_range)
  ultimately show ?thesis
    using assms(3) split_in_ns [OF assms(1,2)]
    by (simp add: ToChronoTimePoint_def FromChronoTimePoint_def ck64_def in_range_def)
qed

theorem chrono_roundtrip_witness:
  "obind (ToChronoTimePoint 100 (TimePoint 1700000000 123456700)) (FromChronoTimePoint 100)
     = Inr (TimePoint 1700000000 123456700)"
proof -
  have "normalised (TimePoint 1700000000 123456700)" "in_range (TimePoint 1700000000 123456700)"
    by code_simp+
  moreover have "(100::int) dvd G9" "(100::int) dvd uint (123456700 :: u32)" by simp_all
  ultimately show ?thesis
    using chrono_roundtrip [of "TimePoint 1700000000 123456700" 100] by simp
qed

section \<open>What the time bases promise\<close>

definition tb_time :: "TimeBaseId \<Rightarrow> time_bases \<Rightarrow> TimePoint" where
  "tb_time tid tbs = TimePoint (tb_epochSeconds (GetTimeBaseState tid tbs)) (tb_nanoSeconds (GetTimeBaseState tid tbs))"

lemma tb_index_less: "tb_index tid < 4"
  by (simp add: tb_index_def Let_def)

lemma ApplyCorrection_Inr:
  "ApplyCorrection tid c tbs = Inr tbs' \<longleftrightarrow>
     in_range (tb_time tid tbs) \<and> int64_ok (in_ns (tb_time tid tbs) + c) \<and>
     tbs' = tbs[tb_index tid := (GetTimeBaseState tid tbs)
        \<lparr>tb_epochSeconds := tp_seconds (split_ns (in_ns (tb_time tid tbs) + c)),
         tb_nanoSeconds := tp_nanoseconds (split_ns (in_ns (tb_time tid tbs) + c))\<rparr>]"
  using total_ns_in_range [of "tb_time tid tbs"]
  by (auto simp: ApplyCorrection_def Let_def obind_eq_Inr ck64_Inr tb_time_def split_ns_def)

lemma ApplyCorrection_time:
  assumes "ApplyCorrection tid c tbs = Inr tbs'" and "length tbs = 4"
  shows "tb_time tid tbs' = split_ns (in_ns (tb_time tid tbs) + c)"
  using assms tb_index_less [of tid]
  by (simp add: ApplyCorrection_Inr) (simp add: tb_time_def GetTimeBaseState_def)

text \<open>
  C34: a correction moves a time base by exactly the given number of nanoseconds and leaves it
  normalised, provided the corrected time is not before the epoch; the other time bases do not
  move.
\<close>

theorem ApplyCorrection_exact:
  assumes "ApplyCorrection tid c tbs = Inr tbs'" and "length tbs = 4"
    and "0 \<le> in_ns (tb_time tid tbs) + c"
  shows "in_ns (tb_time tid' tbs') =
      (if tb_index tid' = tb_index tid then in_ns (tb_time tid tbs) + c else in_ns (tb_time tid' tbs)) \<and>
    normalised (tb_time tid tbs')"
proof -
  have "tb_time tid tbs' = split_ns (in_ns (tb_time tid tbs) + c)"
    by (rule ApplyCorrection_time [OF assms(1,2)])
  moreover have "tb_time tid' tbs' = tb_time tid' tbs" if "tb_index tid' \<noteq> tb_index tid"
    using assms(1) that by (simp add: ApplyCorrection_Inr) (simp add: tb_time_def GetTimeBaseState_def)
  moreover have "tb_time tid' tbs' = tb_time tid tbs'" if "tb_index tid' = tb_index tid"
    using that by (simp add: tb_time_def GetTimeBaseState_def)
  ultimately show ?thesis using split_ns_nonneg [OF assms(3)] by auto
qed

theorem ApplyCorrection_exact_witness:
  "let tbs = TimeBaseInitializer 1 5000000001;
       tbs' = tbs[1 := (tbs ! 1)\<lparr>tb_epochSeconds := 4, tb_nanoSeconds := 999999999\<rparr>]
   in ApplyCorrection kVehicleTime (- 2) tbs = Inr tbs' \<and>
      in_ns (tb_time kVehicleTime tbs') = 4999999999 \<and> in_ns (tb_time kGpsTime tbs') = 5000000001"
proof -
  let ?tbs = "TimeBaseInitializer 1 5000000001"
  let ?tbs' = "?tbs[1 := (?tbs ! 1)\<lparr>tb_epochSeconds := 4, tb_nanoSeconds := 999999999\<rparr>]"
  have h: "ApplyCorrection kVehicleTime (- 2) ?tbs = Inr ?tbs'" "length ?tbs = 4"
    "in_ns (tb_time kVehicleTime ?tbs) = 5000000001" "in_ns (tb_time kGpsTime ?tbs) = 5000000001"
    "tb_index kGpsTime \<noteq> tb_index kVehicleTime"
    by code_simp+
  with ApplyCorrection_exact [OF h(1,2), of kVehicleTime] ApplyCorrection_exact [OF h(1,2), of kGpsTime]
  show ?thesis by (simp add: Let_def)
qed

text \<open>
  A correction that moves a time base before the epoch, to a time that is not a whole second,
  leaves it with a number of nanoseconds beyond a second, because the negative remainder is cast
  to \<open>uint32_t\<close>: the stored time is then not the corrected time.
\<close>

theorem ApplyCorrection_before_epoch:
  assumes "ApplyCorrection tid c tbs = Inr tbs'" and "length tbs = 4"
    and "in_ns (tb_time tid tbs) + c < 0" and "\<not> G9 dvd in_ns (tb_time tid tbs) + c"
  shows "\<not> normalised (tb_time tid tbs') \<and>
    in_ns (tb_time tid tbs') = in_ns (tb_time tid tbs) + c + 2 ^ 32"
proof -
  let ?x = "in_ns (tb_time tid tbs) + c"
  have t: "tb_time tid tbs' = split_ns ?x" by (rule ApplyCorrection_time [OF assms(1,2)])
  have r: "?x smod G9 = - (- ?x mod G9)" "?x sdiv G9 = - (- ?x div G9)"
    using assms(3) by (simp_all add: signed_modulo_int_def signed_divide_int_def sgn_if)
  have m: "0 < - ?x mod G9" "- ?x mod G9 < G9"
  proof -
    have "- ?x mod G9 \<noteq> 0" using assms(4) by (metis dvd_eq_mod_eq_0 dvd_minus_iff)
    then show "0 < - ?x mod G9" using pos_mod_sign [of G9 "- ?x"] by linarith
  qed simp
  have u: "uint (word_of_int (- (- ?x mod G9)) :: u32) = 2 ^ 32 - (- ?x mod G9)"
    using m by (rule uint_of_negative)
  have q: "- ?x = - ?x div G9 * G9 + - ?x mod G9" by simp
  have "in_ns (split_ns ?x) = - (- ?x div G9) * G9 + (2 ^ 32 - (- ?x mod G9))"
    by (simp only: in_ns_def [of "split_ns _"]) (simp only: split_ns_def TimePoint.sel r u)
  then have "in_ns (split_ns ?x) = ?x + 2 ^ 32" using q by linarith
  moreover have "\<not> normalised (split_ns ?x)"
    unfolding normalised_def split_ns_def TimePoint.sel r
    by (rule not_normalised_of_negative [OF m])
  ultimately show ?thesis using t by simp
qed

theorem ApplyCorrection_before_epoch_witness:
  "let tbs = TimeBaseInitializer 1 5; tbs' = tbs[1 := (tbs ! 1)\<lparr>tb_nanoSeconds := 4294967294\<rparr>]
   in ApplyCorrection kVehicleTime (- 7) tbs = Inr tbs' \<and> \<not> normalised (tb_time kVehicleTime tbs')"
proof -
  let ?tbs = "TimeBaseInitializer 1 5"
  let ?tbs' = "?tbs[1 := (?tbs ! 1)\<lparr>tb_nanoSeconds := 4294967294\<rparr>]"
  have h: "ApplyCorrection kVehicleTime (- 7) ?tbs = Inr ?tbs'" "length ?tbs = 4"
    "in_ns (tb_time kVehicleTime ?tbs) + - 7 = - 2"
    by code_simp+
  moreover have "\<not> G9 dvd (- 2 :: int)" by simp
  ultimately show ?thesis
    using ApplyCorrection_before_epoch [OF h(1,2)] by (simp add: Let_def)
qed

section \<open>Consumers\<close>

text \<open>The calls of providers; a correction that would overflow is not made.\<close>

datatype tb_op = TbSet TimeBaseId TimePoint | TbStatus TimeBaseId SyncStatus | TbCorrect TimeBaseId int

fun tb_step :: "time_bases \<Rightarrow> tb_op \<Rightarrow> time_bases" where
  "tb_step tbs (TbSet tid t) = SetTime tid t tbs"
| "tb_step tbs (TbStatus tid s) = SetSyncStatus tid s tbs"
| "tb_step tbs (TbCorrect tid c) = (case ApplyCorrection tid c tbs of Inr tbs' \<Rightarrow> tbs' | Inl _ \<Rightarrow> tbs)"

text \<open>
  A consumer's time is the system clock's whatever its time base: no sequence of provider calls
  shows in the time a consumer reads.
\<close>

lemma consumer_time_ignores_provider:
  "Consumer_GetCurrentTime tid tick now (run tb_step tbs ops) = GetCurrentTime tick now tbs"
  by (simp add: Consumer_GetCurrentTime_def GetCurrentTime_def Let_def)

end
