(* ===== verification/Crypto.thy ===== *)
theory Crypto
  imports Prelude
begin

text \<open>
  ara::crypto: include/ara/crypto/crypto_provider.h and src/ara/crypto/crypto.cpp, the simulated
  cipher, message authentication code, hash and key store, as they are written. \<open>size_t\<close> has 64
  bits. The random engine is a parameter: \<open>dist\<close> draws a number from its state, as
  \<open>uniform_int_distribution<uint16_t>(0, 255)\<close> does. An output argument of a C++ call is an
  argument and a result here, so that the value it keeps on an error is visible.
\<close>

section \<open>Data\<close>

datatype AlgorithmId =
    kAES128_CBC | kAES256_CBC | kAES128_GCM | kAES256_GCM
  | kRSA2048_OAEP | kECDSA_P256 | kECDH_P256
  | kSHA256 | kSHA384 | kHMAC_SHA256 | kCTR_DRBG

text \<open>Usages are combined with \<open>|\<close>, so a usage is any 32-bit value.\<close>

type_synonym KeyUsage = u32

definition kEncrypt :: KeyUsage where "kEncrypt = 0x01"
definition kDecrypt :: KeyUsage where "kDecrypt = 0x02"
definition kSign :: KeyUsage where "kSign = 0x04"
definition kVerify :: KeyUsage where "kVerify = 0x08"
definition kKeyDerivation :: KeyUsage where "kKeyDerivation = 0x10"
definition kWrap :: KeyUsage where "kWrap = 0x20"
definition kUnwrap :: KeyUsage where "kUnwrap = 0x40"

definition KeyUsage_or :: "KeyUsage \<Rightarrow> KeyUsage \<Rightarrow> KeyUsage" where
  "KeyUsage_or a b = a OR b"

datatype KeySlotType = kHsm | kProtectedRam | kVolatile

datatype CryptoResult =
    kSuccess | kInvalidKey | kInvalidAlgorithm | kInvalidInput | kBufferTooSmall
  | kAuthFailed | kKeyNotFound | kHsmError | kError

type_synonym ByteVector = "u8 list"
type_synonym KeyId = u32

record CryptoKey =
  ck_id :: KeyId
  ck_algId :: AlgorithmId
  ck_usage :: KeyUsage
  ck_slot :: KeySlotType
  ck_valid :: bool

definition CryptoKey_default :: CryptoKey where
  "CryptoKey_default = \<lparr>ck_id = 0, ck_algId = AlgorithmId.kAES256_GCM, ck_usage = kEncrypt,
     ck_slot = KeySlotType.kVolatile, ck_valid = False\<rparr>"

definition CryptoKey_ctor :: "KeyId \<Rightarrow> AlgorithmId \<Rightarrow> KeyUsage \<Rightarrow> KeySlotType \<Rightarrow> CryptoKey" where
  "CryptoKey_ctor i algId usage slot =
     \<lparr>ck_id = i, ck_algId = algId, ck_usage = usage, ck_slot = slot, ck_valid = True\<rparr>"

definition Key_IsValid :: "CryptoKey \<Rightarrow> bool" where
  "Key_IsValid key = ck_valid key"

definition GetId :: "CryptoKey \<Rightarrow> KeyId" where
  "GetId key = ck_id key"

definition GetAlgorithmId :: "CryptoKey \<Rightarrow> AlgorithmId" where
  "GetAlgorithmId key = ck_algId key"

definition GetSlotType :: "CryptoKey \<Rightarrow> KeySlotType" where
  "GetSlotType key = ck_slot key"

record KeyRecord =
  kr_id :: KeyId
  kr_algId :: AlgorithmId
  kr_usage :: KeyUsage
  kr_slot :: KeySlotType
  kr_material :: ByteVector

record KeyStore =
  ks_keyStore :: "(KeyId, KeyRecord) umap"
  ks_nextKeyId :: KeyId

definition KeyStore_init :: KeyStore where
  "KeyStore_init = \<lparr>ks_keyStore = um_empty, ks_nextKeyId = 1\<rparr>"

section \<open>The cipher\<close>

text \<open>The object behind \<open>SymmetricCipher\<close>; its algorithm is stored and never read.\<close>

record SymmetricCipherImpl =
  sy_algId :: AlgorithmId

definition SymmetricCipherImpl_ctor :: "AlgorithmId \<Rightarrow> SymmetricCipherImpl" where
  "SymmetricCipherImpl_ctor algId = \<lparr>sy_algId = algId\<rparr>"

definition CreateSymmetricCipher :: "AlgorithmId \<Rightarrow> SymmetricCipherImpl" where
  "CreateSymmetricCipher algId = SymmetricCipherImpl_ctor algId"

text \<open>The loop of both directions; \<open>keyMat.size()\<close> and \<open>iv.size()\<close> are divisors in it.\<close>

definition xor_stream :: "ByteVector \<Rightarrow> ByteVector \<Rightarrow> ByteVector \<Rightarrow> ByteVector" where
  "xor_stream keyMat iv d =
     map (\<lambda>i. (d ! i XOR keyMat ! (i mod length keyMat)) XOR iv ! (i mod length iv)) [0..<length d]"

definition Encrypt ::
  "CryptoKey \<Rightarrow> ByteVector \<Rightarrow> ByteVector \<Rightarrow> ByteVector \<Rightarrow> ByteVector \<Rightarrow> KeyStore \<Rightarrow>
   (CryptoResult \<times> ByteVector) outcome" where
  "Encrypt key iv plaintext aad ciphertext ks =
     (if \<not> ck_valid key then Inr (CryptoResult.kInvalidKey, ciphertext)
      else if iv = [] \<or> plaintext = [] then Inr (CryptoResult.kInvalidInput, ciphertext)
      else case um_find (ks_keyStore ks) (ck_id key) of
        None \<Rightarrow> Inr (CryptoResult.kKeyNotFound, ciphertext)
      | Some rec \<Rightarrow>
          let keyMat = kr_material rec in
          if keyMat = [] then Inl DivByZero
          else Inr (CryptoResult.kSuccess, xor_stream keyMat iv plaintext @ replicate 16 0xAB))"

definition Decrypt ::
  "CryptoKey \<Rightarrow> ByteVector \<Rightarrow> ByteVector \<Rightarrow> ByteVector \<Rightarrow> ByteVector \<Rightarrow> KeyStore \<Rightarrow>
   (CryptoResult \<times> ByteVector) outcome" where
  "Decrypt key iv ciphertext aad plaintext ks =
     (if \<not> ck_valid key then Inr (CryptoResult.kInvalidKey, plaintext)
      else if iv = [] \<or> length ciphertext < 16 then Inr (CryptoResult.kInvalidInput, plaintext)
      else if list_ex (\<lambda>i. ciphertext ! i \<noteq> 0xAB) [length ciphertext - 16..<length ciphertext]
      then Inr (CryptoResult.kAuthFailed, plaintext)
      else case um_find (ks_keyStore ks) (ck_id key) of
        None \<Rightarrow> Inr (CryptoResult.kKeyNotFound, plaintext)
      | Some rec \<Rightarrow>
          let keyMat = kr_material rec; dataLen = length ciphertext - 16 in
          if keyMat = [] \<and> dataLen > 0 then Inl DivByZero
          else Inr (CryptoResult.kSuccess, xor_stream keyMat iv (take dataLen ciphertext)))"

section \<open>Hash and message authentication code\<close>

fun poly_feed :: "u64 \<Rightarrow> u64 \<Rightarrow> ByteVector \<Rightarrow> u64" where
  "poly_feed m h [] = h"
| "poly_feed m h (b # bs) = poly_feed m (h * m + ucast b) bs"

definition lcg :: "u64 \<Rightarrow> u64" where
  "lcg h = h * 6364136223846793005 + 1442695040888963407"

definition byte_at :: "nat \<Rightarrow> u64 \<Rightarrow> u8" where
  "byte_at k h = ucast (drop_bit k h AND 0xFF)"

text \<open>The output loops, \<open>n\<close> rounds of them.\<close>

fun mac_rounds :: "nat \<Rightarrow> u64 \<Rightarrow> ByteVector" where
  "mac_rounds 0 h = []"
| "mac_rounds (Suc n) h =
     [byte_at 56 h, byte_at 48 h, byte_at 40 h, byte_at 32 h] @ mac_rounds n (lcg h)"

fun digest_rounds :: "nat \<Rightarrow> u64 \<Rightarrow> ByteVector" where
  "digest_rounds 0 h = []"
| "digest_rounds (Suc n) h =
     [byte_at 56 h, byte_at 48 h, byte_at 40 h, byte_at 32 h,
      byte_at 24 h, byte_at 16 h, byte_at 8 h, byte_at 0 h] @ digest_rounds n (lcg h)"

definition Mac_Generate ::
  "CryptoKey \<Rightarrow> ByteVector \<Rightarrow> ByteVector \<Rightarrow> KeyStore \<Rightarrow> CryptoResult \<times> ByteVector" where
  "Mac_Generate key d mac ks =
     (if \<not> ck_valid key then (CryptoResult.kInvalidKey, mac)
      else case um_find (ks_keyStore ks) (ck_id key) of
        None \<Rightarrow> (CryptoResult.kKeyNotFound, mac)
      | Some rec \<Rightarrow>
          let h = poly_feed 31 0x12345678 d;
              h = poly_feed 37 h (kr_material rec)
          in (CryptoResult.kSuccess, mac_rounds 8 h))"

definition Mac_Verify :: "CryptoKey \<Rightarrow> ByteVector \<Rightarrow> ByteVector \<Rightarrow> KeyStore \<Rightarrow> CryptoResult" where
  "Mac_Verify key d expectedMac ks =
     (let (r, computedMac) = Mac_Generate key d [] ks in
      if r \<noteq> CryptoResult.kSuccess then r
      else if computedMac \<noteq> expectedMac then CryptoResult.kAuthFailed
      else CryptoResult.kSuccess)"

definition Hash :: "AlgorithmId \<Rightarrow> ByteVector \<Rightarrow> CryptoResult \<times> ByteVector" where
  "Hash algId d = (CryptoResult.kSuccess, digest_rounds 4 (poly_feed 31 0xDEADBEEF d))"

definition VerifySignature :: "CryptoKey \<Rightarrow> ByteVector \<Rightarrow> ByteVector \<Rightarrow> CryptoResult" where
  "VerifySignature publicKey d signature =
     (if \<not> ck_valid publicKey then CryptoResult.kInvalidKey else CryptoResult.kSuccess)"

section \<open>Keys\<close>

definition LoadKey :: "KeyId \<Rightarrow> AlgorithmId \<Rightarrow> KeyUsage \<Rightarrow> KeyStore \<Rightarrow> CryptoKey" where
  "LoadKey keyId algId usage ks =
     (case um_find (ks_keyStore ks) keyId of
        Some rec \<Rightarrow> CryptoKey_ctor keyId algId usage (kr_slot rec)
      | None \<Rightarrow> CryptoKey_default)"

fun draw_bytes :: "('g \<Rightarrow> u16 \<times> 'g) \<Rightarrow> nat \<Rightarrow> 'g \<Rightarrow> ByteVector \<times> 'g" where
  "draw_bytes dist 0 rng = ([], rng)"
| "draw_bytes dist (Suc n) rng =
     (let (x, rng') = dist rng; (bs, rng'') = draw_bytes dist n rng' in (ucast x # bs, rng''))"

text \<open>\<open>emplace\<close> keeps the entry that is there.\<close>

definition GenerateKey ::
  "('g \<Rightarrow> u16 \<times> 'g) \<Rightarrow> AlgorithmId \<Rightarrow> KeyUsage \<Rightarrow> KeySlotType \<Rightarrow> KeyStore \<Rightarrow> 'g \<Rightarrow>
   CryptoKey \<times> KeyStore \<times> 'g" where
  "GenerateKey dist algId usage slot ks rng =
     (let keyLen = (if algId = AlgorithmId.kAES128_CBC \<or> algId = AlgorithmId.kAES128_GCM
                    then 16 else 32);
          (material, rng) = draw_bytes dist keyLen rng;
          newId = ks_nextKeyId ks;
          rec = \<lparr>kr_id = newId, kr_algId = algId, kr_usage = usage, kr_slot = slot,
                 kr_material = material\<rparr>;
          store = (case um_find (ks_keyStore ks) newId of
                     None \<Rightarrow> um_put newId rec (ks_keyStore ks) | Some _ \<Rightarrow> ks_keyStore ks)
      in (CryptoKey_ctor newId algId usage slot,
          ks\<lparr>ks_keyStore := store, ks_nextKeyId := newId + 1\<rparr>, rng))"

definition GenerateRandom :: "('g \<Rightarrow> u16 \<times> 'g) \<Rightarrow> nat \<Rightarrow> 'g \<Rightarrow> CryptoResult \<times> ByteVector \<times> 'g" where
  "GenerateRandom dist n rng = (CryptoResult.kSuccess, draw_bytes dist n rng)"

section \<open>Polynomial hashing\<close>

text \<open>What a multiplier with an inverse modulo \<open>2^64\<close> gives.\<close>

locale unit_multiplier =
  fixes m m' :: u64
  assumes unit: "m * m' = 1"
begin

lemma cancel: "x * m = y * m \<longleftrightarrow> x = y"
proof
  assume "x * m = y * m"
  then have "x * m * m' = y * m * m'" by simp
  then show "x = y" by (simp add: mult.assoc unit)
qed simp

lemma feed_inject: "poly_feed m h bs = poly_feed m h' bs \<longleftrightarrow> h = h'"
  by (induction bs arbitrary: h h') (simp_all add: cancel)

lemma feed_append: "poly_feed m h (xs @ ys) = poly_feed m (poly_feed m h xs) ys"
  by (induction xs arbitrary: h) simp_all

lemma feed_detects_byte:
  assumes "b \<noteq> b'"
  shows "poly_feed m h (xs @ b # ys) \<noteq> poly_feed m h (xs @ b' # ys)"
  using assms by (simp add: feed_append feed_inject)

lemma feed_collision:
  assumes "ucast a * m + ucast b = ucast a' * m + (ucast b' :: u64)"
  shows "poly_feed m h (xs @ [a, b] @ ys) = poly_feed m h (xs @ [a', b'] @ ys)"
proof -
  have split: "(g * m + x) * m + y = g * m * m + (x * m + y)" for g x y :: u64
    by (simp only: distrib_right add.assoc)
  have "poly_feed m g ([a, b] @ ys) = poly_feed m g ([a', b'] @ ys)" for g
    by (simp only: append_Cons append_Nil poly_feed.simps split assms)
  then show ?thesis by (simp only: feed_append)
qed

end

interpretation mult31: unit_multiplier 31 17256631552825064415
  by unfold_locales simp

interpretation mult37: unit_multiplier 37 1495681951922396077
  by unfold_locales simp


section \<open>What the hash promises\<close>

lemma byte_at_bit: "bit (byte_at k h) i \<longleftrightarrow> i < 8 \<and> bit h (k + i)"
proof -
  have "byte_at k h = ucast (take_bit 8 (drop_bit k h))"
    by (simp add: byte_at_def take_bit_eq_mask mask_eq_exp_minus_1)
  then show ?thesis by (auto simp: bit_simps)
qed

lemma bytes_determine:
  assumes "\<forall>k \<in> {56, 48, 40, 32, 24, 16, 8, 0}. byte_at k h = byte_at k h'"
  shows "h = h'"
proof (rule bit_word_eqI)
  fix n assume n: "n < LENGTH(64)"
  have b: "bit h (k + i) = bit h' (k + i)" if "k \<in> {56, 48, 40, 32, 24, 16, 8, 0}" "i < 8" for k i
    using assms that byte_at_bit [of k h i] byte_at_bit [of k h' i] by auto
  have "n div 8 * 8 \<in> {56, 48, 40, 32, 24, 16, 8, 0}"
  proof -
    have "n div 8 < 8" using n by simp
    then have "n div 8 \<in> {0, 1, 2, 3, 4, 5, 6, 7}" by auto
    then show ?thesis by auto
  qed
  from b [OF this, of "n mod 8"] show "bit h n = bit h' n" by simp
qed

lemma digest_rounds_inject:
  "digest_rounds (Suc n) h = digest_rounds (Suc n) h' \<Longrightarrow> h = h'"
  by (rule bytes_determine) simp

text \<open>
  The digest detects every substitution of a single byte: two inputs that differ in exactly
  one byte have different digests.
\<close>

theorem Hash_detects_byte:
  "snd (Hash alg (xs @ b # ys)) = snd (Hash alg' (xs @ b' # ys)) \<longleftrightarrow> b = b'"
proof
  assume "snd (Hash alg (xs @ b # ys)) = snd (Hash alg' (xs @ b' # ys))"
  then have "digest_rounds (Suc 3) (poly_feed 31 0xDEADBEEF (xs @ b # ys)) =
      digest_rounds (Suc 3) (poly_feed 31 0xDEADBEEF (xs @ b' # ys))"
    by (simp add: Hash_def eval_nat_numeral)
  then have "poly_feed 31 0xDEADBEEF (xs @ b # ys) = poly_feed 31 0xDEADBEEF (xs @ b' # ys)"
    by (rule digest_rounds_inject)
  then show "b = b'" using mult31.feed_detects_byte by blast
next
  assume "b = b'"
  then show "snd (Hash alg (xs @ b # ys)) = snd (Hash alg' (xs @ b' # ys))"
    by (simp add: Hash_def)
qed

section \<open>What the message authentication code promises\<close>

lemma ucast_shift:
  fixes a b :: u8
  assumes "a < 255" and "31 \<le> b"
  shows "ucast a * 31 + ucast b = ucast (a + 1) * 31 + (ucast (b - 31) :: u64)"
proof -
  have "unat (a + 1) = unat a + 1" "unat b = unat (b - 31) + 31"
    using assms by (simp_all add: unat_arith_simps unat_word_ariths)
  then have a: "ucast (a + 1) = ucast a + (1 :: u64)" and b: "ucast b = ucast (b - 31) + (31 :: u64)"
    by (metis of_nat_add of_nat_1 of_nat_numeral of_nat_unat)+
  show ?thesis unfolding a b by (simp add: algebra_simps)
qed


lemma Mac_Generate_feed:
  assumes "poly_feed 31 0x12345678 d = poly_feed 31 0x12345678 d'"
  shows "Mac_Generate key d mac ks = Mac_Generate key d' mac ks"
  using assms by (simp add: Mac_Generate_def split: option.split)

lemma Mac_Verify_iff:
  "Mac_Verify key d mac ks = CryptoResult.kSuccess \<longleftrightarrow>
     Mac_Generate key d [] ks = (CryptoResult.kSuccess, mac)"
  by (auto simp: Mac_Verify_def case_prod_beta prod_eq_iff Let_def)

text \<open>
  The code of a message can be reused for another message without knowing any key: lowering
  a byte by 31 and raising the byte before it by one keeps the code, under every key, wherever
  the two bytes stand. So whatever verifies for the one message verifies for the other.
\<close>

theorem mac_forgery_without_key:
  assumes "a < 255" and "31 \<le> b"
  shows "Mac_Verify key (xs @ [a, b] @ ys) mac ks = Mac_Verify key (xs @ [a + 1, b - 31] @ ys) mac ks"
  using Mac_Generate_feed [OF mult31.feed_collision [OF ucast_shift [OF assms]]]
  by (simp only: Mac_Verify_def)

definition demo_rng :: "u16 \<Rightarrow> u16 \<times> u16" where
  "demo_rng s = (s, s + 1)"

definition demo_key :: "CryptoKey \<times> KeyStore \<times> u16" where
  "demo_key = GenerateKey demo_rng AlgorithmId.kAES128_GCM kEncrypt KeySlotType.kVolatile KeyStore_init 0"

theorem mac_forgery_without_key_witness:
  "let key = fst demo_key; ks = fst (snd demo_key); mac = snd (Mac_Generate key [7, 31] [] ks)
   in Mac_Verify key [8, 0] mac ks = CryptoResult.kSuccess"
proof -
  have "fst (Mac_Generate (fst demo_key) [7, 31] [] (fst (snd demo_key))) = CryptoResult.kSuccess"
    by code_simp
  then show ?thesis
    using mac_forgery_without_key [of 7 31 "fst demo_key" "[]" "[]"]
      Mac_Verify_iff [of "fst demo_key" "[7, 31]" _ "fst (snd demo_key)"]
    by (simp add: Let_def prod_eq_iff)
qed

section \<open>What the cipher promises\<close>

lemma length_xor_stream [simp]: "length (xor_stream k iv d) = length d"
  by (simp add: xor_stream_def)

lemma xor_stream_nth:
  "i < length d \<Longrightarrow> xor_stream k iv d ! i = (d ! i XOR k ! (i mod length k)) XOR iv ! (i mod length iv)"
  by (simp add: xor_stream_def)

definition xor_bytes :: "ByteVector \<Rightarrow> ByteVector \<Rightarrow> ByteVector" where
  "xor_bytes a b = map2 (XOR) a b"

lemma xor_stream_xor_bytes:
  "length a = length b \<Longrightarrow> xor_stream k iv (xor_bytes a b) = xor_bytes (xor_stream k iv a) b"
  by (rule nth_equalityI) (simp_all add: xor_bytes_def xor_stream_nth ac_simps)

lemma xor_stream_twice: "xor_stream k iv (xor_stream k iv d) = d"
proof (rule nth_equalityI)
  fix i assume "i < length (xor_stream k iv (xor_stream k iv d))"
  moreover have "((((x XOR y) XOR z) XOR y) XOR z) = x" for x y z :: u8
    by (rule bit_word_eqI) (auto simp: bit_xor_iff)
  ultimately show "xor_stream k iv (xor_stream k iv d) ! i = d ! i"
    by (simp add: xor_stream_nth)
qed simp

lemma xor_bytes_Nil: "xor_bytes a (replicate (length a) 0) = a"
  by (rule nth_equalityI) (simp_all add: xor_bytes_def)

definition usable :: "CryptoKey \<Rightarrow> KeyStore \<Rightarrow> ByteVector \<Rightarrow> bool" where
  "usable key ks material \<longleftrightarrow> ck_valid key \<and> material \<noteq> [] \<and>
     map_option kr_material (um_find (ks_keyStore ks) (ck_id key)) = Some material"

lemma Decrypt_tagged:
  assumes "usable key ks k" and "iv \<noteq> []"
  shows "Decrypt key iv (body @ replicate 16 0xAB) aad out ks =
    Inr (CryptoResult.kSuccess, xor_stream k iv body)"
proof -
  have "\<not> list_ex (\<lambda>i. (body @ replicate 16 (0xAB :: u8)) ! i \<noteq> 0xAB) [length body..<length body + 16]"
    by (auto simp: list_ex_iff nth_append)
  with assms show ?thesis
    by (auto simp: Decrypt_def usable_def Let_def)
qed

lemma Encrypt_usable:
  assumes "usable key ks k" and "iv \<noteq> []" and "d \<noteq> []"
  shows "Encrypt key iv d aad out ks =
    Inr (CryptoResult.kSuccess, xor_stream k iv d @ replicate 16 0xAB)"
  using assms by (auto simp: Encrypt_def usable_def Let_def)

text \<open>
  What one usable key encrypts it decrypts again, and anything else an attacker makes of it:
  the tag is a constant and the additional data are not used, so flipping any bits \<open>d\<close> of the
  ciphertext's body, under any other additional data, is accepted and flips the same bits of the
  plaintext. With \<open>d\<close> all zero this is the round trip.
\<close>

theorem ciphertext_is_malleable:
  assumes "usable key ks k" and "iv \<noteq> []" and "p \<noteq> []" and "length d = length p"
  shows "obind (Encrypt key iv p aad out ks) (\<lambda>(_, c).
           Decrypt key iv (xor_bytes (take (length p) c) d @ drop (length p) c) aad' out' ks) =
         Inr (CryptoResult.kSuccess, xor_bytes p d)"
  using assms
  by (simp add: Encrypt_usable Decrypt_tagged xor_stream_xor_bytes xor_stream_twice)

theorem ciphertext_is_malleable_witness:
  "obind (Encrypt (fst demo_key) [9] [1, 2, 3] [] [] (fst (snd demo_key))) (\<lambda>(_, c).
     Decrypt (fst demo_key) [9] (xor_bytes (take 3 c) [0, 255, 0] @ drop 3 c) [7] [] (fst (snd demo_key)))
   = Inr (CryptoResult.kSuccess, [1, 253, 3])"
proof -
  have "usable (fst demo_key) (fst (snd demo_key)) [0,1,2,3,4,5,6,7,8,9,10,11,12,13,14,15]"
    "xor_bytes [1, 2, 3] [0, 255, 0] = [1, 253, 3]"
    by code_simp+
  with ciphertext_is_malleable [of "fst demo_key" "fst (snd demo_key)" _ "[9]" "[1, 2, 3]" "[0, 255, 0]" "[]" "[]" "[7]" "[]"]
  show ?thesis by (simp add: eval_nat_numeral)
qed

section \<open>What the key store promises\<close>

text \<open>A run of key generations with the given parameters.\<close>

fun generate_all ::
  "('g \<Rightarrow> u16 \<times> 'g) \<Rightarrow> (AlgorithmId \<times> KeyUsage \<times> KeySlotType) list \<Rightarrow> KeyStore \<Rightarrow> 'g \<Rightarrow>
   CryptoKey list \<times> KeyStore" where
  "generate_all dist [] ks rng = ([], ks)"
| "generate_all dist ((alg, usage, slot) # ps) ks rng =
     (let (key, ks', rng') = GenerateKey dist alg usage slot ks rng;
          (keys, ks'') = generate_all dist ps ks' rng'
      in (key # keys, ks''))"

lemma length_draw_bytes [simp]: "length (fst (draw_bytes dist n g)) = n"
  by (induction n arbitrary: g) (simp_all add: case_prod_beta Let_def)

text \<open>Every id from the next one on is free, as long as the counter has not wrapped.\<close>

definition ids_below :: "nat \<Rightarrow> KeyStore \<Rightarrow> bool" where
  "ids_below n ks \<longleftrightarrow> ks_nextKeyId ks = of_nat n \<and>
     (\<forall>i rec. um_find (ks_keyStore ks) i = Some rec \<longrightarrow> unat i < n)"

lemma GenerateKey_fresh:
  assumes "ids_below n ks" and "n < 2 ^ 32"
  shows "case GenerateKey dist alg usage slot ks g of (key, ks', g') \<Rightarrow>
    ck_valid key \<and> ck_id key = of_nat n \<and> ids_below (Suc n) ks' \<and>
    (\<exists>k. usable key ks' k \<and> length k \<in> {16, 32}) \<and>
    (\<forall>i. i \<noteq> of_nat n \<longrightarrow> um_find (ks_keyStore ks') i = um_find (ks_keyStore ks) i)"
proof -
  have n: "unat (of_nat n :: u32) = n"
    using assms(2) by (rule unat_of_nat_u32)
  then have free: "um_find (ks_keyStore ks) (of_nat n) = None"
    using assms(1) by (metis ids_below_def less_irrefl not_Some_eq)
  have "fst (draw_bytes dist len g) \<noteq> []" if "len \<in> {16, 32}" for len
    using that length_draw_bytes [of dist len g] by (metis insertE list.size(3) singletonD zero_neq_numeral)
  then show ?thesis
    using assms(1) free n
    by (auto simp: GenerateKey_def Let_def case_prod_beta ids_below_def um_simps usable_def
        CryptoKey_ctor_def less_Suc_eq)
qed


lemma GenerateKey_collision:
  assumes "um_find (ks_keyStore ks) (ks_nextKeyId ks) = Some rec" and "kr_material rec \<noteq> []"
  shows "usable (fst (GenerateKey dist alg usage slot ks g))
    (fst (snd (GenerateKey dist alg usage slot ks g))) (kr_material rec)"
  using assms by (simp add: GenerateKey_def Let_def case_prod_beta usable_def CryptoKey_ctor_def)

lemma usable_elsewhere:
  assumes "usable key ks k" and "\<forall>i. i \<noteq> j \<longrightarrow> um_find (ks_keyStore ks') i = um_find (ks_keyStore ks) i"
    and "ck_id key \<noteq> j"
  shows "usable key ks' k"
  using assms by (simp add: usable_def)

lemma generate_all_fresh:
  assumes "ids_below n ks" and "n + length ps \<le> 2 ^ 32"
  shows "case generate_all dist ps ks g of (keys, ks') \<Rightarrow>
    map (\<lambda>key. unat (ck_id key)) keys = [n..<n + length ps] \<and>
    (\<forall>key \<in> set keys. \<exists>k. usable key ks' k) \<and>
    (\<forall>i. unat i < n \<longrightarrow> um_find (ks_keyStore ks') i = um_find (ks_keyStore ks) i)"
  using assms
proof (induction ps arbitrary: n ks g)
  case Nil
  then show ?case by simp
next
  case (Cons p ps)
  obtain alg usage slot where p: "p = (alg, usage, slot)" by (cases p)
  obtain key ks1 g1 where gen: "GenerateKey dist alg usage slot ks g = (key, ks1, g1)"
    by (cases "GenerateKey dist alg usage slot ks g")
  obtain keys ks2 where rest: "generate_all dist ps ks1 g1 = (keys, ks2)"
    by (cases "generate_all dist ps ks1 g1")
  have n: "n < 2 ^ 32" using Cons.prems(2) by simp
  then have un: "unat (of_nat n :: u32) = n" by (rule unat_of_nat_u32)
  note new = GenerateKey_fresh [OF Cons.prems(1) n, of dist alg usage slot g, unfolded gen, simplified]
  have "Suc n + length ps \<le> 2 ^ 32" using Cons.prems(2) by simp
  then have ih: "map (\<lambda>key. unat (ck_id key)) keys = [Suc n..<Suc n + length ps]"
    "\<forall>key \<in> set keys. \<exists>k. usable key ks2 k"
    "\<forall>i. unat i < Suc n \<longrightarrow> um_find (ks_keyStore ks2) i = um_find (ks_keyStore ks1) i"
    using Cons.IH [of "Suc n" ks1 g1] new rest by auto
  have key: "\<exists>k. usable key ks2 k"
    using new ih(3) un by (auto simp: usable_def)
  have "um_find (ks_keyStore ks2) i = um_find (ks_keyStore ks) i" if "unat i < n" for i
    using that ih(3) new un by (metis less_Suc_eq less_irrefl)
  moreover have "n # [Suc n..<Suc n + length ps] = [n..<n + length (p # ps)]"
    by (metis add_Suc_right add_Suc_shift length_Cons less_add_Suc1 upt_conv_Cons)
  ultimately show ?case
    using key ih(1,2) new un by (simp add: p gen rest)
qed

text \<open>
  Fewer than \<open>2^32\<close> generated keys all have different ids, and each of them remains usable
  in the store after all the others have been generated, whatever the random engine yields.
\<close>

theorem generated_keys_distinct:
  assumes "length ps < 2 ^ 32" and "generate_all dist ps KeyStore_init g = (keys, ks)"
  shows "distinct (map ck_id keys) \<and> length keys = length ps \<and>
    list_all (\<lambda>key. \<exists>k. usable key ks k) keys"
proof -
  have "ids_below 1 KeyStore_init" by (simp add: ids_below_def KeyStore_init_def um_simps)
  from generate_all_fresh [OF this, of ps dist g] assms
  have ids: "map unat (map ck_id keys) = [1..<1 + length ps]"
    and us: "\<forall>key \<in> set keys. \<exists>k. usable key ks k" by (simp_all add: comp_def)
  then have "distinct (map unat (map ck_id keys))" by simp
  moreover have "length keys = length ps" using arg_cong [OF ids, of length] by (simp del: upt_Suc)
  ultimately show ?thesis using us by (auto simp: distinct_map list_all_iff dest: inj_on_imageI2)
qed

theorem generated_keys_distinct_witness:
  "let (keys, ks) = generate_all demo_rng [(AlgorithmId.kAES128_GCM, kEncrypt, KeySlotType.kHsm),
        (AlgorithmId.kHMAC_SHA256, kSign, KeySlotType.kHsm)] KeyStore_init 0
   in distinct (map ck_id keys) \<and> length keys = 2"
proof -
  let ?ps = "[(AlgorithmId.kAES128_GCM, kEncrypt, KeySlotType.kHsm),
        (AlgorithmId.kHMAC_SHA256, kSign, KeySlotType.kHsm)]"
  obtain keys ks where "generate_all demo_rng ?ps KeyStore_init 0 = (keys, ks)"
    by (cases "generate_all demo_rng ?ps KeyStore_init 0")
  with generated_keys_distinct [OF _ this] show ?thesis by simp
qed

end
