(* ===== verification/Logging.thy ===== *)
theory Logging
  imports Prelude
begin

text \<open>
  ara::log and ara::exec: include/ara/log/logger.h, src/ara/log/logger.cpp,
  include/ara/exec/execution_client.h and src/ara/exec/execution_client.cpp. A log stream's
  destructor prints one record; its text is returned. Loggers are allocated once per context and
  never freed: the registry maps a context to the index of its logger in a heap.
\<close>

section \<open>Data\<close>

datatype LogLevel = kOff | kFatal | kError | kWarn | kInfo | kDebug | kVerbose

datatype LogMode = kRemote | kFile | kConsole

fun loglevel_u8 :: "LogLevel \<Rightarrow> u8" where
  "loglevel_u8 LogLevel.kOff = 0"
| "loglevel_u8 LogLevel.kFatal = 1"
| "loglevel_u8 LogLevel.kError = 2"
| "loglevel_u8 LogLevel.kWarn = 3"
| "loglevel_u8 LogLevel.kInfo = 4"
| "loglevel_u8 LogLevel.kDebug = 5"
| "loglevel_u8 LogLevel.kVerbose = 6"

lemma loglevel_u8_inj: "loglevel_u8 a = loglevel_u8 b \<Longrightarrow> a = b"
  by (cases a; cases b) simp_all

instantiation LogLevel :: linorder
begin

definition less_eq_LogLevel :: "LogLevel \<Rightarrow> LogLevel \<Rightarrow> bool" where
  "less_eq_LogLevel a b \<longleftrightarrow> loglevel_u8 a \<le> loglevel_u8 b"

definition less_LogLevel :: "LogLevel \<Rightarrow> LogLevel \<Rightarrow> bool" where
  "less_LogLevel a b \<longleftrightarrow> loglevel_u8 a < loglevel_u8 b"

instance
  by intro_classes (auto simp: less_eq_LogLevel_def less_LogLevel_def intro: loglevel_u8_inj)

end

record LogStream =
  ls_level :: LogLevel
  ls_ctx_id :: string
  ls_stream :: string

record Logger =
  lg_ctx_id :: string
  lg_ctx_desc :: string
  lg_level :: LogLevel

record LogRegistry =
  lr_registry :: "(string, nat) umap"
  lr_heap :: "Logger list"
  lr_app_id :: string

definition LogRegistry_init :: LogRegistry where
  "LogRegistry_init = \<lparr>lr_registry = um_empty, lr_heap = [], lr_app_id = []\<rparr>"

section \<open>Streams\<close>

definition LogStream_ctor :: "LogLevel \<Rightarrow> string \<Rightarrow> LogStream" where
  "LogStream_ctor level ctx_id = \<lparr>ls_level = level, ls_ctx_id = ctx_id, ls_stream = []\<rparr>"

text \<open>\<open>operator<<\<close> of a value whose printed form is \<open>value\<close>.\<close>

definition LogStream_put :: "string \<Rightarrow> LogStream \<Rightarrow> LogStream" where
  "LogStream_put printed ls = ls\<lparr>ls_stream := ls_stream ls @ printed\<rparr>"

fun level_str :: "LogLevel \<Rightarrow> string" where
  "level_str LogLevel.kFatal = ''FATAL''"
| "level_str LogLevel.kError = ''ERROR''"
| "level_str LogLevel.kWarn = ''WARN''"
| "level_str LogLevel.kInfo = ''INFO''"
| "level_str LogLevel.kDebug = ''DEBUG''"
| "level_str LogLevel.kVerbose = ''VERBOSE''"
| "level_str LogLevel.kOff = ''INFO''"

abbreviation dquote :: char where "dquote \<equiv> CHR 0x22"
abbreviation backslash :: char where "backslash \<equiv> CHR 0x5C"
abbreviation newline :: char where "newline \<equiv> CHR 0x0A"
abbreviation nul :: char where "nul \<equiv> CHR 0x00"

fun escape :: "string \<Rightarrow> string" where
  "escape [] = []"
| "escape (c # cs) =
     (if c = dquote then [backslash, dquote]
      else if c = backslash then [backslash, backslash]
      else [c]) @ escape cs"

text \<open>What \<open>%s\<close> prints of \<open>c_str()\<close>: everything before the first NUL.\<close>

definition c_str :: "string \<Rightarrow> string" where
  "c_str s = takeWhile (\<lambda>c. c \<noteq> nul) s"

definition quoted :: "string \<Rightarrow> string" where
  "quoted s = [dquote] @ s @ [dquote]"

definition log_prefix :: "LogStream \<Rightarrow> string" where
  "log_prefix ls = ''[SOC_LOG] {'' @ quoted ''level'' @ '':'' @ quoted (level_str (ls_level ls)) @ '',''
     @ quoted ''ctx'' @ '':'' @ quoted (c_str (ls_ctx_id ls)) @ '',''
     @ quoted ''msg'' @ '':''"

definition LogStream_dtor :: "LogStream \<Rightarrow> string" where
  "LogStream_dtor ls = log_prefix ls @ quoted (c_str (escape (ls_stream ls))) @ ''}'' @ [newline]"

section \<open>Loggers\<close>

definition Logger_ctor :: "string \<Rightarrow> string \<Rightarrow> LogLevel \<Rightarrow> Logger" where
  "Logger_ctor ctx_id ctx_desc level = \<lparr>lg_ctx_id = ctx_id, lg_ctx_desc = ctx_desc, lg_level = level\<rparr>"

text \<open>\<open>LogFatal\<close> to \<open>LogVerbose\<close>: a stream of the level, whatever the logger's own level.\<close>

definition Logger_Log :: "LogLevel \<Rightarrow> Logger \<Rightarrow> LogStream" where
  "Logger_Log level logger = LogStream_ctor level (lg_ctx_id logger)"

definition IsEnabled :: "LogLevel \<Rightarrow> Logger \<Rightarrow> bool" where
  "IsEnabled level logger \<longleftrightarrow> level \<le> lg_level logger"

definition InitLogging ::
  "string \<Rightarrow> string \<Rightarrow> LogLevel \<Rightarrow> LogMode \<Rightarrow> LogRegistry \<Rightarrow> string \<times> LogRegistry" where
  "InitLogging app_id app_desc level log_mode reg =
     (''[SOC_LOG] {'' @ quoted ''level'' @ '':'' @ quoted ''INFO'' @ '','' @ quoted ''ctx'' @ '':''
        @ quoted ''SYS'' @ '','' @ quoted ''msg'' @ '':'' @ quoted ''ara::log initialized'' @ '',''
        @ quoted ''app_id'' @ '':'' @ quoted (c_str app_id) @ ''}'' @ [newline],
      reg\<lparr>lr_app_id := app_id\<rparr>)"

definition CreateLogger :: "string \<Rightarrow> string \<Rightarrow> LogLevel \<Rightarrow> LogRegistry \<Rightarrow> nat \<times> LogRegistry" where
  "CreateLogger ctx_id ctx_desc level reg =
     (case um_find (lr_registry reg) ctx_id of
        Some i \<Rightarrow> (i, reg)
      | None \<Rightarrow>
          let i = length (lr_heap reg) in
          (i, reg\<lparr>lr_heap := lr_heap reg @ [Logger_ctor ctx_id ctx_desc level],
                  lr_registry := um_put ctx_id i (lr_registry reg)\<rparr>))"

section \<open>Execution client\<close>

text \<open>
  \<open>ExecutionState\<close> declares one value, \<open>kRunning\<close>; the report prints any other as unknown. The
  result is what is printed and the code returned.
\<close>

type_synonym ExecutionState = u8

definition kRunning :: ExecutionState where "kRunning = 0"

datatype ExecErrc = kSuccess | kGeneralError | kInvalidTransition | kAlreadyInState

definition ReportExecutionState :: "ExecutionState \<Rightarrow> string \<times> ExecErrc" where
  "ReportExecutionState state =
     (''[ara::exec] ReportExecutionState: '' @ (if state = kRunning then ''kRunning'' else ''Unknown'')
        @ [newline], ExecErrc.kSuccess)"

section \<open>What a log record promises\<close>

text \<open>A reader of a quoted string with backslash escapes: its content and what follows it.\<close>

fun read_quoted :: "string \<Rightarrow> (string \<times> string) option" where
  "read_quoted [] = None"
| "read_quoted (c # cs) =
     (if c = dquote then Some ([], cs)
      else if c = backslash
      then (case cs of [] \<Rightarrow> None | d # ds \<Rightarrow> map_option (\<lambda>(s, r). (d # s, r)) (read_quoted ds))
      else map_option (\<lambda>(s, r). (c # s, r)) (read_quoted cs))"

lemma read_quoted_escape: "read_quoted (escape s @ dquote # r) = Some (s, r)"
  by (induction s) simp_all

lemma escape_nul: "nul \<in> set (escape s) \<longleftrightarrow> nul \<in> set s"
  by (induction s) auto

lemma c_str_id: "nul \<notin> set s \<Longrightarrow> c_str s = s"
  unfolding c_str_def by (rule takeWhile_eq_all_conv [THEN iffD2]) blast

text \<open>
  C37: whatever is streamed into a record, quotes and backslashes included, a reader of the quoted
  text after the message key gets back exactly what was streamed, and then the end of the record:
  no message can end its own field early. The message must not contain a NUL, at which it is cut.
\<close>

theorem log_message_recovered:
  assumes "nul \<notin> set (ls_stream ls)"
  shows "read_quoted (drop (length (log_prefix ls) + 1) (LogStream_dtor ls)) =
    Some (ls_stream ls, ''}'' @ [newline])"
  using assms by (simp add: LogStream_dtor_def quoted_def c_str_id escape_nul read_quoted_escape)

definition demo_stream :: LogStream where
  "demo_stream = LogStream_put [dquote, backslash] (LogStream_ctor LogLevel.kWarn ''VSIG'')"

theorem log_message_recovered_witness:
  "ls_stream demo_stream = [dquote, backslash] \<and>
   read_quoted (drop (length (log_prefix demo_stream) + 1) (LogStream_dtor demo_stream)) =
     Some (ls_stream demo_stream, ''}'' @ [newline])"
proof
  show h: "ls_stream demo_stream = [dquote, backslash]" by code_simp
  show "read_quoted (drop (length (log_prefix demo_stream) + 1) (LogStream_dtor demo_stream)) =
      Some (ls_stream demo_stream, ''}'' @ [newline])"
    by (rule log_message_recovered) (simp add: h)
qed

text \<open>
  Newlines are not escaped, so a record is as many lines as its message; and a logger's level
  filters nothing: it is only reported by \<open>IsEnabled\<close>.
\<close>

lemma record_lines:
  assumes "nul \<notin> set (ls_stream ls)"
  shows "count_list (LogStream_dtor ls) newline =
    count_list (c_str (ls_ctx_id ls)) newline + count_list (ls_stream ls) newline + 1"
proof -
  have "count_list (escape s) newline = count_list s newline" for s
    by (induction s) auto
  moreover have "count_list (level_str l) newline = 0" for l by (cases l) simp_all
  ultimately show ?thesis
    using assms by (simp add: LogStream_dtor_def log_prefix_def quoted_def c_str_id escape_nul)
qed

lemma Logger_Log_ignores_level:
  "Logger_Log level (lg\<lparr>lg_level := l\<rparr>) = Logger_Log level lg"
  by (simp add: Logger_Log_def)

section \<open>What the registry promises\<close>

datatype log_op = LogCreate string string LogLevel | LogInit string string LogLevel LogMode

fun log_step :: "LogRegistry \<Rightarrow> log_op \<Rightarrow> LogRegistry" where
  "log_step reg (LogCreate c d l) = snd (CreateLogger c d l reg)"
| "log_step reg (LogInit a d l m) = snd (InitLogging a d l m reg)"

definition registry_ok :: "LogRegistry \<Rightarrow> bool" where
  "registry_ok reg \<longleftrightarrow> (\<forall>c i. um_find (lr_registry reg) c = Some i \<longrightarrow>
     i < length (lr_heap reg) \<and> lg_ctx_id (lr_heap reg ! i) = c)"

lemma registry_ok_step: "registry_ok reg \<Longrightarrow> registry_ok (log_step reg op)"
  by (cases op)
    (auto simp: registry_ok_def CreateLogger_def InitLogging_def Let_def um_simps nth_append
      Logger_ctor_def less_SucI split: option.splits if_splits)

interpretation registry: invariant_step log_step registry_ok
  by unfold_locales (rule registry_ok_step)

lemma log_step_keeps:
  assumes "um_find (lr_registry reg) c = Some i" and "i < length (lr_heap reg)"
  shows "um_find (lr_registry (log_step reg op)) c = Some i \<and> i < length (lr_heap (log_step reg op)) \<and>
    lr_heap (log_step reg op) ! i = lr_heap reg ! i"
  using assms
  by (cases op)
    (auto simp: CreateLogger_def InitLogging_def Let_def um_simps nth_append split: option.splits)

lemma log_run_keeps:
  assumes "um_find (lr_registry reg) c = Some i" and "i < length (lr_heap reg)"
  shows "um_find (lr_registry (run log_step reg ops)) c = Some i \<and>
    lr_heap (run log_step reg ops) ! i = lr_heap reg ! i"
  using assms
proof (induction ops arbitrary: reg)
  case (Cons op ops)
  from log_step_keeps [OF Cons.prems, of op] Cons.IH [of "log_step reg op"] show ?case by simp
qed simp

text \<open>
  A reference returned for a context stays good for ever: after any later calls, asking for
  the same context again gives the same logger, unchanged, with the description and level of its
  first creation, whatever description and level are asked for.
\<close>

theorem logger_reference_stable:
  "let reg0 = run log_step LogRegistry_init before;
       (i, reg1) = CreateLogger c d l reg0;
       reg2 = run log_step reg1 later
   in fst (CreateLogger c d' l' reg2) = i \<and> lr_heap reg2 ! i = lr_heap reg1 ! i \<and>
      lg_ctx_id (lr_heap reg2 ! i) = c"
proof -
  let ?reg0 = "run log_step LogRegistry_init before"
  let ?reg1 = "snd (CreateLogger c d l ?reg0)"
  let ?i = "fst (CreateLogger c d l ?reg0)"
  have ok: "registry_ok ?reg0"
    by (rule registry.run_inv) (simp add: registry_ok_def LogRegistry_init_def um_simps)
  have ok1: "registry_ok ?reg1" using registry_ok_step [OF ok, of "LogCreate c d l"] by simp
  have found: "um_find (lr_registry ?reg1) c = Some ?i"
    by (auto simp: CreateLogger_def Let_def um_simps split: option.split)
  with ok1 have "?i < length (lr_heap ?reg1)" "lg_ctx_id (lr_heap ?reg1 ! ?i) = c"
    by (auto simp: registry_ok_def)
  with log_run_keeps [OF found] show ?thesis
    by (simp add: Let_def case_prod_beta CreateLogger_def)
qed

end
