(* ===== verification/Someip.thy ===== *)
theory Someip
  imports Prelude
begin

text \<open>
  ara::com messages and base types: include/ara/com/someip_binding.h (headers, messages, service
  descriptors, method results), the message part of src/ara/com/someip_binding.cpp, the byte order
  macros and service numbers of include/ara/com/someip_proto.h, and include/ara/com/types.h,
  skeleton_base.h and proxy_base.h. The locale \<open>field_codec\<close> is what the parser relies on for
  one header field.
\<close>

section \<open>Base types\<close>

datatype InstanceIdentifier = InstanceIdentifier (GetValue: string)

type_synonym ServiceHandleId = u32

datatype FindServiceResult = kSuccess | kServiceNotFound | kError

datatype SubscriptionState = kNotSubscribed | kSubscribed | kSubscriptionPending

datatype E2ECheckStatus = kOk | kRepeated | kWrongSequence | kError | kNotAvailable | kNoNewData

record SkeletonBase =
  sk_instance :: InstanceIdentifier
  sk_is_offered :: bool

definition SkeletonBase_ctor :: "InstanceIdentifier \<Rightarrow> SkeletonBase" where
  "SkeletonBase_ctor inst = \<lparr>sk_instance = inst, sk_is_offered = False\<rparr>"

definition Skeleton_OfferService :: "SkeletonBase \<Rightarrow> SkeletonBase" where
  "Skeleton_OfferService sk = sk\<lparr>sk_is_offered := True\<rparr>"

definition Skeleton_StopOfferService :: "SkeletonBase \<Rightarrow> SkeletonBase" where
  "Skeleton_StopOfferService sk = sk\<lparr>sk_is_offered := False\<rparr>"

definition SkeletonBase_dtor :: "SkeletonBase \<Rightarrow> SkeletonBase" where
  "SkeletonBase_dtor sk = (if sk_is_offered sk then Skeleton_StopOfferService sk else sk)"

definition Skeleton_GetInstanceId :: "SkeletonBase \<Rightarrow> InstanceIdentifier" where
  "Skeleton_GetInstanceId sk = sk_instance sk"

definition IsOffered :: "SkeletonBase \<Rightarrow> bool" where
  "IsOffered sk = sk_is_offered sk"

record ProxyBase =
  pb_instance :: InstanceIdentifier

definition ProxyBase_ctor :: "InstanceIdentifier \<Rightarrow> ProxyBase" where
  "ProxyBase_ctor inst = \<lparr>pb_instance = inst\<rparr>"

definition GetInstanceId :: "ProxyBase \<Rightarrow> InstanceIdentifier" where
  "GetInstanceId p = pb_instance p"

section \<open>Messages\<close>

text \<open>
  The message type and the return code are enumerations over a byte, and the parser casts any
  byte to them, so they are bytes here, with the declared values named.
\<close>

type_synonym MessageType = u8

definition kRequest :: MessageType where "kRequest = 0x00"
definition kRequestNoReturn :: MessageType where "kRequestNoReturn = 0x01"
definition kNotification :: MessageType where "kNotification = 0x02"
definition kResponse :: MessageType where "kResponse = 0x80"
definition kErrorMessage :: MessageType where "kErrorMessage = 0x81"

type_synonym ReturnCode = u8

definition rc_kOk :: ReturnCode where "rc_kOk = 0x00"
definition rc_kNotOk :: ReturnCode where "rc_kNotOk = 0x01"
definition rc_kMalformedMessage :: ReturnCode where "rc_kMalformedMessage = 0x09"

record SomeIpHeader =
  sh_serviceId :: u16
  sh_methodId :: u16
  sh_length :: u32
  sh_clientId :: u16
  sh_sessionId :: u16
  sh_protoVersion :: u8
  sh_ifaceVersion :: u8
  sh_msgType :: MessageType
  sh_returnCode :: ReturnCode

record SomeIpMessage =
  header :: SomeIpHeader
  payload :: "u8 list"

definition push2 :: "u16 \<Rightarrow> u8 list" where
  "push2 v = [ucast (drop_bit 8 v), ucast (v AND 0xFF)]"

definition push4 :: "u32 \<Rightarrow> u8 list" where
  "push4 v = [ucast (drop_bit 24 v AND 0xFF), ucast (drop_bit 16 v AND 0xFF),
              ucast (drop_bit 8 v AND 0xFF), ucast (drop_bit 0 v AND 0xFF)]"

definition Serialize :: "SomeIpMessage \<Rightarrow> u8 list" where
  "Serialize msg =
     push2 (sh_serviceId (header msg)) @
     push2 (sh_methodId (header msg)) @
     push4 (of_nat (8 + length (payload msg))) @
     push2 (sh_clientId (header msg)) @
     push2 (sh_sessionId (header msg)) @
     [sh_protoVersion (header msg)] @
     [sh_ifaceVersion (header msg)] @
     [sh_msgType (header msg)] @
     [sh_returnCode (header msg)] @
     payload msg"

definition rd2 :: "u8 list \<Rightarrow> nat \<Rightarrow> u16" where
  "rd2 d off = push_bit 8 (ucast (d ! off)) OR ucast (d ! (off + 1))"

definition rd4 :: "u8 list \<Rightarrow> nat \<Rightarrow> u32" where
  "rd4 d off = ((push_bit 24 (ucast (d ! off)) OR push_bit 16 (ucast (d ! (off + 1))))
     OR push_bit 8 (ucast (d ! (off + 2)))) OR ucast (d ! (off + 3))"

text \<open>
  The output message is an argument and a result: a failing call has already overwritten its
  header. \<open>16 + payloadLen\<close> is a 32-bit sum and wraps; the range then copied is not wrapped, and
  reading past the end of the buffer is a fault.
\<close>

definition Deserialize :: "u8 list \<Rightarrow> SomeIpMessage \<Rightarrow> (bool \<times> SomeIpMessage) outcome" where
  "Deserialize d msg =
     (if length d < 16 then Inr (False, msg)
      else reading 16 d (
        let msg = msg\<lparr>header := (header msg)
                   \<lparr>sh_serviceId := rd2 d 0, sh_methodId := rd2 d 2,
                    sh_clientId := rd2 d 8, sh_sessionId := rd2 d 10,
                    sh_protoVersion := d ! 12, sh_ifaceVersion := d ! 13,
                    sh_msgType := d ! 14, sh_returnCode := d ! 15\<rparr>\<rparr>;
            len = rd4 d 4;
            payloadLen = (if len \<ge> 8 then len - 8 else 0)
        in if length d < unat (16 + payloadLen) then Inr (False, msg)
           else if length d < 16 + unat payloadLen then Inl OutOfBounds
           else Inr (True, msg\<lparr>payload := take (unat payloadLen) (drop 16 d)\<rparr>)))"

section \<open>Method results\<close>

record 'r MethodResult =
  mr_value :: 'r
  mr_returnCode :: ReturnCode
  mr_ready :: bool

definition MethodResult_default :: "'r \<Rightarrow> 'r MethodResult" where
  "MethodResult_default v0 = \<lparr>mr_value = v0, mr_returnCode = rc_kOk, mr_ready = False\<rparr>"

definition MethodResult_ctor :: "'r \<Rightarrow> 'r MethodResult" where
  "MethodResult_ctor v = \<lparr>mr_value = v, mr_returnCode = rc_kOk, mr_ready = True\<rparr>"

definition SetValue :: "'r \<Rightarrow> ReturnCode \<Rightarrow> 'r MethodResult \<Rightarrow> 'r MethodResult" where
  "SetValue v rc m = m\<lparr>mr_value := v, mr_returnCode := rc, mr_ready := True\<rparr>"

definition IsReady :: "'r MethodResult \<Rightarrow> bool" where
  "IsReady m = mr_ready m"

definition MethodResult_GetValue :: "'r MethodResult \<Rightarrow> 'r" where
  "MethodResult_GetValue m = mr_value m"

definition GetReturnCode :: "'r MethodResult \<Rightarrow> ReturnCode" where
  "GetReturnCode m = mr_returnCode m"

section \<open>Services\<close>

record ServiceDescriptor =
  sd_serviceId :: u16
  sd_instanceId :: u8
  sd_majorVersion :: u8
  sd_minorVersion :: u32
  sd_serviceName :: string
  sd_eventgroupId :: u16
  sd_tcpBinding :: bool
  sd_port :: u16

definition mk_service :: "u16 \<Rightarrow> u8 \<Rightarrow> u8 \<Rightarrow> u32 \<Rightarrow> string \<Rightarrow> u16 \<Rightarrow> bool \<Rightarrow> u16 \<Rightarrow> ServiceDescriptor" where
  "mk_service i inst major minor name eg tcp port =
     \<lparr>sd_serviceId = i, sd_instanceId = inst, sd_majorVersion = major, sd_minorVersion = minor,
      sd_serviceName = name, sd_eventgroupId = eg, sd_tcpBinding = tcp, sd_port = port\<rparr>"

definition kServiceCatalog :: "ServiceDescriptor list" where
  "kServiceCatalog =
    [mk_service 0x1001 0x01 1 0 ''VehicleSignalService'' 0x01 False 30501,
     mk_service 0x1002 0x01 1 0 ''SafetyStatusService'' 0x02 False 30502,
     mk_service 0x1003 0x01 1 0 ''PowerModeService'' 0x03 True 30601,
     mk_service 0x1004 0x01 1 0 ''DiagnosticProxyService'' 0x04 True 30602,
     mk_service 0x1005 0x01 1 0 ''OTATransferService'' 0x05 True 30701,
     mk_service 0x1006 0x01 1 0 ''HMICommandService'' 0x06 True 30603,
     mk_service 0x1007 0x01 1 0 ''NetworkStatusService'' 0x07 False 30503]"

text \<open>Byte order macros on a little-endian host.\<close>

definition SOMEIP_HTONS :: "u16 \<Rightarrow> u16" where
  "SOMEIP_HTONS x = drop_bit 8 x OR push_bit 8 x"

definition SOMEIP_HTONL :: "u32 \<Rightarrow> u32" where
  "SOMEIP_HTONL x =
     ((drop_bit 24 (x AND 0xFF000000) OR drop_bit 8 (x AND 0x00FF0000))
      OR push_bit 8 (x AND 0x0000FF00)) OR push_bit 24 (x AND 0x000000FF)"

section \<open>Fields of a message\<close>

text \<open>
  The contract of one field of a wire format: a fixed number of bytes, and reading at an offset
  where the bytes of a value stand gives the value, whatever is around them.
\<close>

locale field_codec =
  fixes put :: "'v \<Rightarrow> u8 list" and get :: "u8 list \<Rightarrow> nat \<Rightarrow> 'v" and size :: nat
  assumes length_put: "length (put v) = size"
    and get_put: "get (xs @ put v @ ys) (length xs) = v"
begin

lemma get_here: "get (put v @ ys) 0 = v"
  using get_put [of "[]"] by simp

lemma get_at: "length xs = n \<Longrightarrow> get (xs @ put v @ ys) n = v"
  using get_put by blast

lemma put_inject: "put v = put w \<longleftrightarrow> v = w"
  by (metis get_here)

lemma drop_put: "drop size (put v @ ys) = ys"
  by (simp add: length_put)

end

lemma byte_mask: "(0xFF :: 'w::len word) = mask 8"
  by (simp add: mask_eq_exp_minus_1)

lemma rd2_push2: "rd2 (xs @ push2 v @ ys) (length xs) = v"
proof -
  have "rd2 (xs @ push2 v @ ys) (length xs) = push_bit 8 (ucast (ucast (drop_bit 8 v) :: u8)) OR ucast (ucast (v AND 0xFF) :: u8)"
    by (simp add: rd2_def push2_def nth_append)
  also have "\<dots> = v"
    by (rule bit_word_eqI) (auto simp: byte_mask bit_simps)
  finally show ?thesis .
qed

lemma join_push4:
  fixes v :: u32
  shows "((push_bit 24 (ucast (ucast (drop_bit 24 v AND 0xFF) :: u8)) OR
      push_bit 16 (ucast (ucast (drop_bit 16 v AND 0xFF) :: u8))) OR
      push_bit 8 (ucast (ucast (drop_bit 8 v AND 0xFF) :: u8))) OR
      ucast (ucast (drop_bit 0 v AND 0xFF) :: u8) = v" (is "?l = v")
proof (rule bit_word_eqI)
  fix n assume "n < LENGTH(32)"
  then show "bit ?l n = bit v n"
    by (rule u32_bit_cases) (simp_all add: byte_mask bit_simps)
qed

lemma rd4_push4: "rd4 (xs @ push4 v @ ys) (length xs) = v"
  using join_push4 [of v] by (simp add: rd4_def push4_def nth_append)

interpretation be16: field_codec push2 rd2 2
  by unfold_locales (simp add: push2_def, rule rd2_push2)

interpretation be32: field_codec push4 rd4 4
  by unfold_locales (simp add: push4_def, rule rd4_push4)

interpretation byte: field_codec "\<lambda>b. [b]" "\<lambda>d n. d ! n" 1
  by unfold_locales (simp_all add: nth_append)

lemmas put_lengths = be16.length_put be32.length_put byte.length_put

section \<open>What messages promise\<close>

lemma Serialize_fields:
  fixes msg :: SomeIpMessage
  defines "h \<equiv> header msg"
  shows "rd2 (Serialize msg @ r) 0 = sh_serviceId h" "rd2 (Serialize msg @ r) 2 = sh_methodId h"
    "rd4 (Serialize msg @ r) 4 = of_nat (8 + length (payload msg))"
    "rd2 (Serialize msg @ r) 8 = sh_clientId h" "rd2 (Serialize msg @ r) 10 = sh_sessionId h"
    "(Serialize msg @ r) ! 12 = sh_protoVersion h" "(Serialize msg @ r) ! 13 = sh_ifaceVersion h"
    "(Serialize msg @ r) ! 14 = sh_msgType h" "(Serialize msg @ r) ! 15 = sh_returnCode h"
    "drop 16 (Serialize msg @ r) = payload msg @ r"
    "length (Serialize msg @ r) = 16 + length (payload msg) + length r"
proof -
  let ?p = "push2 (sh_serviceId h)" and ?q = "push2 (sh_methodId h)"
    and ?l = "push4 (of_nat (8 + length (payload msg)))"
    and ?c = "push2 (sh_clientId h)" and ?s = "push2 (sh_sessionId h)"
    and ?t = "[sh_protoVersion h, sh_ifaceVersion h, sh_msgType h, sh_returnCode h] @ payload msg"
  have e: "Serialize msg = ?p @ ?q @ ?l @ ?c @ ?s @ ?t"
    by (simp add: Serialize_def h_def)
  show "rd2 (Serialize msg @ r) 0 = sh_serviceId h" by (simp only: e append_assoc be16.get_here)
  show "rd2 (Serialize msg @ r) 2 = sh_methodId h"
    using be16.get_at [of ?p 2] by (simp only: e append_assoc put_lengths)
  show "rd4 (Serialize msg @ r) 4 = of_nat (8 + length (payload msg))"
    using be32.get_at [of "?p @ ?q" 4] by (simp only: e append_assoc length_append put_lengths, simp?)
  show "rd2 (Serialize msg @ r) 8 = sh_clientId h"
    using be16.get_at [of "?p @ ?q @ ?l" 8] by (simp only: e append_assoc length_append put_lengths, simp?)
  show "rd2 (Serialize msg @ r) 10 = sh_sessionId h"
    using be16.get_at [of "?p @ ?q @ ?l @ ?c" 10] by (simp only: e append_assoc length_append put_lengths, simp?)
  have l: "length (?p @ ?q @ ?l @ ?c @ ?s) = 12" by (simp add: put_lengths)
  have t: "Serialize msg @ r = (?p @ ?q @ ?l @ ?c @ ?s) @ (?t @ r)" by (simp only: e append_assoc)
  have at: "(Serialize msg @ r) ! (12 + i) = (?t @ r) ! i" for i
    unfolding t nth_append l by simp
  show "(Serialize msg @ r) ! 12 = sh_protoVersion h" using at [of 0] by simp
  show "(Serialize msg @ r) ! 13 = sh_ifaceVersion h" using at [of 1] by simp
  show "(Serialize msg @ r) ! 14 = sh_msgType h" using at [of 2] by simp
  show "(Serialize msg @ r) ! 15 = sh_returnCode h" using at [of 3] by simp
  show "drop 16 (Serialize msg @ r) = payload msg @ r"
    unfolding t drop_append [of 16 "_ @ _"] l by (simp add: put_lengths)
  show "length (Serialize msg @ r) = 16 + length (payload msg) + length r"
    unfolding t length_append [of "_ @ _" "_ @ _"] l by simp
qed

text \<open>
  C13: parsing what was serialized, with anything after it in the buffer, succeeds and gives back
  the payload and every header field except the length, which keeps the value the output message
  had: neither direction uses the header's own length field. The message must fit the 32-bit
  length.
\<close>

theorem Deserialize_Serialize:
  assumes "length (payload msg) + 16 < 2 ^ 32"
  shows "Deserialize (Serialize msg @ rest) out =
    Inr (True, msg\<lparr>header := (header msg)\<lparr>sh_length := sh_length (header out)\<rparr>\<rparr>)"
proof -
  let ?n = "length (payload msg)"
  have n: "unat (of_nat (8 + ?n) :: u32) = 8 + ?n" "unat (of_nat ?n :: u32) = ?n"
    "unat (of_nat (16 + ?n) :: u32) = 16 + ?n"
    using assms by (auto intro: unat_of_nat_u32 simp del: of_nat_add)
  have "(8 :: u32) \<le> of_nat (8 + ?n)" using n(1) by (simp add: word_le_nat_alt)
  moreover have "(of_nat (8 + ?n) :: u32) - 8 = of_nat ?n" by simp
  moreover have "16 + (of_nat ?n :: u32) = of_nat (16 + ?n)" by simp
  ultimately show ?thesis
    using n by (simp only: Deserialize_def reading_def Serialize_fields Let_def) simp
qed

definition demo_header :: SomeIpHeader where
  "demo_header = \<lparr>sh_serviceId = 0x1001, sh_methodId = 0x8001, sh_length = 0, sh_clientId = 7,
     sh_sessionId = 0x0203, sh_protoVersion = 1, sh_ifaceVersion = 1, sh_msgType = kNotification,
     sh_returnCode = rc_kOk\<rparr>"

definition demo_message :: SomeIpMessage where
  "demo_message = \<lparr>header = demo_header, payload = [1, 2, 3]\<rparr>"

theorem Deserialize_Serialize_witness:
  "Deserialize (Serialize demo_message @ [9, 9]) (demo_message\<lparr>payload := []\<rparr>) = Inr (True, demo_message)"
  using Deserialize_Serialize [of demo_message "[9, 9]" "demo_message\<lparr>payload := []\<rparr>"]
  by (simp add: demo_message_def demo_header_def)

text \<open>
  C32: a received message whose length field is \<open>0xFFFFFFF8\<close> or more passes the size check,
  because the sum in it wraps, and the parser reads past the end of the buffer: no buffer of less
  than four gigabytes with such a length field is rejected. A length field below is safe.
\<close>

theorem Deserialize_reads_out_of_bounds:
  assumes "16 \<le> length d" and "length d < 2 ^ 32"
  shows "Deserialize d msg = Inl OutOfBounds \<longleftrightarrow> 0xFFFFFFF8 \<le> rd4 d 4"
proof -
  let ?l = "rd4 d 4"
  let ?p = "if 8 \<le> ?l then ?l - 8 else 0"
  have "unat (16 + ?p) \<le> length d \<and> length d < 16 + unat ?p \<longleftrightarrow> 0xFFFFFFF8 \<le> ?l"
  proof (cases "0xFFFFFFF8 \<le> ?l")
    case True
    have "(8 :: u32) \<le> ?l" using True by (rule order_trans [rotated]) simp
    then have "unat ?p = unat ?l - 8" by (simp add: unat_sub)
    moreover have "0xFFFFFFF8 \<le> unat ?l" using True by (simp add: word_le_nat_alt)
    moreover have "unat ?l < 2 ^ 32" using unsigned_less [of ?l, where 'a = nat] by simp
    ultimately have "unat (16 + ?p) = 16 + unat ?p - 2 ^ 32" "0xFFFFFFF0 \<le> unat ?p" "unat ?p < 0xFFFFFFF8"
      by (simp_all add: unat_word_ariths le_mod_geq)
    then show ?thesis using True assms by simp
  next
    case False
    then have "unat ?l < 0xFFFFFFF8" by (simp add: word_le_nat_alt)
    then have "unat ?p < 0xFFFFFFF0" by (auto simp: unat_sub word_le_nat_alt)
    then have "unat (16 + ?p) = 16 + unat ?p" by (simp add: unat_word_ariths)
    then show ?thesis using False by auto
  qed
  moreover have "Deserialize d msg = Inl OutOfBounds \<longleftrightarrow>
      unat (16 + ?p) \<le> length d \<and> length d < 16 + unat ?p"
    using assms(1) by (simp add: Deserialize_def Let_def)
  ultimately show ?thesis by simp
qed

theorem Deserialize_reads_out_of_bounds_witness:
  "Deserialize [0x10, 1, 0x80, 1, 0xFF, 0xFF, 0xFF, 0xF8, 0, 0, 0, 0, 1, 1, 2, 0] demo_message
    = Inl OutOfBounds"
proof -
  let ?d = "[0x10, 1, 0x80, 1, 0xFF, 0xFF, 0xFF, 0xF8, 0, 0, 0, 0, 1, 1, 2, 0] :: u8 list"
  have "0xFFFFFFF8 \<le> rd4 ?d 4" by code_simp
  with Deserialize_reads_out_of_bounds [of ?d demo_message] show ?thesis by simp
qed

section \<open>Byte order\<close>

lemma SOMEIP_HTONS_twice: "SOMEIP_HTONS (SOMEIP_HTONS x) = x"
proof (rule bit_word_eqI)
  fix n assume "n < LENGTH(16)"
  then have "n < 8 \<or> n - 8 < 8 \<and> n = 8 + (n - 8)" by simp linarith
  then have "n < 8 \<or> (\<exists>k<8. n = 8 + k)" by blast
  then show "bit (SOMEIP_HTONS (SOMEIP_HTONS x)) n = bit x n"
    by (auto simp: SOMEIP_HTONS_def bit_simps)
qed

lemma SOMEIP_HTONS_bytes: "rd2 [ucast v, ucast (drop_bit 8 v)] 0 = SOMEIP_HTONS v"
  by (rule bit_word_eqI) (auto simp: rd2_def SOMEIP_HTONS_def bit_simps dest: bit_imp_le_length)

lemma kServiceCatalog_distinct:
  "distinct (map sd_serviceId kServiceCatalog) \<and> distinct (map sd_port kServiceCatalog)"
  by code_simp

end
