(* ===== verification/ServiceDiscovery.thy ===== *)
theory ServiceDiscovery
  imports Someip
begin

text \<open>
  SomeIpServiceDiscovery: include/ara/com/someip_binding.h and the service discovery part of
  src/ara/com/someip_binding.cpp. The table of offered services and, per service, the list of
  availability callbacks. An operation returns the invocations it makes, in order; they are made
  while the manager's mutex is held.
\<close>

section \<open>Data and operations\<close>

type_synonym sd_calls = "(callback \<times> ServiceDescriptor \<times> bool) list"

record SomeIpServiceDiscovery =
  sv_offeredServices :: "(u16, ServiceDescriptor) umap"
  sv_subscribers :: "(u16, callback list) umap"

definition SomeIpServiceDiscovery_new :: SomeIpServiceDiscovery where
  "SomeIpServiceDiscovery_new = \<lparr>sv_offeredServices = um_empty, sv_subscribers = um_empty\<rparr>"

definition OfferService ::
  "ServiceDescriptor \<Rightarrow> SomeIpServiceDiscovery \<Rightarrow> SomeIpServiceDiscovery \<times> sd_calls" where
  "OfferService svc sv =
     (sv\<lparr>sv_offeredServices := um_put (sd_serviceId svc) svc (sv_offeredServices sv)\<rparr>,
      (case um_find (sv_subscribers sv) (sd_serviceId svc) of
         None \<Rightarrow> [] | Some cbs \<Rightarrow> map (\<lambda>cb. (cb, svc, True)) cbs))"

definition StopOfferService ::
  "u16 \<Rightarrow> SomeIpServiceDiscovery \<Rightarrow> SomeIpServiceDiscovery \<times> sd_calls" where
  "StopOfferService serviceId sv =
     (case um_find (sv_offeredServices sv) serviceId of
        None \<Rightarrow> (sv, [])
      | Some svc \<Rightarrow>
          (sv\<lparr>sv_offeredServices := um_erase serviceId (sv_offeredServices sv)\<rparr>,
           (case um_find (sv_subscribers sv) serviceId of
              None \<Rightarrow> [] | Some cbs \<Rightarrow> map (\<lambda>cb. (cb, svc, False)) cbs)))"

definition FindServices :: "u16 \<Rightarrow> SomeIpServiceDiscovery \<Rightarrow> ServiceDescriptor list" where
  "FindServices serviceId sv =
     (if serviceId = 0xFFFF then um_values (sv_offeredServices sv)
      else case um_find (sv_offeredServices sv) serviceId of None \<Rightarrow> [] | Some svc \<Rightarrow> [svc])"

text \<open>\<open>operator[]\<close> creates an empty list of subscribers where there is none.\<close>

definition SubscribeServiceAvailability ::
  "u16 \<Rightarrow> callback \<Rightarrow> SomeIpServiceDiscovery \<Rightarrow> SomeIpServiceDiscovery \<times> sd_calls" where
  "SubscribeServiceAvailability serviceId cb sv =
     (let cbs = (case um_find (sv_subscribers sv) serviceId of None \<Rightarrow> [] | Some cbs \<Rightarrow> cbs) in
      (sv\<lparr>sv_subscribers := um_put serviceId (cbs @ [cb]) (sv_subscribers sv)\<rparr>,
       (case um_find (sv_offeredServices sv) serviceId of
          None \<Rightarrow> [] | Some svc \<Rightarrow> [(cb, svc, True)])))"

section \<open>Clients\<close>

record sd_world =
  dw_sd :: SomeIpServiceDiscovery
  dw_calls :: sd_calls

datatype sd_op = SdOffer ServiceDescriptor | SdStop u16 | SdSubscribe u16 callback

fun sd_apply :: "sd_op \<Rightarrow> SomeIpServiceDiscovery \<Rightarrow> SomeIpServiceDiscovery \<times> sd_calls" where
  "sd_apply (SdOffer svc) sv = OfferService svc sv"
| "sd_apply (SdStop i) sv = StopOfferService i sv"
| "sd_apply (SdSubscribe i cb) sv = SubscribeServiceAvailability i cb sv"

definition sd_step :: "sd_world \<Rightarrow> sd_op \<Rightarrow> sd_world" where
  "sd_step w op = \<lparr>dw_sd = fst (sd_apply op (dw_sd w)),
                   dw_calls = dw_calls w @ snd (sd_apply op (dw_sd w))\<rparr>"

definition sd_start :: sd_world where
  "sd_start = \<lparr>dw_sd = SomeIpServiceDiscovery_new, dw_calls = []\<rparr>"

section \<open>What subscribers can rely on\<close>

definition offered :: "SomeIpServiceDiscovery \<Rightarrow> u16 \<Rightarrow> bool" where
  "offered sv i \<longleftrightarrow> um_find (sv_offeredServices sv) i \<noteq> None"

definition subscribed :: "SomeIpServiceDiscovery \<Rightarrow> u16 \<Rightarrow> callback \<Rightarrow> bool" where
  "subscribed sv i cb \<longleftrightarrow>
     (case um_find (sv_subscribers sv) i of None \<Rightarrow> False | Some cbs \<Rightarrow> cb \<in> set cbs)"

lemma OfferService_offered [simp]:
  "offered (fst (OfferService svc sv)) i \<longleftrightarrow> i = sd_serviceId svc \<or> offered sv i"
  by (simp add: OfferService_def offered_def um_simps)

lemma StopOfferService_offered [simp]:
  "offered (fst (StopOfferService j sv)) i \<longleftrightarrow> i \<noteq> j \<and> offered sv i"
  by (auto simp: StopOfferService_def offered_def um_simps split: option.split)

lemma Subscribe_offered [simp]:
  "offered (fst (SubscribeServiceAvailability j c sv)) i = offered sv i"
  by (simp add: SubscribeServiceAvailability_def offered_def Let_def)

text \<open>What a callback has been told about a service, in order: available or not.\<close>

definition about :: "u16 \<Rightarrow> callback \<Rightarrow> callback \<times> ServiceDescriptor \<times> bool \<Rightarrow> bool option" where
  "about i cb call = (case call of (cb', svc, avail) \<Rightarrow>
     if cb' = cb \<and> sd_serviceId svc = i then Some avail else None)"

definition told :: "sd_calls \<Rightarrow> u16 \<Rightarrow> callback \<Rightarrow> bool list" where
  "told calls i cb = List.map_filter (about i cb) calls"

lemma told_simps [simp]:
  "told [] i cb = []" "told (calls @ new) i cb = told calls i cb @ told new i cb"
  "told ((c, svc, a) # calls) i cb = (if c = cb \<and> sd_serviceId svc = i then a # told calls i cb else told calls i cb)"
  by (simp_all add: told_def about_def map_filter_def)

lemma told_notified:
  "told (map (\<lambda>c. (c, svc, a)) cbs) i cb =
     (if sd_serviceId svc = i then replicate (count_list cbs cb) a else [])"
  by (induction cbs) auto

text \<open>
  The specification for one service and one callback: how often the callback is subscribed, whether
  the service is on offer, and what the callback is told.
\<close>

type_synonym availability = "nat \<times> bool \<times> bool list"

fun pair_step :: "u16 \<Rightarrow> callback \<Rightarrow> availability \<Rightarrow> sd_op \<Rightarrow> availability" where
  "pair_step i cb (n, on, h) (SdOffer svc) =
     (if sd_serviceId svc = i then (n, True, h @ replicate n True) else (n, on, h))"
| "pair_step i cb (n, on, h) (SdStop j) =
     (if j = i \<and> on then (n, False, h @ replicate n False) else (n, on, h))"
| "pair_step i cb (n, on, h) (SdSubscribe j c) =
     (if j = i \<and> c = cb then (Suc n, on, if on then h @ [True] else h) else (n, on, h))"

definition subscriptions_of :: "SomeIpServiceDiscovery \<Rightarrow> u16 \<Rightarrow> callback \<Rightarrow> nat" where
  "subscriptions_of sv i cb =
     (case um_find (sv_subscribers sv) i of None \<Rightarrow> 0 | Some cbs \<Rightarrow> count_list cbs cb)"

lemma subscribed_iff: "subscribed sv i cb \<longleftrightarrow> subscriptions_of sv i cb \<noteq> 0"
  by (auto simp: subscribed_def subscriptions_of_def count_list_0_iff simp del: neq0_conv split: option.split)

definition abs_pair :: "u16 \<Rightarrow> callback \<Rightarrow> sd_world \<Rightarrow> availability" where
  "abs_pair i cb w = (subscriptions_of (dw_sd w) i cb, offered (dw_sd w) i, told (dw_calls w) i cb)"

definition filed :: "sd_world \<Rightarrow> bool" where
  "filed w \<longleftrightarrow> (\<forall>i svc. um_find (sv_offeredServices (dw_sd w)) i = Some svc \<longrightarrow> sd_serviceId svc = i)"

lemma filedD: "filed w \<Longrightarrow> um_find (sv_offeredServices (dw_sd w)) i = Some svc \<Longrightarrow> sd_serviceId svc = i"
  by (simp add: filed_def)

lemma filed_step: "filed w \<Longrightarrow> filed (sd_step w op)"
  by (cases op)
    (auto simp: filed_def sd_step_def OfferService_def StopOfferService_def SubscribeServiceAvailability_def
      um_simps Let_def split: if_splits option.splits)

lemma count_list_snoc: "count_list (cbs @ [c]) cb = (if c = cb then Suc (count_list cbs cb) else count_list cbs cb)"
  by (induction cbs) auto

lemma sd_step_pair:
  assumes "filed w"
  shows "abs_pair i cb (sd_step w op) = pair_step i cb (abs_pair i cb w) op"
proof (cases op)
  case (SdOffer svc)
  then show ?thesis
    by (auto simp: abs_pair_def sd_step_def OfferService_def offered_def subscriptions_of_def um_simps
        told_notified split: option.split)
next
  case (SdStop j)
  with filedD [OF assms, of j] show ?thesis
    by (auto simp: abs_pair_def sd_step_def StopOfferService_def offered_def subscriptions_of_def um_simps
        told_notified split: option.split)
next
  case (SdSubscribe j c)
  with filedD [OF assms, of j] show ?thesis
    by (auto simp: abs_pair_def sd_step_def SubscribeServiceAvailability_def offered_def subscriptions_of_def
        um_simps count_list_snoc Let_def split: option.split)
qed

text \<open>
  A history that a subscriber can rely on: nothing without a subscription, otherwise its last entry
  says whether the service is on offer, and the first one is not a withdrawal.
\<close>

fun reliable :: "availability \<Rightarrow> bool" where
  "reliable (n, on, h) \<longleftrightarrow>
     (if n = 0 then h = [] else on = (h \<noteq> [] \<and> List.last h)) \<and> (h \<noteq> [] \<longrightarrow> hd h)"

lemma reliable_step: "reliable s \<Longrightarrow> reliable (pair_step i cb s op)"
proof -
  assume r: "reliable s"
  obtain n on h where s: "s = (n, on, h)" by (cases s)
  have "h \<noteq> [] \<and> hd h" if "n \<noteq> 0" on using r that by (auto simp: s split: if_splits)
  then show ?thesis using r by (cases op) (auto simp: s hd_append)
qed

interpretation discovery: invariant_step "\<lambda>(w, s). \<lambda>op. (sd_step w op, pair_step i cb s op)"
  "\<lambda>(w, s). filed w \<and> abs_pair i cb w = s \<and> reliable s" for i cb
  by unfold_locales (auto simp: filed_step sd_step_pair intro: reliable_step)

lemma run_paired:
  "run (\<lambda>(w, s). \<lambda>op. (sd_step w op, pair_step i cb s op)) (w, s) ops = (run sd_step w ops, run (pair_step i cb) s ops)"
  by (induction ops arbitrary: w s) simp_all

text \<open>
  C29: every callback is told, about every service, exactly what the specification for the two says,
  whatever else is offered, withdrawn or subscribed in whatever order: an offer and a withdrawal are
  told once per subscription, and a late subscriber learns at once of a service on offer. So a
  callback without a subscription for a service is told nothing about it, one with a subscription
  has last been told that the service is available exactly when it is on offer, and the first thing
  it is told is never a withdrawal.
\<close>

theorem subscribers_know_availability:
  "let w = run sd_step sd_start ops; h = told (dw_calls w) i cb
   in (subscriptions_of (dw_sd w) i cb, offered (dw_sd w) i, h) = run (pair_step i cb) (0, False, []) ops \<and>
      (if subscribed (dw_sd w) i cb then offered (dw_sd w) i = (h \<noteq> [] \<and> List.last h) else h = []) \<and>
      (h = [] \<or> hd h)"
proof -
  have start: "filed sd_start" "abs_pair i cb sd_start = (0, False, [])" "reliable (0, False, [])"
    by (simp_all add: filed_def abs_pair_def sd_start_def SomeIpServiceDiscovery_new_def offered_def
        subscriptions_of_def um_simps)
  have "case run (\<lambda>(w, s). \<lambda>op. (sd_step w op, pair_step i cb s op)) (sd_start, (0, False, [])) ops of
      (w, s) \<Rightarrow> filed w \<and> abs_pair i cb w = s \<and> reliable s"
    by (rule discovery.run_inv) (simp add: start)
  then have spec: "abs_pair i cb (run sd_step sd_start ops) = run (pair_step i cb) (0, False, []) ops"
    and rel: "reliable (abs_pair i cb (run sd_step sd_start ops))"
    by (simp_all add: run_paired)
  show ?thesis
    unfolding Let_def spec [unfolded abs_pair_def] subscribed_iff
    using rel by (auto simp: abs_pair_def split: if_splits)
qed

text \<open>Finding one service agrees with finding all, the wildcard id apart.\<close>

lemma FindServices_iff:
  assumes "i \<noteq> 0xFFFF" and "um_ok (sv_offeredServices sv)"
    and "\<And>j svc. um_find (sv_offeredServices sv) j = Some svc \<Longrightarrow> sd_serviceId svc = j"
  shows "set (FindServices i sv) = {svc \<in> set (FindServices 0xFFFF sv). sd_serviceId svc = i}"
  using assms by (auto simp: FindServices_def um.set_vals split: option.splits)

end
