(* ===== verification/VsProxy.thy ===== *)
theory VsProxy
  imports Someip Crc "HOL-Library.Sublist"
begin

text \<open>
  The consumer of the vehicle signals: include/ara/com/vehicle_signal_proxy.h,
  src/ara/com/vehicle_signal_proxy.cpp and the payload layout of include/ara/com/someip_proto.h.
  The sample queue of the event, the parser with its checksum test, and the receive thread's
  statistics. A \<open>float\<close> is its 32 bits, which the code only copies. What \<open>select\<close> and \<open>recv\<close>
  yield in one round of the thread is an input; log texts are left out.
\<close>

section \<open>Data\<close>

record VehicleSignalSample =
  vs_vehicleSpeedKmh :: u32
  vs_engineRpm :: u32
  vs_brakePedal :: bool
  vs_steeringAngleDeg :: u32
  vs_doorStatus :: u8
  vs_fuelLevelPct :: u32
  vs_e2eCrc :: u8
  vs_e2eCounter :: u8
  vs_sessionId :: u16

record VehicleSignalPayload =
  pl_vehicle_speed_kmh :: u32
  pl_engine_rpm :: u32
  pl_brake_pedal :: u8
  pl_steering_angle_deg :: u32
  pl_door_status :: u8
  pl_fuel_level_pct :: u32
  pl_e2e_crc :: u8
  pl_e2e_counter :: u8

record VehicleSignalEvent =
  ev_state :: SubscriptionState
  ev_maxSamples :: nat
  ev_sampleQueue :: "VehicleSignalSample list"
  ev_receiveHandler :: "callback option"

definition VehicleSignalEvent_new :: VehicleSignalEvent where
  "VehicleSignalEvent_new = \<lparr>ev_state = SubscriptionState.kNotSubscribed, ev_maxSamples = 16,
     ev_sampleQueue = [], ev_receiveHandler = None\<rparr>"

record Stats =
  st_rxPackets :: u64
  st_rxBytes :: u64
  st_e2eErrors :: u64
  st_parseErrors :: u64

record VehicleSignalProxy =
  vp_VehicleSignal :: VehicleSignalEvent
  vp_sockFd :: int
  vp_running :: bool
  vp_stats :: Stats

section \<open>The event\<close>

definition Ev_Subscribe :: "nat \<Rightarrow> VehicleSignalEvent \<Rightarrow> VehicleSignalEvent" where
  "Ev_Subscribe maxSamples ev =
     ev\<lparr>ev_maxSamples := maxSamples, ev_state := SubscriptionState.kSubscribed\<rparr>"

definition Ev_Unsubscribe :: "VehicleSignalEvent \<Rightarrow> VehicleSignalEvent" where
  "Ev_Unsubscribe ev = ev\<lparr>ev_state := SubscriptionState.kNotSubscribed\<rparr>"

definition GetSubscriptionState :: "VehicleSignalEvent \<Rightarrow> SubscriptionState" where
  "GetSubscriptionState ev = ev_state ev"

definition SetReceiveHandler :: "callback option \<Rightarrow> VehicleSignalEvent \<Rightarrow> VehicleSignalEvent" where
  "SetReceiveHandler handler ev = ev\<lparr>ev_receiveHandler := handler\<rparr>"

definition UnsetReceiveHandler :: "VehicleSignalEvent \<Rightarrow> VehicleSignalEvent" where
  "UnsetReceiveHandler ev = ev\<lparr>ev_receiveHandler := None\<rparr>"

text \<open>The loop: the count, the samples \<open>f\<close> is called with, and the queue that is left.\<close>

fun get_loop ::
  "VehicleSignalSample list \<Rightarrow> nat \<Rightarrow> nat \<Rightarrow>
   nat \<times> VehicleSignalSample list \<times> VehicleSignalSample list" where
  "get_loop [] n maxCount = (n, [], [])"
| "get_loop (s # q) n maxCount =
     (if n < maxCount
      then (let (n', calls, q') = get_loop q (n + 1) maxCount in (n', s # calls, q'))
      else (n, [], s # q))"

definition GetNewSamples ::
  "nat \<Rightarrow> VehicleSignalEvent \<Rightarrow> nat \<times> VehicleSignalSample list \<times> VehicleSignalEvent" where
  "GetNewSamples maxCount ev =
     (let (n, calls, q) = get_loop (ev_sampleQueue ev) 0 maxCount
      in (n, calls, ev\<lparr>ev_sampleQueue := q\<rparr>))"

text \<open>\<open>pop\<close> on an empty queue is a fault; it is reached when \<open>maxSamples_\<close> is zero.\<close>

definition PushSample ::
  "VehicleSignalSample \<Rightarrow> VehicleSignalEvent \<Rightarrow>
   ((callback \<times> VehicleSignalSample) list \<times> VehicleSignalEvent) outcome" where
  "PushSample sample ev =
     (if ev_state ev \<noteq> SubscriptionState.kSubscribed then Inr ([], ev)
      else obind (if length (ev_sampleQueue ev) \<ge> ev_maxSamples ev
                  then (case ev_sampleQueue ev of [] \<Rightarrow> Inl EmptyPop | s # q \<Rightarrow> Inr q)
                  else Inr (ev_sampleQueue ev))
        (\<lambda>q. Inr (invoke (ev_receiveHandler ev) sample, ev\<lparr>ev_sampleQueue := q @ [sample]\<rparr>)))"

section \<open>The proxy\<close>

definition Stats_zero :: Stats where
  "Stats_zero = \<lparr>st_rxPackets = 0, st_rxBytes = 0, st_e2eErrors = 0, st_parseErrors = 0\<rparr>"

text \<open>\<open>fd\<close> is what \<open>socket\<close> returns and \<open>bound\<close> what \<open>bind\<close> returns.\<close>

definition VehicleSignalProxy_ctor :: "int \<Rightarrow> int \<Rightarrow> VehicleSignalProxy" where
  "VehicleSignalProxy_ctor fd bound =
     (let p = \<lparr>vp_VehicleSignal = VehicleSignalEvent_new, vp_sockFd = fd, vp_running = False,
               vp_stats = Stats_zero\<rparr>
      in if fd < 0 then p
         else if bound < 0 then p\<lparr>vp_sockFd := - 1\<rparr>
         else p\<lparr>vp_running := True\<rparr>)"

definition port_network_order :: "u16 \<Rightarrow> u16" where
  "port_network_order localPort = push_bit 8 (localPort AND 0xFF) OR (drop_bit 8 localPort AND 0xFF)"

text \<open>
  What the destructor leaves. The receive thread reads both members until it is joined; the steps of
  the destructor, with those of that thread in between, are in \<open>AppThreads\<close>.
\<close>

definition VehicleSignalProxy_dtor :: "VehicleSignalProxy \<Rightarrow> VehicleSignalProxy" where
  "VehicleSignalProxy_dtor p =
     (let p = p\<lparr>vp_running := False\<rparr>
      in if vp_sockFd p \<ge> 0 then p\<lparr>vp_sockFd := - 1\<rparr> else p)"

definition FindService :: "int \<Rightarrow> int \<Rightarrow> VehicleSignalProxy option" where
  "FindService fd bound =
     (let proxy = VehicleSignalProxy_ctor fd bound in
      if vp_sockFd proxy < 0 then None else Some proxy)"

definition GetStats :: "VehicleSignalProxy \<Rightarrow> Stats" where
  "GetStats p = vp_stats p"

text \<open>\<open>memcpy\<close> into the packed structure: floats in the host's little-endian order.\<close>

definition le4 :: "u8 list \<Rightarrow> nat \<Rightarrow> u32" where
  "le4 d off = ((ucast (d ! off) OR push_bit 8 (ucast (d ! (off + 1))))
     OR push_bit 16 (ucast (d ! (off + 2)))) OR push_bit 24 (ucast (d ! (off + 3)))"

definition payload_of_bytes :: "u8 list \<Rightarrow> VehicleSignalPayload" where
  "payload_of_bytes d =
     \<lparr>pl_vehicle_speed_kmh = le4 d 0, pl_engine_rpm = le4 d 4, pl_brake_pedal = d ! 8,
      pl_steering_angle_deg = le4 d 9, pl_door_status = d ! 13, pl_fuel_level_pct = le4 d 14,
      pl_e2e_crc = d ! 18, pl_e2e_counter = d ! 19\<rparr>"

definition sample_of_payload :: "VehicleSignalPayload \<Rightarrow> u16 \<Rightarrow> VehicleSignalSample" where
  "sample_of_payload raw sessionId =
     \<lparr>vs_vehicleSpeedKmh = pl_vehicle_speed_kmh raw, vs_engineRpm = pl_engine_rpm raw,
      vs_brakePedal = (pl_brake_pedal raw \<noteq> 0), vs_steeringAngleDeg = pl_steering_angle_deg raw,
      vs_doorStatus = pl_door_status raw, vs_fuelLevelPct = pl_fuel_level_pct raw,
      vs_e2eCrc = pl_e2e_crc raw, vs_e2eCounter = pl_e2e_counter raw, vs_sessionId = sessionId\<rparr>"

definition SVC_ID_VEHICLE_SIGNAL :: u16 where "SVC_ID_VEHICLE_SIGNAL = 0x1001"
definition VEHICLE_SIGNAL_EVT_ID :: u16 where "VEHICLE_SIGNAL_EVT_ID = 0x8001"
definition SOMEIP_MSG_NOTIFICATION :: u8 where "SOMEIP_MSG_NOTIFICATION = 0x02"

text \<open>
  The frame is the first \<open>len\<close> bytes received. The header fields read its first 15 bytes and the
  \<open>memcpy\<close> bytes 16 to 35; reading beyond the frame is a fault. The result is the return value,
  the handler's invocations and the proxy.
\<close>

definition ParseAndDispatch ::
  "u8 list \<Rightarrow> VehicleSignalProxy \<Rightarrow>
   (bool \<times> (callback \<times> VehicleSignalSample) list \<times> VehicleSignalProxy) outcome" where
  "ParseAndDispatch buf p =
     (if length buf < 16 + 20 then Inr (False, [], p)
      else reading 15 buf (
        let serviceId = rd2 buf 0; methodId = rd2 buf 2; len = rd4 buf 4;
            sessionId = rd2 buf 10; msgType = buf ! 14
        in
        if serviceId \<noteq> SVC_ID_VEHICLE_SIGNAL then Inr (True, [], p)
        else if methodId \<noteq> VEHICLE_SIGNAL_EVT_ID then Inr (True, [], p)
        else if msgType \<noteq> SOMEIP_MSG_NOTIFICATION then Inr (False, [], p)
        else
          let payloadLen = (if len \<ge> 8 then len - 8 else 0) in
          if unat payloadLen < 20 then Inr (False, [], p)
          else if length buf < unat (16 + payloadLen) then Inr (False, [], p)
          else
            reading 36 buf (let bytes = take 20 (drop 16 buf); raw = payload_of_bytes bytes;
                expectedCrc = e2e_crc8 (take 18 bytes)
            in
            if pl_e2e_crc raw \<noteq> expectedCrc
            then Inr (False, [], p\<lparr>vp_stats := (vp_stats p)
                   \<lparr>st_e2eErrors := st_e2eErrors (vp_stats p) + 1\<rparr>\<rparr>)
            else obind (PushSample (sample_of_payload raw sessionId) (vp_VehicleSignal p))
                   (\<lambda>(calls, ev). Inr (True, calls, p\<lparr>vp_VehicleSignal := ev\<rparr>)))))"

text \<open>
  The critical sections on the statistics in the receive thread: a packet, with the numbers of the
  raw log record it prints, if it prints one; a frame that was rejected.
\<close>

definition count_packet :: "u8 list \<Rightarrow> VehicleSignalProxy \<Rightarrow> VehicleSignalProxy" where
  [simp]: "count_packet buf p = p\<lparr>vp_stats := (vp_stats p)\<lparr>st_rxPackets := st_rxPackets (vp_stats p) + 1,
     st_rxBytes := st_rxBytes (vp_stats p) + of_nat (length buf)\<rparr>\<rparr>"

definition raw_record :: "u8 list \<Rightarrow> VehicleSignalProxy \<Rightarrow> (nat \<times> u64) option" where
  [simp]: "raw_record buf p = (if st_rxPackets (vp_stats p) mod 10 = 1
     then Some (length buf, st_rxPackets (vp_stats p)) else None)"

definition count_parse_error :: "VehicleSignalProxy \<Rightarrow> VehicleSignalProxy" where
  [simp]: "count_parse_error p = p\<lparr>vp_stats := (vp_stats p)\<lparr>st_parseErrors := st_parseErrors (vp_stats p) + 1\<rparr>\<rparr>"

text \<open>
  What a round of the receive thread does with the result of \<open>recv\<close>: \<^const>\<open>None\<close> when there is
  nothing, otherwise the bytes received, at least one and at most 1024. The tests before it, with
  \<open>FD_SET\<close> and \<open>select\<close>, are the subject of \<open>AppThreads\<close>, where every access is a step of its own.
\<close>

definition rx_round ::
  "u8 list option \<Rightarrow> VehicleSignalProxy \<Rightarrow>
   ((nat \<times> u64) option \<times> (callback \<times> VehicleSignalSample) list \<times> VehicleSignalProxy) outcome" where
  "rx_round input p =
     (case input of
        None \<Rightarrow> Inr (None, [], p)
      | Some buf \<Rightarrow>
          let p = count_packet buf p; raw = raw_record buf p
          in obind (ParseAndDispatch buf p) (\<lambda>(good, calls, p).
               Inr (raw, calls, if good then p else count_parse_error p)))"

section \<open>The queue contract\<close>

text \<open>
  A bounded queue that drops its oldest element when it is full: \<open>push\<close> and \<open>pull\<close> in terms of
  the contents. A client that only uses these two sees each pushed element at most once and in
  order, and the newest ones are never the ones dropped.
\<close>

locale dropping_queue =
  fixes push :: "'x \<Rightarrow> 'q \<Rightarrow> 'q" and pull :: "nat \<Rightarrow> 'q \<Rightarrow> 'x list \<times> 'q"
    and contents :: "'q \<Rightarrow> 'x list" and cap :: "'q \<Rightarrow> nat"
  assumes contents_push: "contents q \<noteq> [] \<or> 0 < cap q \<Longrightarrow> contents (push x q) =
      (if cap q \<le> length (contents q) then tl (contents q) else contents q) @ [x]"
    and cap_push: "cap (push x q) = cap q"
    and pull_result: "fst (pull n q) = take n (contents q)"
    and contents_pull: "contents (snd (pull n q)) = drop n (contents q)"
begin

lemma push_nonempty: "contents q \<noteq> [] \<or> 0 < cap q \<Longrightarrow> contents (push x q) \<noteq> []"
  by (simp add: contents_push)

text \<open>
  After any number of pushes the queue holds the newest elements: as many as it may, or as many as it
  held when these were more.
\<close>

lemma push_all:
  assumes "contents q \<noteq> [] \<or> 0 < cap q"
  shows "contents (fold push xs q) =
    drop (length (contents q) + length xs - max (cap q) (length (contents q))) (contents q @ xs)"
  using assms
proof (induction xs arbitrary: q)
  case Nil
  then show ?case by simp
next
  case (Cons x xs)
  let ?c = "contents q"
  have "contents (push x q) \<noteq> []" using Cons.prems by (rule push_nonempty)
  with Cons.IH [of "push x q"] have "contents (fold push xs (push x q)) =
      drop (length (contents (push x q)) + length xs - max (cap q) (length (contents (push x q))))
        (contents (push x q) @ xs)"
    by (simp add: cap_push)
  also have "\<dots> = drop (length ?c + length (x # xs) - max (cap q) (length ?c)) (?c @ x # xs)"
  proof (cases "cap q \<le> length ?c")
    case True
    with Cons.prems obtain y ys where "?c = y # ys" by (cases ?c) auto
    with True Cons.prems show ?thesis by (simp add: contents_push max_def)
  next
    case False
    then have "max (cap q) (length ?c) = cap q" "max (cap q) (Suc (length ?c)) = cap q" by simp_all
    with False Cons.prems show ?thesis by (simp add: contents_push del: drop_append)
  qed
  finally show ?case by simp
qed

lemma pull_splits: "fst (pull n q) @ contents (snd (pull n q)) = contents q"
  by (simp add: pull_result contents_pull)

lemma push_subseq:
  assumes "contents q \<noteq> [] \<or> 0 < cap q" and "subseq (out @ contents q) xs"
  shows "subseq (out @ contents (push x q)) (xs @ [x])"
proof -
  have "subseq (if cap q \<le> length (contents q) then tl (contents q) else contents q) (contents q)"
    by (cases "contents q") (simp_all add: list_emb_Cons)
  then have "subseq (out @ (if cap q \<le> length (contents q) then tl (contents q) else contents q)) xs"
    using assms(2) by (meson list_emb_append_mono subseq_order.order_refl subseq_order.order_trans)
  then show ?thesis
    using assms(1) by (simp add: contents_push flip: append_assoc)
qed

end

definition push_subscribed :: "VehicleSignalSample \<Rightarrow> VehicleSignalEvent \<Rightarrow> VehicleSignalEvent" where
  "push_subscribed s ev =
     (case PushSample s (ev\<lparr>ev_state := SubscriptionState.kSubscribed\<rparr>) of
        Inr (_, ev') \<Rightarrow> ev' | Inl _ \<Rightarrow> ev)"

lemma get_loop_eq: "get_loop q n m = (n + min (length q) (m - n), take (m - n) q, drop (m - n) q)"
  by (induction q arbitrary: n) (auto simp: Let_def take_Cons' drop_Cons' Suc_diff_Suc)

lemma GetNewSamples_eq:
  "GetNewSamples m ev = (min (length (ev_sampleQueue ev)) m, take m (ev_sampleQueue ev),
     ev\<lparr>ev_sampleQueue := drop m (ev_sampleQueue ev)\<rparr>)"
  by (simp add: GetNewSamples_def get_loop_eq)

lemma PushSample_subscribed:
  assumes "ev_state ev = SubscriptionState.kSubscribed" and "ev_sampleQueue ev \<noteq> [] \<or> 0 < ev_maxSamples ev"
  shows "PushSample s ev = Inr (invoke (ev_receiveHandler ev) s, ev\<lparr>ev_sampleQueue :=
    (if ev_maxSamples ev \<le> length (ev_sampleQueue ev) then tl (ev_sampleQueue ev)
     else ev_sampleQueue ev) @ [s]\<rparr>)"
  using assms by (auto simp: PushSample_def split: list.split)

interpretation samples: dropping_queue push_subscribed "\<lambda>n ev. snd (GetNewSamples n ev)"
  ev_sampleQueue ev_maxSamples
proof (unfold_locales, goal_cases)
  case (1 q x)
  then show ?case by (simp add: push_subscribed_def PushSample_subscribed)
next
  case (2 x q)
  then show ?case
    by (auto simp: push_subscribed_def PushSample_def obind_def split: list.splits sum.splits)
qed (simp_all add: GetNewSamples_eq)


section \<open>What the event promises\<close>

fun push_seq :: "VehicleSignalSample list \<Rightarrow> VehicleSignalEvent \<Rightarrow> VehicleSignalEvent outcome" where
  "push_seq [] ev = Inr ev"
| "push_seq (s # ss) ev = obind (PushSample s ev) (\<lambda>(_, ev'). push_seq ss ev')"

lemma push_seq_fold:
  assumes "ev_state ev = SubscriptionState.kSubscribed" and "ev_sampleQueue ev \<noteq> [] \<or> 0 < ev_maxSamples ev"
  shows "push_seq ss ev = Inr (fold push_subscribed ss ev)"
  using assms
proof (induction ss arbitrary: ev)
  case (Cons s ss)
  have "push_subscribed s ev = snd (projr (PushSample s ev))"
    using Cons.prems by (cases ev) (simp add: push_subscribed_def PushSample_subscribed)
  with Cons show ?case by (simp add: PushSample_subscribed)
qed simp

text \<open>
  C24: while an event is subscribed, any number of samples can be pushed without a fault, unless it
  is subscribed for none and its queue is empty, and the queue then holds the newest of all the
  samples in order, as many as were subscribed for; only the oldest have been dropped. A queue that
  is longer, because the event was subscribed again for fewer, keeps its length: a push drops one.
\<close>

theorem queue_keeps_newest:
  assumes "ev_state ev = SubscriptionState.kSubscribed" and "ev_sampleQueue ev \<noteq> [] \<or> 0 < ev_maxSamples ev"
  shows "map_sum id ev_sampleQueue (push_seq ss ev) =
    Inr (drop (length (ev_sampleQueue ev) + length ss - max (ev_maxSamples ev) (length (ev_sampleQueue ev)))
      (ev_sampleQueue ev @ ss))"
  using assms by (simp add: push_seq_fold samples.push_all)

definition demo_sample :: "u8 \<Rightarrow> VehicleSignalSample" where
  "demo_sample n = \<lparr>vs_vehicleSpeedKmh = 0x42480000, vs_engineRpm = 0x44FA0000, vs_brakePedal = True,
     vs_steeringAngleDeg = 0, vs_doorStatus = 1, vs_fuelLevelPct = 0x42960000, vs_e2eCrc = 0,
     vs_e2eCounter = n, vs_sessionId = ucast n\<rparr>"

theorem queue_keeps_newest_witness:
  "map_sum id ev_sampleQueue (push_seq [demo_sample 1, demo_sample 2, demo_sample 3]
      (Ev_Subscribe 2 VehicleSignalEvent_new)) = Inr [demo_sample 2, demo_sample 3]"
  using queue_keeps_newest [of "Ev_Subscribe 2 VehicleSignalEvent_new"
      "[demo_sample 1, demo_sample 2, demo_sample 3]"]
  by (simp add: Ev_Subscribe_def VehicleSignalEvent_new_def)

text \<open>
  A push reaches \<open>pop\<close> on an empty queue, which is undefined behaviour, exactly when the
  event is subscribed for zero samples and its queue is empty.
\<close>

theorem push_faults_iff:
  "PushSample s ev = Inl e \<longleftrightarrow>
     e = EmptyPop \<and> ev_state ev = SubscriptionState.kSubscribed \<and> ev_maxSamples ev = 0 \<and>
     ev_sampleQueue ev = []"
  by (auto simp: PushSample_def obind_def split: list.splits)

text \<open>The calls on an event, with everything pushed while subscribed and everything pulled.\<close>

record ev_world =
  xw_ev :: VehicleSignalEvent
  xw_pushed :: "VehicleSignalSample list"
  xw_pulled :: "VehicleSignalSample list"

datatype ev_op =
    EvSubscribe nat | EvUnsubscribe | EvHandler "callback option" | EvPull nat
  | EvPush VehicleSignalSample

fun ev_step :: "ev_world outcome \<Rightarrow> ev_op \<Rightarrow> ev_world outcome" where
  "ev_step w (EvSubscribe n) = map_sum id (\<lambda>w. w\<lparr>xw_ev := Ev_Subscribe n (xw_ev w)\<rparr>) w"
| "ev_step w EvUnsubscribe = map_sum id (\<lambda>w. w\<lparr>xw_ev := Ev_Unsubscribe (xw_ev w)\<rparr>) w"
| "ev_step w (EvHandler h) = map_sum id (\<lambda>w. w\<lparr>xw_ev := SetReceiveHandler h (xw_ev w)\<rparr>) w"
| "ev_step w (EvPull n) = map_sum id (\<lambda>w. case GetNewSamples n (xw_ev w) of (_, out, ev) \<Rightarrow>
     w\<lparr>xw_ev := ev, xw_pulled := xw_pulled w @ out\<rparr>) w"
| "ev_step w (EvPush s) = obind w (\<lambda>w. obind (PushSample s (xw_ev w)) (\<lambda>(_, ev).
     Inr (w\<lparr>xw_ev := ev, xw_pushed := xw_pushed w @ [s]\<rparr>)))"

definition in_order :: "ev_world outcome \<Rightarrow> bool" where
  "in_order r \<longleftrightarrow> (case r of Inl _ \<Rightarrow> True
     | Inr w \<Rightarrow> subseq (xw_pulled w @ ev_sampleQueue (xw_ev w)) (xw_pushed w))"

lemma in_order_push:
  assumes "subseq (out @ ev_sampleQueue ev) xs" and "PushSample s ev = Inr (cs, ev')"
  shows "subseq (out @ ev_sampleQueue ev') (xs @ [s])"
proof (cases "ev_state ev = SubscriptionState.kSubscribed")
  case True
  have ne: "ev_sampleQueue ev \<noteq> [] \<or> 0 < ev_maxSamples ev"
    using assms(2) True by (auto simp: PushSample_def split: if_splits)
  have "ev_sampleQueue (push_subscribed s ev) = ev_sampleQueue ev'"
    using assms(2) True by (cases ev) (simp add: push_subscribed_def)
  with samples.push_subseq [OF ne assms(1), of s] show ?thesis by simp
next
  case False
  with assms show ?thesis
    by (auto simp: PushSample_def intro: subseq_order.order_trans list_emb_append2
        [where ys = xs and zs = "[s]", OF subseq_order.order_refl])
qed

lemma ev_step_in_order: "in_order r \<Longrightarrow> in_order (ev_step r op)"
proof (cases r)
  case (Inr w)
  then show "in_order r \<Longrightarrow> in_order (ev_step r op)"
    by (cases op)
      (auto simp: in_order_def Ev_Subscribe_def Ev_Unsubscribe_def SetReceiveHandler_def GetNewSamples_eq
        obind_def intro: in_order_push split: sum.split)
next
  case (Inl e)
  then show "in_order r \<Longrightarrow> in_order (ev_step r op)"
    by (cases op) (simp_all add: in_order_def)
qed

interpretation event_calls: invariant_step ev_step in_order
  by unfold_locales (rule ev_step_in_order)

text \<open>
  Whatever the order of subscribing, unsubscribing, pushing and pulling, the samples pulled
  so far followed by those still queued are a subsequence of the samples pushed: none is
  delivered twice, none out of order, and none is made up.
\<close>

theorem samples_delivered_in_order:
  "case run ev_step (Inr \<lparr>xw_ev = VehicleSignalEvent_new, xw_pushed = [], xw_pulled = []\<rparr>) ops of
     Inl e \<Rightarrow> e = EmptyPop
   | Inr w \<Rightarrow> subseq (xw_pulled w @ ev_sampleQueue (xw_ev w)) (xw_pushed w)"
proof -
  let ?start = "Inr \<lparr>xw_ev = VehicleSignalEvent_new, xw_pushed = [], xw_pulled = []\<rparr>"
  have "in_order (run ev_step ?start ops)"
    by (rule event_calls.run_inv) (simp add: in_order_def VehicleSignalEvent_new_def)
  moreover have "run ev_step r ops = Inl e \<longrightarrow> (\<forall>e'. r = Inl e' \<longrightarrow> e' = EmptyPop) \<longrightarrow> e = EmptyPop" for r e
  proof (induction ops arbitrary: r)
    case (Cons op ops)
    have "ev_step r op = Inl e' \<Longrightarrow> \<forall>e'. r = Inl e' \<longrightarrow> e' = EmptyPop \<Longrightarrow> e' = EmptyPop" for e'
      by (cases op; cases r) (auto simp: obind_eq_Inl PushSample_def split: list.splits if_splits)
    with Cons show ?case by auto
  qed simp
  ultimately show ?thesis by (auto simp: in_order_def split: sum.splits)
qed


section \<open>What the parser promises\<close>

text \<open>The wire form of a sample, as the sender of the signals writes it.\<close>

definition le4_bytes :: "u32 \<Rightarrow> u8 list" where
  "le4_bytes v = [ucast v, ucast (drop_bit 8 v), ucast (drop_bit 16 v), ucast (drop_bit 24 v)]"

definition signal_bytes :: "VehicleSignalSample \<Rightarrow> u8 list" where
  "signal_bytes s = le4_bytes (vs_vehicleSpeedKmh s) @ le4_bytes (vs_engineRpm s) @
     [if vs_brakePedal s then 1 else 0] @ le4_bytes (vs_steeringAngleDeg s) @
     [vs_doorStatus s] @ le4_bytes (vs_fuelLevelPct s)"

definition signal_payload :: "VehicleSignalSample \<Rightarrow> u8 list" where
  "signal_payload s = signal_bytes s @ [e2e_crc8 (signal_bytes s), vs_e2eCounter s]"

definition is_event :: "SomeIpMessage \<Rightarrow> bool" where
  "is_event msg \<longleftrightarrow> sh_serviceId (header msg) = SVC_ID_VEHICLE_SIGNAL \<and>
     sh_methodId (header msg) = VEHICLE_SIGNAL_EVT_ID \<and>
     sh_msgType (header msg) = SOMEIP_MSG_NOTIFICATION \<and>
     20 \<le> length (payload msg) \<and> length (payload msg) + 16 < 2 ^ 32"

definition e2e_ok :: "u8 list \<Rightarrow> bool" where
  "e2e_ok pl \<longleftrightarrow> pl ! 18 = e2e_crc8 (take 18 pl)"

definition count_e2e_error :: "VehicleSignalProxy \<Rightarrow> VehicleSignalProxy" where
  "count_e2e_error p = p\<lparr>vp_stats := (vp_stats p)\<lparr>st_e2eErrors := st_e2eErrors (vp_stats p) + 1\<rparr>\<rparr>"

definition dispatch ::
  "VehicleSignalSample \<Rightarrow> VehicleSignalProxy \<Rightarrow>
   (bool \<times> (callback \<times> VehicleSignalSample) list \<times> VehicleSignalProxy) outcome" where
  "dispatch s p = obind (PushSample s (vp_VehicleSignal p))
     (\<lambda>(calls, ev). Inr (True, calls, p\<lparr>vp_VehicleSignal := ev\<rparr>))"

lemma Parse_event:
  assumes "is_event msg"
  shows "ParseAndDispatch (Serialize msg) p =
    (if e2e_ok (payload msg)
     then dispatch (sample_of_payload (payload_of_bytes (take 20 (payload msg))) (sh_sessionId (header msg))) p
     else Inr (False, [], count_e2e_error p))"
proof -
  let ?n = "length (payload msg)"
  note f = Serialize_fields [of msg "[]", simplified]
  have n: "?n + 16 < 2 ^ 32" "20 \<le> ?n" using assms by (simp_all add: is_event_def)
  have u: "unat (of_nat (8 + ?n) :: u32) = 8 + ?n" "unat (of_nat ?n :: u32) = ?n"
    "unat (of_nat (16 + ?n) :: u32) = 16 + ?n"
    using n by (auto intro: unat_of_nat_u32 simp del: of_nat_add)
  have g: "(8 :: u32) \<le> 8 + of_nat ?n" using u(1) by (simp add: word_le_nat_alt)
  have l: "length (Serialize msg) = 16 + ?n" using f(11) by simp
  have crc: "take 20 (payload msg) ! 18 = payload msg ! 18" using n by simp
  have t: "min 20 (18 :: nat) = 18" "min (18 :: nat) 20 = 18" by simp_all
  from assms n u g l f show ?thesis
    by (simp add: ParseAndDispatch_def is_event_def e2e_ok_def dispatch_def count_e2e_error_def
        payload_of_bytes_def crc t Let_def)
qed

lemma le4_bytes_bits:
  fixes v :: u32
  shows "((ucast (ucast v :: u8) OR push_bit 8 (ucast (ucast (drop_bit 8 v) :: u8))) OR
     push_bit 16 (ucast (ucast (drop_bit 16 v) :: u8))) OR
     push_bit 24 (ucast (ucast (drop_bit 24 v) :: u8)) = v" (is "?l = v")
proof (rule bit_word_eqI)
  fix n assume "n < LENGTH(32)"
  then show "bit ?l n = bit v n"
    by (rule u32_bit_cases) (simp_all add: bit_simps)
qed

interpretation le32: field_codec le4_bytes le4 4
proof
  fix v and xs ys :: "u8 list"
  show "length (le4_bytes v) = 4" by (simp add: le4_bytes_def)
  show "le4 (xs @ le4_bytes v @ ys) (length xs) = v"
    using le4_bytes_bits [of v] by (simp add: le4_def le4_bytes_def nth_append)
qed

lemma length_signal_bytes [simp]: "length (signal_bytes s) = 18"
  by (simp add: signal_bytes_def le32.length_put)

lemma payload_of_signal:
  "sample_of_payload (payload_of_bytes (signal_payload s)) i =
     s\<lparr>vs_e2eCrc := e2e_crc8 (signal_bytes s), vs_sessionId := i\<rparr>"
proof -
  let ?v = "le4_bytes (vs_vehicleSpeedKmh s)" and ?r = "le4_bytes (vs_engineRpm s)"
    and ?b = "[if vs_brakePedal s then 1 else 0]" and ?a = "le4_bytes (vs_steeringAngleDeg s)"
    and ?d = "[vs_doorStatus s]" and ?f = "le4_bytes (vs_fuelLevelPct s)"
    and ?e = "[e2e_crc8 (signal_bytes s), vs_e2eCounter s]"
  have w: "signal_payload s = ?v @ ?r @ ?b @ ?a @ ?d @ ?f @ ?e"
    by (simp add: signal_payload_def signal_bytes_def)
  note len = length_append le32.length_put list.size
  have "le4 (signal_payload s) 0 = vs_vehicleSpeedKmh s"
    unfolding w by (rule le32.get_here)
  moreover have "le4 (signal_payload s) 4 = vs_engineRpm s"
    unfolding w by (rule le32.get_at) (simp add: len)
  moreover have "signal_payload s ! 8 = (if vs_brakePedal s then 1 else 0)"
    using byte.get_at [of "?v @ ?r" 8] unfolding w by (simp add: len)
  moreover have "le4 (signal_payload s) 9 = vs_steeringAngleDeg s"
    using le32.get_at [of "?v @ ?r @ ?b" 9] unfolding w by (simp add: len)
  moreover have "signal_payload s ! 13 = vs_doorStatus s"
    using byte.get_at [of "?v @ ?r @ ?b @ ?a" 13] unfolding w by (simp add: len)
  moreover have "le4 (signal_payload s) 14 = vs_fuelLevelPct s"
    using le32.get_at [of "?v @ ?r @ ?b @ ?a @ ?d" 14] unfolding w by (simp add: len)
  moreover have "signal_payload s ! 18 = e2e_crc8 (signal_bytes s)" "signal_payload s ! 19 = vs_e2eCounter s"
    by (simp_all add: signal_payload_def nth_append)
  ultimately show ?thesis
    by (cases s) (simp add: payload_of_bytes_def sample_of_payload_def)
qed

lemma signal_payload_ok: "length (signal_payload s) = 20" "e2e_ok (signal_payload s)"
  by (simp_all add: signal_payload_def e2e_ok_def nth_append)

text \<open>
  C9: a notification that carries the wire form of a sample arrives as that sample: the parser
  accepts it and pushes the same signal values and counter, with the session id of the header and
  the checksum of the frame, to the event, and the statistics of errors do not change.
\<close>

theorem event_arrives:
  assumes "is_event msg" and "payload msg = signal_payload s"
  shows "ParseAndDispatch (Serialize msg) p =
    obind (PushSample (s\<lparr>vs_e2eCrc := e2e_crc8 (signal_bytes s), vs_sessionId := sh_sessionId (header msg)\<rparr>)
             (vp_VehicleSignal p))
      (\<lambda>(calls, ev). Inr (True, calls, p\<lparr>vp_VehicleSignal := ev\<rparr>))"
  using assms(2) signal_payload_ok [of s] payload_of_signal [of s]
  by (simp add: Parse_event [OF assms(1)] dispatch_def)

definition event_message :: "u16 \<Rightarrow> u8 list \<Rightarrow> SomeIpMessage" where
  "event_message session pl = \<lparr>header = \<lparr>sh_serviceId = SVC_ID_VEHICLE_SIGNAL,
     sh_methodId = VEHICLE_SIGNAL_EVT_ID, sh_length = 0, sh_clientId = 0, sh_sessionId = session,
     sh_protoVersion = 1, sh_ifaceVersion = 1, sh_msgType = SOMEIP_MSG_NOTIFICATION,
     sh_returnCode = 0\<rparr>, payload = pl\<rparr>"

definition demo_proxy :: VehicleSignalProxy where
  "demo_proxy = (VehicleSignalProxy_ctor 3 0)
     \<lparr>vp_VehicleSignal := Ev_Subscribe 2 (SetReceiveHandler (Some 5) VehicleSignalEvent_new)\<rparr>"

theorem event_arrives_witness:
  "map_sum id (\<lambda>(b, calls, _). (b, map fst calls))
     (ParseAndDispatch (Serialize (event_message 77 (signal_payload (demo_sample 9)))) demo_proxy)
   = Inr (True, [5])"
proof -
  have "is_event (event_message 77 (signal_payload (demo_sample 9)))"
    by (simp add: is_event_def event_message_def signal_payload_ok)
  from event_arrives [OF this, of "demo_sample 9"] show ?thesis
    by (simp add: event_message_def demo_proxy_def VehicleSignalProxy_ctor_def Ev_Subscribe_def
        SetReceiveHandler_def VehicleSignalEvent_new_def PushSample_def Let_def)
qed

text \<open>
  C10: if any one of the 18 protected bytes of an accepted frame is changed in transit, the frame
  is rejected: the checksum error is counted and the event is left as it was.
\<close>

theorem corrupted_event_rejected:
  assumes "is_event msg" and "payload msg = xs @ b # ys" and "length xs < 18"
    and "e2e_ok (payload msg)" and "b' \<noteq> b"
  shows "ParseAndDispatch (Serialize (msg\<lparr>payload := xs @ b' # ys\<rparr>)) p =
    Inr (False, [], count_e2e_error p)"
proof -
  have "is_event (msg\<lparr>payload := xs @ b' # ys\<rparr>)" using assms(1,2) by (simp add: is_event_def)
  moreover have "\<not> e2e_ok (xs @ b' # ys)"
  proof -
    obtain k where k: "18 - length xs = Suc k" using assms(3) by (cases "18 - length xs") auto
    then have e: "18 = length xs + Suc k" by simp
    have "(xs @ c # ys) ! 18 = ys ! k" "take 18 (xs @ c # ys) = xs @ c # take k ys" for c
      unfolding e by (simp_all add: nth_append)
    moreover have "e2e_crc8 (xs @ b # take k ys) \<noteq> e2e_crc8 (xs @ b' # take k ys)"
      using assms(5) by (simp only: e2e_crc8_def word_xor_cancel crc8.foldl_feed_byte)
    ultimately show ?thesis using assms(2,4) by (simp add: e2e_ok_def)
  qed
  ultimately show ?thesis by (simp add: Parse_event)
qed

theorem corrupted_event_rejected_witness:
  "let pl = signal_payload (demo_sample 9) in
   ParseAndDispatch (Serialize ((event_message 77 pl)\<lparr>payload := [] @ 255 # tl pl\<rparr>)) demo_proxy =
     Inr (False, [], count_e2e_error demo_proxy)"
proof -
  let ?pl = "signal_payload (demo_sample 9)"
  have "is_event (event_message 77 ?pl)"
    by (simp add: is_event_def event_message_def signal_payload_ok)
  moreover have "payload (event_message 77 ?pl) = [] @ hd ?pl # tl ?pl" "255 \<noteq> hd ?pl"
    by code_simp+
  moreover have "e2e_ok (payload (event_message 77 ?pl))"
    by (simp add: event_message_def signal_payload_ok)
  ultimately show ?thesis
    using corrupted_event_rejected [of "event_message 77 ?pl" "[]" "hd ?pl" "tl ?pl" 255]
    by (simp add: Let_def)
qed

text \<open>
  The end-to-end counter is outside the checksum: a frame whose counter byte is replaced by
  any other value is accepted whenever the original is, and delivers the sample with the counter
  replaced, so repeated or reordered frames can be passed off as fresh ones.
\<close>

theorem counter_not_protected:
  assumes "is_event msg" and "payload msg = xs @ [c]" and "length xs = 19"
    and "e2e_ok (payload msg)"
  shows "ParseAndDispatch (Serialize (msg\<lparr>payload := xs @ [c']\<rparr>)) p =
    dispatch ((sample_of_payload (payload_of_bytes (payload msg)) (sh_sessionId (header msg)))
      \<lparr>vs_e2eCounter := c'\<rparr>) p"
proof -
  have "is_event (msg\<lparr>payload := xs @ [c']\<rparr>)" using assms(1,2) by (simp add: is_event_def)
  moreover have "e2e_ok (xs @ [c'])" using assms(2-4) by (simp add: e2e_ok_def nth_append)
  moreover have "sample_of_payload (payload_of_bytes (xs @ [c'])) i =
      (sample_of_payload (payload_of_bytes (xs @ [c])) i)\<lparr>vs_e2eCounter := c'\<rparr>" for i
    using assms(3) by (simp add: sample_of_payload_def payload_of_bytes_def le4_def nth_append)
  ultimately show ?thesis using assms(2,3) by (simp add: Parse_event)
qed

theorem counter_not_protected_witness:
  "let pl = signal_payload (demo_sample 9) in
   ParseAndDispatch (Serialize ((event_message 77 pl)\<lparr>payload := butlast pl @ [200]\<rparr>)) demo_proxy =
   dispatch ((sample_of_payload (payload_of_bytes pl) 77)\<lparr>vs_e2eCounter := 200\<rparr>) demo_proxy"
proof -
  let ?pl = "signal_payload (demo_sample 9)"
  have "is_event (event_message 77 ?pl)"
    by (simp add: is_event_def event_message_def signal_payload_ok)
  moreover have "payload (event_message 77 ?pl) = butlast ?pl @ [9]" "length (butlast ?pl) = 19"
    by code_simp+
  moreover have "e2e_ok (payload (event_message 77 ?pl))"
    by (simp add: event_message_def signal_payload_ok)
  ultimately show ?thesis
    using counter_not_protected [of "event_message 77 ?pl" "butlast ?pl" 9 200]
    by (simp add: Let_def event_message_def)
qed


section \<open>What the statistics promise\<close>

fun rx_run :: "u8 list option list \<Rightarrow> VehicleSignalProxy \<Rightarrow> VehicleSignalProxy outcome" where
  "rx_run [] p = Inr p"
| "rx_run (i # is) p = obind (rx_round i p) (\<lambda>(_, _, p'). rx_run is p')"

definition received :: "u8 list option list \<Rightarrow> u8 list list" where
  "received is = List.map_filter id is"

text \<open>Packets, bytes, checksum errors and rejected frames, as numbers.\<close>

definition stats_are :: "nat \<Rightarrow> nat \<Rightarrow> nat \<Rightarrow> nat \<Rightarrow> VehicleSignalProxy \<Rightarrow> bool" where
  "stats_are n b e q p \<longleftrightarrow> vp_stats p = \<lparr>st_rxPackets = of_nat n, st_rxBytes = of_nat b,
     st_e2eErrors = of_nat e, st_parseErrors = of_nat q\<rparr>"

lemma ParseAndDispatch_stats:
  assumes "ParseAndDispatch buf p = Inr (good, calls, p')" and "stats_are n b e q p"
  shows "stats_are n b e q p' \<or> \<not> good \<and> stats_are n b (e + 1) q p'"
  using assms
  by (auto simp: ParseAndDispatch_def Let_def stats_are_def obind_eq_Inr case_prod_beta
      split: if_splits)

lemma rx_round_stats:
  assumes "rx_round (Some buf) p = Inr (log, calls, p')" and "stats_are n b e q p" and "e \<le> q"
  shows "\<exists>e' q'. e' \<le> q' \<and> q' \<le> q + 1 \<and> stats_are (n + 1) (b + length buf) e' q' p'"
proof -
  let ?p = "p\<lparr>vp_stats := (vp_stats p)\<lparr>st_rxPackets := st_rxPackets (vp_stats p) + 1,
                     st_rxBytes := st_rxBytes (vp_stats p) + of_nat (length buf)\<rparr>\<rparr>"
  have sp: "stats_are (n + 1) (b + length buf) e q ?p" using assms(2) by (simp add: stats_are_def)
  obtain good p1 where parse: "ParseAndDispatch buf ?p = Inr (good, calls, p1)"
    and p': "p' = (if good then p1
      else p1\<lparr>vp_stats := (vp_stats p1)\<lparr>st_parseErrors := st_parseErrors (vp_stats p1) + 1\<rparr>\<rparr>)"
    using assms(1) by (auto simp: rx_round_def Let_def obind_eq_Inr)
  have up: "stats_are m c d (q + 1) (p1\<lparr>vp_stats := (vp_stats p1)\<lparr>st_parseErrors := st_parseErrors (vp_stats p1) + 1\<rparr>\<rparr>)"
    if "stats_are m c d q p1" for m c d using that by (simp add: stats_are_def)
  from ParseAndDispatch_stats [OF parse sp] show ?thesis
  proof
    assume s: "stats_are (n + 1) (b + length buf) e q p1"
    show ?thesis
    proof (cases good)
      case True
      with s assms(3) show ?thesis by (intro exI [of _ e] exI [of _ q]) (simp add: p')
    next
      case False
      with up [OF s] assms(3) show ?thesis by (intro exI [of _ e] exI [of _ "q + 1"]) (simp add: p')
    qed
  next
    assume s: "\<not> good \<and> stats_are (n + 1) (b + length buf) (e + 1) q p1"
    with up [of "n + 1" "b + length buf" "e + 1"] assms(3) show ?thesis
      by (intro exI [of _ "e + 1"] exI [of _ "q + 1"]) (simp add: p')
  qed
qed

lemma rx_run_stats:
  assumes "rx_run is p = Inr p'" and "stats_are n b e q p" and "e \<le> q" and "q \<le> n"
  shows "\<exists>e' q'. e' \<le> q' \<and> q' \<le> n + length (received is) \<and>
    stats_are (n + length (received is)) (b + length (concat (received is))) e' q' p'"
  using assms
proof (induction "is" arbitrary: p n b e q)
  case Nil
  then show ?case by (auto simp: received_def map_filter_def)
next
  case (Cons i "is")
  show ?case
  proof (cases i)
    case None
    with Cons show ?thesis by (auto simp: rx_round_def received_def map_filter_def)
  next
    case (Some buf)
    with Cons.prems(1) obtain log calls p1 where r: "rx_round (Some buf) p = Inr (log, calls, p1)"
      and rest: "rx_run is p1 = Inr p'" by (auto simp: obind_eq_Inr)
    obtain e1 q1 where "e1 \<le> q1" "q1 \<le> n + 1" "stats_are (n + 1) (b + length buf) e1 q1 p1"
      using rx_round_stats [OF r Cons.prems(2,3)] Cons.prems(4) by (meson add_le_mono1 le_trans)
    from Cons.IH [OF rest this(3,1,2)] Some show ?thesis
      by (simp add: received_def map_filter_def ac_simps)
  qed
qed

text \<open>
  After any rounds of the receive thread the packet and byte counters are the number of
  frames received and of their bytes, and every checksum error has also been counted as a parse
  error: the checksum errors are at most the parse errors, and these at most the frames.
\<close>

theorem rx_statistics:
  assumes "rx_run is (VehicleSignalProxy_ctor fd bound) = Inr p"
  shows "\<exists>e q. e \<le> q \<and> q \<le> length (received is) \<and>
    GetStats p = \<lparr>st_rxPackets = of_nat (length (received is)),
      st_rxBytes = of_nat (length (concat (received is))), st_e2eErrors = of_nat e,
      st_parseErrors = of_nat q\<rparr>"
proof -
  have "stats_are 0 0 0 0 (VehicleSignalProxy_ctor fd bound)"
    by (simp add: stats_are_def VehicleSignalProxy_ctor_def Stats_zero_def Let_def)
  from rx_run_stats [OF assms this] show ?thesis by (simp add: stats_are_def GetStats_def)
qed

definition demo_rounds :: "u8 list option list" where
  "demo_rounds = [Some [1, 2], None, Some (Serialize (event_message 1 (signal_payload (demo_sample 1)))),
     Some (Serialize (event_message 1 (0 # tl (signal_payload (demo_sample 1)))))]"

theorem rx_statistics_witness:
  "\<exists>p e q. rx_run demo_rounds (VehicleSignalProxy_ctor 3 0) = Inr p \<and> e \<le> q \<and> q \<le> 3 \<and>
    GetStats p = \<lparr>st_rxPackets = 3, st_rxBytes = 74, st_e2eErrors = of_nat e, st_parseErrors = of_nat q\<rparr>"
proof -
  obtain p where p: "rx_run demo_rounds (VehicleSignalProxy_ctor 3 0) = Inr p"
  proof -
    have "case rx_run demo_rounds (VehicleSignalProxy_ctor 3 0) of Inr _ \<Rightarrow> True | Inl _ \<Rightarrow> False"
      by code_simp
    then show ?thesis using that by (auto split: sum.splits)
  qed
  have "length (received demo_rounds) = 3" "length (concat (received demo_rounds)) = 74"
    by code_simp+
  with rx_statistics [OF p] p show ?thesis by auto
qed

end
