(* ===== verification/Platform.thy ===== *)
theory Platform
  imports Nm Phm Sm Logging ServiceDiscovery
begin

text \<open>
  The process-wide singletons the application components share: what \<open>GetInstance()\<close> of network
  management, health management, state management and service discovery refers to, with the
  function group objects and the text printed so far. The invocations of registered callbacks
  are collected in order, as are the lines printed.
\<close>

record Platform =
  pf_nm :: NetworkManagement
  pf_phm :: PlatformHealthManagement
  pf_sm :: StateManagement
  pf_fgs :: fg_heap
  pf_sd :: SomeIpServiceDiscovery
  pf_net_calls :: "NmNotification list"
  pf_machine_calls :: machine_calls
  pf_fg_calls :: fg_calls
  pf_sd_calls :: sd_calls
  pf_out :: "string list"

definition Platform_start :: Platform where
  "Platform_start = \<lparr>pf_nm = NetworkManagement_new, pf_phm = Phm_new, pf_sm = StateManagement_new,
     pf_fgs = [], pf_sd = SomeIpServiceDiscovery_new, pf_net_calls = [], pf_machine_calls = [],
     pf_fg_calls = [], pf_sd_calls = [], pf_out = []\<rparr>"

section \<open>Calls on the singletons\<close>

definition on_phm :: "(PlatformHealthManagement \<Rightarrow> PlatformHealthManagement) \<Rightarrow> Platform \<Rightarrow> Platform" where
  "on_phm f pf = pf\<lparr>pf_phm := f (pf_phm pf)\<rparr>"

definition on_sm :: "(StateManagement \<Rightarrow> StateManagement \<times> machine_calls) \<Rightarrow> Platform \<Rightarrow> Platform" where
  "on_sm f pf = pf\<lparr>pf_sm := fst (f (pf_sm pf)), pf_machine_calls := pf_machine_calls pf @ snd (f (pf_sm pf))\<rparr>"

definition on_sd ::
  "(SomeIpServiceDiscovery \<Rightarrow> SomeIpServiceDiscovery \<times> sd_calls) \<Rightarrow> Platform \<Rightarrow> Platform" where
  "on_sd f pf = pf\<lparr>pf_sd := fst (f (pf_sd pf)), pf_sd_calls := pf_sd_calls pf @ snd (f (pf_sd pf))\<rparr>"

definition print :: "string \<Rightarrow> Platform \<Rightarrow> Platform" where
  "print t pf = pf\<lparr>pf_out := pf_out pf @ [t]\<rparr>"

text \<open>\<open>if (fg) fg->RequestStateChange(s)\<close>.\<close>

definition request_group :: "fg_ptr \<Rightarrow> FunctionGroupState \<Rightarrow> Platform \<Rightarrow> Platform" where
  "request_group p s pf =
     (case p of
        None \<Rightarrow> pf
      | Some i \<Rightarrow> (case RequestStateChange s (pf_fgs pf ! i) of (_, fg, calls) \<Rightarrow>
          pf\<lparr>pf_fgs := (pf_fgs pf)[i := fg], pf_fg_calls := pf_fg_calls pf @ calls\<rparr>))"

definition request_machine :: "MachineState \<Rightarrow> Platform \<Rightarrow> Platform" where
  "request_machine t = on_sm (\<lambda>sm. snd (RequestMachineStateChange t sm))"

definition trigger_error :: "string \<Rightarrow> Platform \<Rightarrow> Platform" where
  "trigger_error reason pf =
     on_sm (\<lambda>sm. snd (TriggerErrorState reason sm)) (print (fst (TriggerErrorState reason (pf_sm pf))) pf)"

definition initialize_sm :: "Platform \<Rightarrow> Platform" where
  "initialize_sm pf =
     (let (_, h, sm) = Sm_Initialize (pf_fgs pf) (pf_sm pf) in pf\<lparr>pf_fgs := h, pf_sm := sm\<rparr>)"

definition report_state :: "ExecutionState \<Rightarrow> Platform \<Rightarrow> Platform" where
  "report_state s = print (fst (ReportExecutionState s))"

abbreviation machine_state :: "Platform \<Rightarrow> MachineState" where
  "machine_state pf \<equiv> GetCurrentMachineState (pf_sm pf)"

lemmas platform_defs = on_phm_def on_sm_def on_sd_def print_def request_machine_def trigger_error_def
  report_state_def

lemma Platform_frames [simp]:
  "pf_sm (on_phm f pf) = pf_sm pf" "pf_fgs (on_phm f pf) = pf_fgs pf" "pf_phm (on_phm f pf) = f (pf_phm pf)"
  "pf_nm (on_phm f pf) = pf_nm pf" "pf_sd (on_phm f pf) = pf_sd pf" "pf_out (on_phm f pf) = pf_out pf"
  "pf_phm (print t pf) = pf_phm pf" "pf_sm (print t pf) = pf_sm pf" "pf_fgs (print t pf) = pf_fgs pf"
  "pf_nm (print t pf) = pf_nm pf" "pf_sd (print t pf) = pf_sd pf"
  "pf_phm (on_sd g pf) = pf_phm pf" "pf_sm (on_sd g pf) = pf_sm pf" "pf_fgs (on_sd g pf) = pf_fgs pf"
  "pf_nm (on_sd g pf) = pf_nm pf" "pf_sd (on_sd g pf) = fst (g (pf_sd pf))"
  "pf_phm (on_sm k pf) = pf_phm pf" "pf_nm (on_sm k pf) = pf_nm pf" "pf_sd (on_sm k pf) = pf_sd pf"
  "pf_fgs (on_sm k pf) = pf_fgs pf" "pf_sm (on_sm k pf) = fst (k (pf_sm pf))"
  "pf_phm (request_group p s pf) = pf_phm pf" "pf_sm (request_group p s pf) = pf_sm pf"
  "pf_nm (request_group p s pf) = pf_nm pf" "pf_sd (request_group p s pf) = pf_sd pf"
  by (simp_all add: platform_defs request_group_def case_prod_beta split: option.split)

lemma machine_after_request:
  "machine_state (request_machine t pf) =
     (if machine_state pf = t \<or> sm_edge (machine_state pf) t then t else machine_state pf)"
  by (simp add: request_machine_def on_sm_def RequestMachineStateChange_cases GetCurrentMachineState_def)

lemma machine_after_trigger: "machine_state (trigger_error r pf) = MachineState.kError"
  by (simp add: trigger_error_def on_sm_def print_def TriggerErrorState_def
      RequestMachineStateChange_cases GetCurrentMachineState_def sm_edge_to)

lemma trigger_error_phm [simp]: "pf_phm (trigger_error r pf) = pf_phm pf"
  by (simp add: trigger_error_def)

lemma request_machine_phm [simp]: "pf_phm (request_machine t pf) = pf_phm pf"
  by (simp add: request_machine_def)

lemma initialize_sm_frames [simp]:
  "pf_phm (initialize_sm pf) = pf_phm pf" "machine_state (initialize_sm pf) = machine_state pf"
  by (simp_all add: initialize_sm_def case_prod_beta Let_def GetCurrentMachineState_def Sm_Initialize_machine)

lemma report_state_frames [simp]:
  "pf_phm (report_state s pf) = pf_phm pf" "pf_sm (report_state s pf) = pf_sm pf"
  "pf_nm (report_state s pf) = pf_nm pf" "pf_sd (report_state s pf) = pf_sd pf"
  by (simp_all add: report_state_def)

end
