(* ===== verification/SafetyMonitor.thy ===== *)
theory SafetyMonitor
  imports Platform
begin

text \<open>
  The safety monitor: src/application/SwcSafetyMonitor/SafetyMonitorService.h and .cpp. It kicks
  the watchdog, reads the health status and the safety status of the MCU, and escalates the
  safety level, acting on state management. Its mutable state is a record; the singletons are the
  \<open>Platform\<close>. A call that reads the clock several times takes the readings as a function of the
  number of the reading. The MCU status is not initialised by the constructor and the watchdog
  field of a snapshot never is: their indeterminate values are arguments. The enumerator
  \<open>ExecutionState::kTerminating\<close> that \<open>Shutdown\<close> names is declared nowhere; its value is an
  argument too.
\<close>

section \<open>Data\<close>

datatype SafetyLevel =
  kLevel0_Normal | kLevel1_Degraded | kLevel2_MinRisk | kLevel3_SafeStop | kLevel4_Emergency

fun safety_u8 :: "SafetyLevel \<Rightarrow> u8" where
  "safety_u8 kLevel0_Normal = 0"
| "safety_u8 kLevel1_Degraded = 1"
| "safety_u8 kLevel2_MinRisk = 2"
| "safety_u8 kLevel3_SafeStop = 3"
| "safety_u8 kLevel4_Emergency = 4"

lemma safety_u8_inj: "safety_u8 a = safety_u8 b \<Longrightarrow> a = b"
  by (cases a; cases b) simp_all

instantiation SafetyLevel :: linorder
begin

definition less_eq_SafetyLevel :: "SafetyLevel \<Rightarrow> SafetyLevel \<Rightarrow> bool" where
  "less_eq_SafetyLevel a b \<longleftrightarrow> safety_u8 a \<le> safety_u8 b"

definition less_SafetyLevel :: "SafetyLevel \<Rightarrow> SafetyLevel \<Rightarrow> bool" where
  "less_SafetyLevel a b \<longleftrightarrow> safety_u8 a < safety_u8 b"

instance
  by intro_classes (auto simp: less_eq_SafetyLevel_def less_SafetyLevel_def intro: safety_u8_inj)

end

record McuSafetyStatus =
  mc_safetyLevel :: SafetyLevel
  mc_wdgStatus :: u8
  mc_asil_dViolation :: bool
  mc_faultCode :: u8
  mc_timestampMs :: u32
  mc_e2eCounter :: u8

record SocSafetySnapshot =
  sn_socLevel :: SafetyLevel
  sn_mcuLevel :: SafetyLevel
  sn_systemLevel :: SafetyLevel
  sn_phmStatus :: GlobalSupervisionStatus
  sn_lastWdgKickMs :: u32
  sn_ipcConnected :: bool

record SafetyMonitor =
  sf_currentLevel :: SafetyLevel
  sf_lastMcuStatus :: McuSafetyStatus
  sf_safetyLevelCallback :: "callback option"
  sf_running :: bool
  sf_lastWdgKick :: time_point
  sf_supervisedEntity :: "SupervisedEntity option"

type_synonym level_calls = "(callback \<times> SafetyLevel \<times> string) list"
type_synonym safety_state = "SafetyMonitor \<times> Platform \<times> level_calls"
type_synonym readings = "nat \<Rightarrow> time_point"

definition SafetyMonitor_ctor :: "time_point \<Rightarrow> McuSafetyStatus \<Rightarrow> SafetyMonitor" where
  "SafetyMonitor_ctor now indeterminate =
     \<lparr>sf_currentLevel = kLevel0_Normal, sf_lastMcuStatus = indeterminate,
      sf_safetyLevelCallback = None, sf_running = False, sf_lastWdgKick = now,
      sf_supervisedEntity = None\<rparr>"

section \<open>Escalation\<close>

text \<open>\<open>std::to_string\<close> of a level's number.\<close>

fun level_digit :: "SafetyLevel \<Rightarrow> string" where
  "level_digit kLevel0_Normal = ''0''"
| "level_digit kLevel1_Degraded = ''1''"
| "level_digit kLevel2_MinRisk = ''2''"
| "level_digit kLevel3_SafeStop = ''3''"
| "level_digit kLevel4_Emergency = ''4''"

definition ExecuteSafetyAction :: "SafetyLevel \<Rightarrow> Platform \<Rightarrow> Platform" where
  "ExecuteSafetyAction level pf =
     (case level of
        kLevel1_Degraded \<Rightarrow>
          request_group (GetFunctionGroup ''Infotainment'' (pf_sm pf)) FunctionGroupState.kOff pf
      | kLevel2_MinRisk \<Rightarrow>
          let fg1 = GetFunctionGroup ''Infotainment'' (pf_sm pf);
              fg2 = GetFunctionGroup ''OTA'' (pf_sm pf);
              pf = request_group fg1 FunctionGroupState.kOff pf;
              pf = request_group fg2 FunctionGroupState.kOff pf
          in request_machine MachineState.kParked pf
      | kLevel3_SafeStop \<Rightarrow>
          request_machine MachineState.kShutdown
            (trigger_error (''Safety level '' @ level_digit level) pf)
      | kLevel4_Emergency \<Rightarrow>
          request_machine MachineState.kShutdown
            (trigger_error (''Safety level '' @ level_digit level) pf)
      | _ \<Rightarrow> pf)"

definition EscalateSafetyLevel :: "SafetyLevel \<Rightarrow> string \<Rightarrow> safety_state \<Rightarrow> safety_state" where
  "EscalateSafetyLevel newLevel reason = (\<lambda>(sf, pf, calls).
     let current = sf_currentLevel sf in
     if safety_u8 newLevel \<le> safety_u8 current then (sf, pf, calls)
     else (sf\<lparr>sf_currentLevel := newLevel\<rparr>, ExecuteSafetyAction newLevel pf,
           calls @ invoke (sf_safetyLevelCallback sf) (newLevel, reason)))"

section \<open>The periodic check\<close>

definition PeriodicSafetyCheck :: "readings \<Rightarrow> safety_state \<Rightarrow> safety_state outcome" where
  "PeriodicSafetyCheck now = (\<lambda>(sf, pf, calls).
     let pf = on_phm (KickWatchdog (now 0)) pf in
     case sf_supervisedEntity sf of
       None \<Rightarrow> Inl NullDeref
     | Some se \<Rightarrow>
         let (se', phm') = CheckpointReached 0x01 (now 1) (now 2) se (pf_phm pf);
             pf = on_phm (\<lambda>_. phm') pf;
             sf = sf\<lparr>sf_supervisedEntity := Some se', sf_lastWdgKick := now 3\<rparr>;
             phmStatus = GetGlobalStatus (pf_phm pf)
         in
         if phmStatus = GlobalSupervisionStatus.kExpired
         then Inr (EscalateSafetyLevel kLevel3_SafeStop ''PHM supervision expired'' (sf, pf, calls))
         else if phmStatus = GlobalSupervisionStatus.kFailed
         then Inr (EscalateSafetyLevel kLevel2_MinRisk ''PHM supervision failed'' (sf, pf, calls))
         else
           let mcuStatus = sf_lastMcuStatus sf in
           if mc_asil_dViolation mcuStatus
           then Inr (EscalateSafetyLevel kLevel4_Emergency ''MCU ASIL-D violation'' (sf, pf, calls))
           else if mc_safetyLevel mcuStatus \<ge> kLevel2_MinRisk
           then Inr (EscalateSafetyLevel (mc_safetyLevel mcuStatus) ''MCU safety escalation'' (sf, pf, calls))
           else Inr (sf, pf, calls))"

text \<open>
  The main loop. Every element is one round: the readings of its check, and the status messages
  of the MCU and a possible stop that other threads deliver before the next round. The sleep of
  what is left of 10 ms is not a change of state.
\<close>

definition OnMcuSafetyStatus :: "McuSafetyStatus \<Rightarrow> SafetyMonitor \<Rightarrow> SafetyMonitor" where
  "OnMcuSafetyStatus status sf = sf\<lparr>sf_lastMcuStatus := status\<rparr>"

fun run_loop :: "(readings \<times> McuSafetyStatus list \<times> bool) list \<Rightarrow> safety_state \<Rightarrow> safety_state outcome" where
  "run_loop [] w = Inr w"
| "run_loop ((now, msgs, stop) # rounds) w =
     (if \<not> sf_running (fst w) then Inr w
      else obind (PeriodicSafetyCheck now w) (\<lambda>(sf, pf, calls).
        run_loop rounds
          ((fold OnMcuSafetyStatus msgs sf)\<lparr>sf_running := \<not> stop \<and> sf_running sf\<rparr>, pf, calls)))"

definition Safety_Run ::
  "(readings \<times> McuSafetyStatus list \<times> bool) list \<Rightarrow> safety_state \<Rightarrow> safety_state outcome" where
  "Safety_Run rounds = (\<lambda>(sf, pf, calls). run_loop rounds (sf\<lparr>sf_running := True\<rparr>, pf, calls))"

definition remaining_sleep_ms :: "int \<Rightarrow> int" where
  "remaining_sleep_ms elapsed = (let remaining = 10 - elapsed in if remaining > 0 then remaining else 0)"

section \<open>Life cycle and queries\<close>

text \<open>
  The new entity is constructed before the one the pointer held is destroyed.
\<close>

definition Safety_Init :: "readings \<Rightarrow> safety_state \<Rightarrow> bool \<times> safety_state" where
  "Safety_Init now = (\<lambda>(sf, pf, calls).
     let (se, phm) = SupervisedEntity_ctor ''SafetyMonitorService'' (now 0) (now 1) (pf_phm pf);
         phm = (case sf_supervisedEntity sf of None \<Rightarrow> phm | Some old \<Rightarrow> SupervisedEntity_dtor old phm);
         sf = sf\<lparr>sf_supervisedEntity := Some se\<rparr>;
         pf = on_phm (\<lambda>_. phm) pf;
         pf = on_phm (SetPhmAction ''SafetyMonitorService'' PhmAction.kTriggerSm) pf;
         pf = initialize_sm pf;
         pf = report_state kRunning pf;
         pf = on_phm (Phm_Start (now 2)) pf
     in (True, (sf, pf, calls)))"

definition Safety_Shutdown :: "ExecutionState \<Rightarrow> safety_state \<Rightarrow> safety_state" where
  "Safety_Shutdown kTerminating = (\<lambda>(sf, pf, calls).
     let (sf, pf, calls) =
           EscalateSafetyLevel kLevel3_SafeStop ''Planned shutdown'' (sf\<lparr>sf_running := False\<rparr>, pf, calls);
         pf = report_state kTerminating pf;
         pf = on_phm Phm_Stop pf
     in (sf, pf, calls))"

definition SafetyMonitor_dtor :: "ExecutionState \<Rightarrow> safety_state \<Rightarrow> Platform \<times> level_calls" where
  "SafetyMonitor_dtor kTerminating w =
     (let (sf, pf, calls) = (if sf_running (fst w) then Safety_Shutdown kTerminating w else w)
      in (case sf_supervisedEntity sf of
            None \<Rightarrow> pf | Some se \<Rightarrow> on_phm (SupervisedEntity_dtor se) pf, calls))"

definition SetSafetyLevelCallback :: "callback option \<Rightarrow> SafetyMonitor \<Rightarrow> SafetyMonitor" where
  "SetSafetyLevelCallback cb sf = sf\<lparr>sf_safetyLevelCallback := cb\<rparr>"

definition GetCurrentSafetyLevel :: "SafetyMonitor \<Rightarrow> SafetyLevel" where
  "GetCurrentSafetyLevel sf = sf_currentLevel sf"

definition Safety_IsRunning :: "SafetyMonitor \<Rightarrow> bool" where
  "Safety_IsRunning sf = sf_running sf"

definition GetSafetySnapshot :: "u32 \<Rightarrow> SafetyMonitor \<Rightarrow> Platform \<Rightarrow> SocSafetySnapshot" where
  "GetSafetySnapshot indeterminate sf pf =
     \<lparr>sn_socLevel = sf_currentLevel sf, sn_mcuLevel = mc_safetyLevel (sf_lastMcuStatus sf),
      sn_systemLevel = max (sf_currentLevel sf) (mc_safetyLevel (sf_lastMcuStatus sf)),
      sn_phmStatus = GetGlobalStatus (pf_phm pf), sn_lastWdgKickMs = indeterminate,
      sn_ipcConnected = True\<rparr>"


section \<open>What an action does\<close>

lemma request_group_machine [simp]: "machine_state (request_group p s pf) = machine_state pf"
  by simp

lemma Execute_phm [simp]: "pf_phm (ExecuteSafetyAction l pf) = pf_phm pf"
  by (cases l) (simp_all add: ExecuteSafetyAction_def Let_def)

lemma Execute_stop:
  "kLevel3_SafeStop \<le> l \<Longrightarrow> machine_state (ExecuteSafetyAction l pf) = MachineState.kShutdown"
  by (cases l)
    (simp_all add: ExecuteSafetyAction_def machine_after_request machine_after_trigger sm_edge_to
      less_eq_SafetyLevel_def word_le_nat_alt)

lemma Execute_terminal:
  "is_terminal (machine_state pf) \<Longrightarrow> is_terminal (machine_state (ExecuteSafetyAction l pf))"
  by (cases l)
    (auto simp: ExecuteSafetyAction_def machine_after_request machine_after_trigger Let_def
      is_terminal_def sm_edge_to)

lemma safety_le_iff: "safety_u8 a \<le> safety_u8 b \<longleftrightarrow> a \<le> b"
  by (simp add: less_eq_SafetyLevel_def)

lemma Escalate_cases:
  "EscalateSafetyLevel l r (sf, pf, calls) =
     (if l \<le> sf_currentLevel sf then (sf, pf, calls)
      else (sf\<lparr>sf_currentLevel := l\<rparr>, ExecuteSafetyAction l pf,
            calls @ invoke (sf_safetyLevelCallback sf) (l, r)))"
  by (simp add: EscalateSafetyLevel_def Let_def safety_le_iff)

section \<open>Everything that can happen to the monitor\<close>

text \<open>
  Calls on the monitor, checks of its loop, and what other clients do to the singletons it uses.
\<close>

datatype safety_op =
    SfInit readings | SfCheck readings | SfMcu McuSafetyStatus | SfShutdown ExecutionState
  | SfCallback "callback option" | SfMachine MachineState | SfPhm phm_op | SfSmInitialize

fun safety_step :: "safety_state outcome \<Rightarrow> safety_op \<Rightarrow> safety_state outcome" where
  "safety_step r (SfInit now) = map_sum id (\<lambda>w. snd (Safety_Init now w)) r"
| "safety_step r (SfCheck now) = obind r (PeriodicSafetyCheck now)"
| "safety_step r (SfMcu st) = map_sum id (\<lambda>(sf, pf, c). (OnMcuSafetyStatus st sf, pf, c)) r"
| "safety_step r (SfShutdown k) = map_sum id (Safety_Shutdown k) r"
| "safety_step r (SfCallback cb) = map_sum id (\<lambda>(sf, pf, c). (SetSafetyLevelCallback cb sf, pf, c)) r"
| "safety_step r (SfMachine t) = map_sum id (\<lambda>(sf, pf, c). (sf, request_machine t pf, c)) r"
| "safety_step r (SfPhm op) = map_sum id (\<lambda>(sf, pf, c). (sf, on_phm (\<lambda>p. phm_step p op) pf, c)) r"
| "safety_step r SfSmInitialize = map_sum id (\<lambda>(sf, pf, c). (sf, initialize_sm pf, c)) r"

definition call_levels :: "level_calls \<Rightarrow> SafetyLevel list" where
  "call_levels calls = map (\<lambda>(_, l, _). l) calls"

definition level_inv :: "safety_state \<Rightarrow> bool" where
  "level_inv = (\<lambda>(sf, pf, calls).
     (kLevel3_SafeStop \<le> sf_currentLevel sf \<longrightarrow> is_terminal (machine_state pf)) \<and>
     sorted_wrt (<) (call_levels calls) \<and>
     list_all (\<lambda>l. l \<le> sf_currentLevel sf) (call_levels calls) \<and> all_ok (pf_phm pf))"

definition safety_inv :: "safety_state outcome \<Rightarrow> bool" where
  "safety_inv r = (case r of Inl e \<Rightarrow> e = NullDeref | Inr w \<Rightarrow> level_inv w)"

lemma Escalate_inv: "level_inv w \<Longrightarrow> level_inv (EscalateSafetyLevel l r w)"
proof (cases w)
  case (fields sf pf calls)
  assume inv: "level_inv w"
  show ?thesis
  proof (cases "l \<le> sf_currentLevel sf")
    case True
    with inv show ?thesis by (simp add: fields Escalate_cases)
  next
    case False
    then have up: "sf_currentLevel sf < l" by simp
    have "is_terminal (machine_state (ExecuteSafetyAction l pf))" if "kLevel3_SafeStop \<le> l"
      using Execute_stop [OF that] by (simp add: is_terminal_def)
    moreover have "x < l" if "x \<in> set (call_levels calls)" for x
    proof -
      have "x \<le> sf_currentLevel sf" using inv that by (simp add: level_inv_def fields list_all_iff)
      with up show ?thesis by simp
    qed
    ultimately show ?thesis
      using inv False
      by (cases "sf_safetyLevelCallback sf")
        (auto simp: fields Escalate_cases level_inv_def call_levels_def sorted_wrt_append list_all_iff
          intro: less_imp_le)
  qed
qed

lemma level_inv_frame:
  assumes "level_inv (sf, pf, calls)" and "sf_currentLevel sf' = sf_currentLevel sf"
    and "is_terminal (machine_state pf) \<Longrightarrow> is_terminal (machine_state pf')" and "all_ok (pf_phm pf')"
  shows "level_inv (sf', pf', calls)"
  using assms by (auto simp: level_inv_def)

lemma all_ok_kick [simp]: "all_ok phm \<Longrightarrow> all_ok (KickWatchdog now phm)"
  using phm_step_all_ok [of phm "OpKick now"] by simp

lemma all_ok_checkpoint [simp]: "all_ok phm \<Longrightarrow> all_ok (snd (CheckpointReached cp t t' se phm))"
  using phm_step_all_ok [of phm "OpCheckpoint (se_instanceId se) cp t'"] by (simp add: CheckpointReached_def)

lemma all_ok_ctor [simp]: "all_ok phm \<Longrightarrow> all_ok (snd (SupervisedEntity_ctor e t t' phm))"
  using phm_step_all_ok [of phm "OpRegister e defaultConf t'"] by (simp add: SupervisedEntity_ctor_def)

lemma all_ok_dtor [simp]: "all_ok phm \<Longrightarrow> all_ok (SupervisedEntity_dtor se phm)"
  using phm_step_all_ok [of phm "OpUnregister (se_instanceId se)"] by (simp add: SupervisedEntity_dtor_def)

lemma all_ok_action [simp]: "all_ok phm \<Longrightarrow> all_ok (SetPhmAction e a phm)"
  using phm_step_all_ok [of phm "OpSetAction e a"] by simp

lemma all_ok_start_stop [simp]: "all_ok phm \<Longrightarrow> all_ok (Phm_Start t phm)" "all_ok phm \<Longrightarrow> all_ok (Phm_Stop phm)"
  using phm_step_all_ok [of phm "OpStart t"] phm_step_all_ok [of phm OpStop] by simp_all

lemma Safety_Init_inv: "level_inv w \<Longrightarrow> level_inv (snd (Safety_Init now w))"
proof (cases w)
  case (fields sf pf calls)
  assume inv: "level_inv w"
  let ?c = "SupervisedEntity_ctor ''SafetyMonitorService'' (now 0) (now 1) (pf_phm pf)"
  let ?phm = "case sf_supervisedEntity sf of None \<Rightarrow> snd ?c | Some old \<Rightarrow> SupervisedEntity_dtor old (snd ?c)"
  let ?pf = "on_phm (Phm_Start (now 2)) (report_state kRunning (initialize_sm
    (on_phm (SetPhmAction ''SafetyMonitorService'' PhmAction.kTriggerSm) (on_phm (\<lambda>_. ?phm) pf))))"
  have "all_ok (pf_phm pf)" using inv by (simp add: fields level_inv_def)
  then have "all_ok ?phm" by (simp split: option.split)
  then have ok: "all_ok (pf_phm ?pf)" by simp
  have m: "machine_state ?pf = machine_state pf" by simp
  have "level_inv (sf\<lparr>sf_supervisedEntity := Some (fst ?c)\<rparr>, ?pf, calls)"
    by (rule level_inv_frame [OF inv [unfolded fields]]) (simp_all only: m ok, simp)
  then show ?thesis by (simp only: fields Safety_Init_def prod.case case_prod_beta Let_def fst_conv snd_conv)
qed

text \<open>
  A check never sees a health status other than normal, so with an entity it comes down to the
  status of the MCU.
\<close>

definition mcu_verdict :: "McuSafetyStatus \<Rightarrow> (SafetyLevel \<times> string) option" where
  "mcu_verdict st =
     (if mc_asil_dViolation st then Some (kLevel4_Emergency, ''MCU ASIL-D violation'')
      else if kLevel2_MinRisk \<le> mc_safetyLevel st then Some (mc_safetyLevel st, ''MCU safety escalation'')
      else None)"

lemma PeriodicSafetyCheck_entity:
  assumes "all_ok (pf_phm pf)" and "sf_supervisedEntity sf = Some se"
  shows "\<exists>se' pf'. PeriodicSafetyCheck now (sf, pf, calls) =
      Inr (case mcu_verdict (sf_lastMcuStatus sf) of
          None \<Rightarrow> (sf\<lparr>sf_supervisedEntity := Some se', sf_lastWdgKick := now 3\<rparr>, pf', calls)
        | Some (l, r) \<Rightarrow> EscalateSafetyLevel l r
            (sf\<lparr>sf_supervisedEntity := Some se', sf_lastWdgKick := now 3\<rparr>, pf', calls)) \<and>
    machine_state pf' = machine_state pf \<and> pf_fgs pf' = pf_fgs pf \<and> all_ok (pf_phm pf')"
proof -
  obtain se' phm' where r: "CheckpointReached 0x01 (now 1) (now 2) se (KickWatchdog (now 0) (pf_phm pf)) = (se', phm')"
    by fastforce
  let ?pf = "on_phm (\<lambda>_. phm') (on_phm (KickWatchdog (now 0)) pf)"
  let ?sf = "sf\<lparr>sf_supervisedEntity := Some se', sf_lastWdgKick := now 3\<rparr>"
  have ok: "all_ok phm'"
    using all_ok_checkpoint [OF all_ok_kick [OF assms(1), of "now 0"], of "0x01" "now 1" "now 2" se] r by simp
  then have g: "GetGlobalStatus phm' = GlobalSupervisionStatus.kNormal" by (rule all_ok_global)
  have "PeriodicSafetyCheck now (sf, pf, calls) =
    Inr (case mcu_verdict (sf_lastMcuStatus sf) of
           None \<Rightarrow> (?sf, ?pf, calls) | Some (l, r) \<Rightarrow> EscalateSafetyLevel l r (?sf, ?pf, calls))"
    by (simp only: PeriodicSafetyCheck_def prod.case Let_def assms(2) option.case Platform_frames r g mcu_verdict_def)
      simp
  then show ?thesis using ok by (intro exI [of _ se'] exI [of _ ?pf]) simp
qed

lemma PeriodicSafetyCheck_normal:
  assumes "all_ok (pf_phm pf)"
  shows "\<exists>sf' pf'. PeriodicSafetyCheck now (sf, pf, calls) =
      (if sf_supervisedEntity sf = None then Inl NullDeref
       else Inr (case mcu_verdict (sf_lastMcuStatus sf) of
                   None \<Rightarrow> (sf', pf', calls)
                 | Some (l, r) \<Rightarrow> EscalateSafetyLevel l r (sf', pf', calls))) \<and>
    sf_currentLevel sf' = sf_currentLevel sf \<and> sf_safetyLevelCallback sf' = sf_safetyLevelCallback sf \<and>
    machine_state pf' = machine_state pf \<and> pf_fgs pf' = pf_fgs pf \<and> all_ok (pf_phm pf')"
proof (cases "sf_supervisedEntity sf")
  case None
  with assms show ?thesis by (auto simp: PeriodicSafetyCheck_def Let_def)
next
  case (Some se)
  from PeriodicSafetyCheck_entity [OF assms Some, of now calls] obtain se' pf'
    where "PeriodicSafetyCheck now (sf, pf, calls) =
      Inr (case mcu_verdict (sf_lastMcuStatus sf) of
          None \<Rightarrow> (sf\<lparr>sf_supervisedEntity := Some se', sf_lastWdgKick := now 3\<rparr>, pf', calls)
        | Some (l, r) \<Rightarrow> EscalateSafetyLevel l r
            (sf\<lparr>sf_supervisedEntity := Some se', sf_lastWdgKick := now 3\<rparr>, pf', calls))"
      "machine_state pf' = machine_state pf" "pf_fgs pf' = pf_fgs pf" "all_ok (pf_phm pf')"
    by blast
  with Some show ?thesis
    by (intro exI [of _ "sf\<lparr>sf_supervisedEntity := Some se', sf_lastWdgKick := now 3\<rparr>"] exI [of _ pf']) simp
qed

lemma safety_check_inv: "level_inv w \<Longrightarrow> safety_inv (PeriodicSafetyCheck now w)"
proof (cases w)
  case (fields sf pf calls)
  assume inv: "level_inv w"
  then have "all_ok (pf_phm pf)" by (simp add: fields level_inv_def)
  from PeriodicSafetyCheck_normal [OF this, of now sf calls] obtain sf' pf'
    where check: "PeriodicSafetyCheck now w =
      (if sf_supervisedEntity sf = None then Inl NullDeref
       else Inr (case mcu_verdict (sf_lastMcuStatus sf) of
                   None \<Rightarrow> (sf', pf', calls)
                 | Some (l, r) \<Rightarrow> EscalateSafetyLevel l r (sf', pf', calls)))"
      and same: "sf_currentLevel sf' = sf_currentLevel sf" "machine_state pf' = machine_state pf"
      "all_ok (pf_phm pf')"
    unfolding fields by blast
  have "level_inv (sf', pf', calls)"
    by (rule level_inv_frame [OF inv [unfolded fields]]) (simp_all only: same)
  then show ?thesis
    by (auto simp: check safety_inv_def intro: Escalate_inv split: option.split)
qed

lemma Safety_Shutdown_inv: "level_inv w \<Longrightarrow> level_inv (Safety_Shutdown k w)"
proof (cases w)
  case (fields sf pf calls)
  assume inv: "level_inv w"
  obtain sf1 pf1 c1 where e: "EscalateSafetyLevel kLevel3_SafeStop ''Planned shutdown''
      (sf\<lparr>sf_running := False\<rparr>, pf, calls) = (sf1, pf1, c1)"
    by (metis prod_cases3)
  have "level_inv (sf\<lparr>sf_running := False\<rparr>, pf, calls)"
    using inv by (simp add: fields level_inv_def)
  then have inv1: "level_inv (sf1, pf1, c1)" using Escalate_inv e by metis
  then have ok: "all_ok (pf_phm pf1)" by (simp add: level_inv_def)
  have "level_inv (sf1, on_phm Phm_Stop (report_state k pf1), c1)"
    by (rule level_inv_frame [OF inv1]) (simp_all add: ok)
  then show ?thesis by (simp add: fields Safety_Shutdown_def Let_def e)
qed

lemma safety_step_inv: "safety_inv r \<Longrightarrow> safety_inv (safety_step r op)"
proof (cases r)
  case (Inl e)
  then show "safety_inv r \<Longrightarrow> safety_inv (safety_step r op)"
    by (cases op) (simp_all add: safety_inv_def)
next
  case (Inr w)
  assume "safety_inv r"
  with Inr have w: "level_inv w" by (simp add: safety_inv_def)
  obtain sf pf calls where f: "w = (sf, pf, calls)" by (cases w)
  have keep: "level_inv (sf', pf', calls)"
    if "sf_currentLevel sf' = sf_currentLevel sf" "is_terminal (machine_state pf) \<Longrightarrow> is_terminal (machine_state pf')"
      "all_ok (pf_phm pf')" for sf' pf'
    using level_inv_frame w that unfolding f by blast
  have ok: "all_ok (pf_phm pf)" using w by (simp add: f level_inv_def)
  show ?thesis
  proof (cases op)
    case (SfCheck now)
    with Inr w show ?thesis by (simp add: safety_check_inv)
  next
    case (SfInit now)
    with Inr w show ?thesis by (simp add: safety_inv_def Safety_Init_inv)
  next
    case (SfShutdown k)
    with Inr w show ?thesis by (simp add: safety_inv_def Safety_Shutdown_inv)
  next
    case (SfMachine t)
    have "is_terminal (machine_state pf) \<Longrightarrow> is_terminal (machine_state (request_machine t pf))"
      by (auto simp: machine_after_request intro: sm_edge_terminal)
    with Inr SfMachine ok show ?thesis by (simp add: safety_inv_def f keep)
  next
    case (SfPhm p)
    with Inr ok show ?thesis by (simp add: safety_inv_def f keep phm_step_all_ok)
  qed (use Inr ok in \<open>simp_all add: safety_inv_def f keep OnMcuSafetyStatus_def SetSafetyLevelCallback_def\<close>)
qed

interpretation monitor: invariant_step safety_step safety_inv
  by unfold_locales (rule safety_step_inv)

lemma safety_inv_start: "safety_inv (Inr (SafetyMonitor_ctor t m, Platform_start, []))"
  by (simp add: safety_inv_def level_inv_def SafetyMonitor_ctor_def Platform_start_def
      call_levels_def all_ok_new less_eq_SafetyLevel_def)


section \<open>The monitor as a maximum\<close>

text \<open>
  The specification of the level: a check takes the maximum of the level and of what the last MCU
  status demands, a shutdown the maximum of the level and safe stop, and nothing else counts. Its
  state is the level, the last status, and whether \<open>Init\<close> has run.
\<close>

type_synonym monitor_spec = "SafetyLevel \<times> McuSafetyStatus \<times> bool"

definition demanded :: "McuSafetyStatus \<Rightarrow> SafetyLevel" where
  "demanded st =
     (if mc_asil_dViolation st then kLevel4_Emergency
      else if kLevel2_MinRisk \<le> mc_safetyLevel st then mc_safetyLevel st else kLevel0_Normal)"

fun spec_step :: "monitor_spec outcome \<Rightarrow> safety_op \<Rightarrow> monitor_spec outcome" where
  "spec_step (Inl e) op = Inl e"
| "spec_step (Inr (l, st, ready)) op =
     (case op of
        SfInit now \<Rightarrow> Inr (l, st, True)
      | SfCheck now \<Rightarrow> if ready then Inr (max l (demanded st), st, True) else Inl NullDeref
      | SfMcu st' \<Rightarrow> Inr (l, st', ready)
      | SfShutdown k \<Rightarrow> Inr (max l kLevel3_SafeStop, st, ready)
      | _ \<Rightarrow> Inr (l, st, ready))"

definition abs_monitor :: "safety_state outcome \<Rightarrow> monitor_spec outcome" where
  "abs_monitor = map_sum id (\<lambda>(sf, _, _).
     (sf_currentLevel sf, sf_lastMcuStatus sf, sf_supervisedEntity sf \<noteq> None))"

lemma Escalate_abs:
  "abs_monitor (Inr (EscalateSafetyLevel l r (sf, pf, calls))) =
     Inr (max (sf_currentLevel sf) l, sf_lastMcuStatus sf, sf_supervisedEntity sf \<noteq> None)"
  by (auto simp: abs_monitor_def Escalate_cases max_def)

lemma demanded_verdict:
  "demanded st = (case mcu_verdict st of None \<Rightarrow> kLevel0_Normal | Some (l, _) \<Rightarrow> l)"
  by (simp add: demanded_def mcu_verdict_def)

lemma max_normal [simp]: "max l kLevel0_Normal = l"
  by (simp add: max_def less_eq_SafetyLevel_def word_le_nat_alt) (metis safety_u8_inj safety_u8.simps(1) unat_eq_zero)

lemma check_abs:
  assumes "all_ok (pf_phm pf)"
  shows "abs_monitor (PeriodicSafetyCheck now (sf, pf, calls)) = spec_step (abs_monitor (Inr (sf, pf, calls))) (SfCheck now)"
proof (cases "sf_supervisedEntity sf")
  case None
  with PeriodicSafetyCheck_normal [OF assms, of now sf calls] show ?thesis
    by (auto simp: abs_monitor_def)
next
  case (Some se)
  let ?v = "mcu_verdict (sf_lastMcuStatus sf)"
  obtain se' pf' where "PeriodicSafetyCheck now (sf, pf, calls) =
    Inr (case ?v of
        None \<Rightarrow> (sf\<lparr>sf_supervisedEntity := Some se', sf_lastWdgKick := now 3\<rparr>, pf', calls)
      | Some (l, r) \<Rightarrow> EscalateSafetyLevel l r
          (sf\<lparr>sf_supervisedEntity := Some se', sf_lastWdgKick := now 3\<rparr>, pf', calls))"
    using PeriodicSafetyCheck_entity [OF assms Some] by blast
  then show ?thesis
    by (cases ?v)
      (auto simp: Escalate_abs, auto simp: abs_monitor_def Some demanded_verdict)
qed

lemma safety_step_abs:
  assumes "safety_inv r"
  shows "abs_monitor (safety_step r op) = spec_step (abs_monitor r) op"
proof (cases r)
  case (Inl e)
  then show ?thesis by (cases op) (simp_all add: abs_monitor_def)
next
  case (Inr w)
  obtain sf pf calls where w: "w = (sf, pf, calls)" by (cases w)
  have ok: "all_ok (pf_phm pf)" using assms by (simp add: Inr w safety_inv_def level_inv_def)
  show ?thesis
  proof (cases op)
    case (SfCheck now)
    with check_abs [OF ok, of now sf calls] show ?thesis by (simp add: Inr w)
  next
    case (SfInit now)
    then show ?thesis
      by (simp add: Inr w abs_monitor_def Safety_Init_def case_prod_beta Let_def)
  next
    case (SfShutdown k)
    have "abs_monitor (Inr (Safety_Shutdown k (sf, pf, calls))) =
        abs_monitor (Inr (EscalateSafetyLevel kLevel3_SafeStop ''Planned shutdown''
          (sf\<lparr>sf_running := False\<rparr>, pf, calls)))"
      by (simp add: abs_monitor_def Safety_Shutdown_def case_prod_beta Let_def)
    then show ?thesis using SfShutdown by (simp add: Inr w Escalate_abs) (simp add: abs_monitor_def)
  qed (simp_all add: Inr w abs_monitor_def OnMcuSafetyStatus_def SetSafetyLevelCallback_def)
qed

lemma safety_run_abs: "safety_inv r \<Longrightarrow> abs_monitor (run safety_step r ops) = run spec_step (abs_monitor r) ops"
  by (induction ops arbitrary: r) (simp_all add: safety_step_abs safety_step_inv)

text \<open>
  While no two calls on the monitor overlap in time, the monitor implements its specification.
  After any sequence of calls on the monitor, one after the other, and of calls of other clients on
  health and state management, whether a check has faulted, the safety level, the last MCU status
  and whether there is a supervised entity are what the specification says: the level is the
  maximum of what was demanded at the checks and at shutdown. In particular health management and
  the other clients have no influence on it. Calls that overlap are the subject of \<open>SafetyRaces\<close>.
\<close>

theorem monitor_refines_maximum:
  "abs_monitor (run safety_step (Inr (SafetyMonitor_ctor t m, Platform_start, [])) ops) =
     run spec_step (Inr (kLevel0_Normal, m, False)) ops"
  unfolding safety_run_abs [OF safety_inv_start]
  by (simp add: abs_monitor_def SafetyMonitor_ctor_def)

section \<open>What the safety monitor promises\<close>

text \<open>
  While no two calls on the monitor overlap in time, safety levels only rise, each rise is notified
  at most once, and whatever stopped the machine keeps it stopped: after any sequence of checks, MCU
  messages, other calls on the monitor and calls of other clients on health and state management,
  the only fault is a check before \<open>Init\<close>, the notified levels strictly increase and do not exceed
  the present level, and from safe stop upwards the machine is in a final state.
\<close>

theorem safety_levels_only_rise:
  "case run safety_step (Inr (SafetyMonitor_ctor t m, Platform_start, [])) ops of
     Inl e \<Rightarrow> e = NullDeref
   | Inr (sf, pf, calls) \<Rightarrow>
       sorted_wrt (<) (call_levels calls) \<and>
       list_all (\<lambda>l. l \<le> GetCurrentSafetyLevel sf) (call_levels calls) \<and>
       (GetCurrentSafetyLevel sf < kLevel3_SafeStop \<or> is_terminal (machine_state pf))"
proof -
  have "safety_inv (run safety_step (Inr (SafetyMonitor_ctor t m, Platform_start, [])) ops)"
    by (rule monitor.run_inv) (rule safety_inv_start)
  then show ?thesis
    by (auto simp: safety_inv_def level_inv_def GetCurrentSafetyLevel_def split: sum.splits)
qed

text \<open>
  C6: when the last status message of the MCU reports an ASIL-D violation, the next check of an
  initialised monitor whose level is below emergency raises it to emergency, shuts the machine
  down from whatever state it is in, and notifies the registered callback.
\<close>

theorem mcu_violation_shuts_down:
  assumes "run safety_step (Inr (SafetyMonitor_ctor t m, Platform_start, [])) ops = Inr (sf, pf, calls)"
    and "sf_supervisedEntity sf \<noteq> None" and "sf_currentLevel sf \<noteq> kLevel4_Emergency"
    and "mc_asil_dViolation st"
  shows "\<exists>sf' pf'. PeriodicSafetyCheck now (OnMcuSafetyStatus st sf, pf, calls) =
      Inr (sf', pf', calls @ invoke (sf_safetyLevelCallback sf) (kLevel4_Emergency, ''MCU ASIL-D violation'')) \<and>
    GetCurrentSafetyLevel sf' = kLevel4_Emergency \<and> machine_state pf' = MachineState.kShutdown"
proof -
  have "safety_inv (Inr (sf, pf, calls))"
    using monitor.run_inv [OF safety_inv_start, of t m ops] assms(1) by simp
  then have "all_ok (pf_phm pf)" by (simp add: safety_inv_def level_inv_def)
  from PeriodicSafetyCheck_normal [OF this, of now "OnMcuSafetyStatus st sf" calls] assms(2,4)
  obtain sf1 pf1 where check: "PeriodicSafetyCheck now (OnMcuSafetyStatus st sf, pf, calls) =
      Inr (EscalateSafetyLevel kLevel4_Emergency ''MCU ASIL-D violation'' (sf1, pf1, calls))"
    and same: "sf_currentLevel sf1 = sf_currentLevel sf" "sf_safetyLevelCallback sf1 = sf_safetyLevelCallback sf"
    by (auto simp: OnMcuSafetyStatus_def mcu_verdict_def)
  have "\<not> kLevel4_Emergency \<le> sf_currentLevel sf"
    using assms(3) by (cases "sf_currentLevel sf") (simp_all add: less_eq_SafetyLevel_def word_le_nat_alt)
  moreover have "machine_state (ExecuteSafetyAction kLevel4_Emergency pf1) = MachineState.kShutdown"
    by (rule Execute_stop) (simp add: less_eq_SafetyLevel_def word_le_nat_alt)
  ultimately show ?thesis
    by (simp add: check same Escalate_cases GetCurrentSafetyLevel_def)
qed

definition demo_mcu :: "bool \<Rightarrow> McuSafetyStatus" where
  "demo_mcu v = \<lparr>mc_safetyLevel = kLevel0_Normal, mc_wdgStatus = 0, mc_asil_dViolation = v,
     mc_faultCode = 0, mc_timestampMs = 0, mc_e2eCounter = 0\<rparr>"

theorem mcu_violation_shuts_down_witness:
  "\<exists>sf pf calls sf' pf'.
     run safety_step (Inr (SafetyMonitor_ctor 0 (demo_mcu False), Platform_start, []))
       [SfInit int, SfMachine MachineState.kDriving, SfCheck int] = Inr (sf, pf, calls) \<and>
     machine_state pf = MachineState.kDriving \<and>
     PeriodicSafetyCheck int (OnMcuSafetyStatus (demo_mcu True) sf, pf, calls) = Inr (sf', pf', calls) \<and>
     machine_state pf' = MachineState.kShutdown"
proof -
  let ?ops = "[SfInit int, SfMachine MachineState.kDriving, SfCheck int]"
  have "case run safety_step (Inr (SafetyMonitor_ctor 0 (demo_mcu False), Platform_start, [])) ?ops of
      Inl _ \<Rightarrow> False
    | Inr (sf, pf, calls) \<Rightarrow> sf_supervisedEntity sf \<noteq> None \<and> sf_currentLevel sf \<noteq> kLevel4_Emergency \<and>
        sf_safetyLevelCallback sf = None \<and> machine_state pf = MachineState.kDriving"
    by code_simp
  then obtain sf pf calls where r:
      "run safety_step (Inr (SafetyMonitor_ctor 0 (demo_mcu False), Platform_start, [])) ?ops = Inr (sf, pf, calls)"
    and c: "sf_supervisedEntity sf \<noteq> None" "sf_currentLevel sf \<noteq> kLevel4_Emergency"
      "sf_safetyLevelCallback sf = None" "machine_state pf = MachineState.kDriving"
    by (auto split: sum.splits)
  have "mc_asil_dViolation (demo_mcu True)" by (simp add: demo_mcu_def)
  from mcu_violation_shuts_down [OF r c(1,2) this, of int] r c(3,4) show ?thesis by auto
qed

text \<open>
  A second \<open>Init\<close> removes the monitor from supervision: the entity it constructs is not
  registered because its name is taken, and destroying the one it replaces removes that name.
  Every later checkpoint of the monitor is without effect on the health status.
\<close>

theorem second_Init_unsupervised:
  "let (_, sf1, pf1, c1) = Safety_Init now (SafetyMonitor_ctor t m, pf, calls);
       (_, sf2, pf2, c2) = Safety_Init now' (sf1, pf1, c1)
   in phm_known (pf_phm pf1) ''SafetyMonitorService'' \<and>
      \<not> phm_known (pf_phm pf2) ''SafetyMonitorService'' \<and> sf_supervisedEntity sf2 \<noteq> None"
proof -
  have known: "phm_known (SetPhmAction e a phm) x = phm_known phm x" "phm_known (Phm_Start t phm) x = phm_known phm x"
    for e a t x phm
    by (auto simp: phm_known_def SetPhmAction_def Phm_Start_def um_simps split: option.split)
  have ctor: "snd (SupervisedEntity_ctor e t t' phm) = snd (RegisterEntity e defaultConf t' phm)"
    "se_instanceId (fst (SupervisedEntity_ctor e t t' phm)) = e" for e t t' phm
    by (simp_all add: SupervisedEntity_ctor_def)
  show ?thesis
    by (simp add: Safety_Init_def Let_def case_prod_beta known ctor SupervisedEntity_dtor_def
        SafetyMonitor_ctor_def entities.register_known entities.unregister_known)
qed

end
