(* ===== verification/IpcBridge.thy ===== *)
theory IpcBridge
  imports Platform Crc
begin

text \<open>
  The bridge to the MCU: src/application/SwcIPCBridge/IPCBridgeService.h and .cpp. Its connection
  state machine with handshake, heartbeat and recovery, the GPIO table, and the two transmit
  queues. A call takes its readings of the clock as a function of the number of the reading;
  \<open>tpm\<close> is the number of clock ticks in a millisecond. One round of \<open>Run\<close> is a definition; the
  sleeps between rounds show only in the readings.
\<close>

section \<open>Data\<close>

datatype IpcConnectionState = kOffline | kHandshake | kNormal | kError | kReset

text \<open>GPIO signals are an enumeration over a byte, and other values are guarded against.\<close>

type_synonym GpioSignal = u8

definition kSocResetN :: GpioSignal where "kSocResetN = 0"
definition kSocPwrEn :: GpioSignal where "kSocPwrEn = 1"
definition kSocReady :: GpioSignal where "kSocReady = 2"
definition kWdgKick :: GpioSignal where "kWdgKick = 3"
definition kWakeReq :: GpioSignal where "kWakeReq = 4"
definition kSleepAck :: GpioSignal where "kSleepAck = 5"
definition kSafeState :: GpioSignal where "kSafeState = 6"
definition kIrqSpi :: GpioSignal where "kIrqSpi = 7"

lemmas gpio_signals = kSocResetN_def kSocPwrEn_def kSocReady_def

record SpiIpcFrame =
  sp_sof :: u8
  sp_frameCtrl :: u8
  sp_length :: u16
  sp_payload :: "u8 list"
  sp_crc16 :: u16

definition kSof :: u8 where "kSof = 0xA5"

record IPCBridge =
  ib_networkHandle :: "NetworkHandle option"
  ib_connectionState :: IpcConnectionState
  ib_running :: bool
  ib_gpioState :: "bool list"
  ib_spiTxQueue :: "SpiIpcFrame list"
  ib_ethTxQueue :: "SomeIpMessage list"
  ib_ipcStateCallback :: "callback option"
  ib_spiRxCallback :: "callback option"
  ib_gpioCallback :: "callback option"
  ib_handshakeStartTime :: time_point
  ib_lastHeartbeatTime :: time_point

text \<open>The invocations of the bridge's own callbacks.\<close>

type_synonym state_calls = "(callback \<times> IpcConnectionState \<times> IpcConnectionState) list"
type_synonym gpio_calls = "(callback \<times> GpioSignal \<times> bool) list"

record bridge_world =
  bw_ib :: IPCBridge
  bw_pf :: Platform
  bw_states :: state_calls
  bw_gpios :: gpio_calls

type_synonym readings = "nat \<Rightarrow> time_point"

definition IPCBridge_ctor :: "readings \<Rightarrow> IPCBridge" where
  "IPCBridge_ctor now =
     \<lparr>ib_networkHandle = None, ib_connectionState = IpcConnectionState.kOffline, ib_running = False,
      ib_gpioState = replicate 8 False, ib_spiTxQueue = [], ib_ethTxQueue = [],
      ib_ipcStateCallback = None, ib_spiRxCallback = None, ib_gpioCallback = None,
      ib_handshakeStartTime = now 0, ib_lastHeartbeatTime = now 1\<rparr>"

abbreviation on_ib :: "(IPCBridge \<Rightarrow> IPCBridge) \<Rightarrow> bridge_world \<Rightarrow> bridge_world" where
  "on_ib f w \<equiv> w\<lparr>bw_ib := f (bw_ib w)\<rparr>"

abbreviation on_pf :: "(Platform \<Rightarrow> Platform) \<Rightarrow> bridge_world \<Rightarrow> bridge_world" where
  "on_pf f w \<equiv> w\<lparr>bw_pf := f (bw_pf w)\<rparr>"

section \<open>State, GPIO, services\<close>

definition TransitionState :: "IpcConnectionState \<Rightarrow> bridge_world \<Rightarrow> bridge_world" where
  "TransitionState newState w =
     (let old = ib_connectionState (bw_ib w);
          w = on_ib (\<lambda>ib. ib\<lparr>ib_connectionState := newState\<rparr>) w
      in if old \<noteq> newState
         then w\<lparr>bw_states := bw_states w @ invoke (ib_ipcStateCallback (bw_ib w)) (old, newState)\<rparr>
         else w)"

definition SetGpioSignal :: "GpioSignal \<Rightarrow> bool \<Rightarrow> bridge_world \<Rightarrow> bridge_world" where
  "SetGpioSignal signal level w =
     (let idx = unat signal in
      if idx \<ge> 8 then w
      else (on_ib (\<lambda>ib. ib\<lparr>ib_gpioState := (ib_gpioState ib)[idx := level]\<rparr>) w)
             \<lparr>bw_gpios := bw_gpios w @ invoke (ib_gpioCallback (bw_ib w)) (signal, level)\<rparr>)"

definition GetGpioSignal :: "GpioSignal \<Rightarrow> IPCBridge \<Rightarrow> bool" where
  "GetGpioSignal signal ib =
     (let idx = unat signal in if idx \<ge> 8 then False else ib_gpioState ib ! idx)"

definition OfferIpcServices :: "Platform \<Rightarrow> Platform" where
  "OfferIpcServices pf = fold (\<lambda>svc. on_sd (OfferService svc)) kServiceCatalog pf"

definition StopIpcServices :: "Platform \<Rightarrow> Platform" where
  "StopIpcServices pf = fold (\<lambda>svc. on_sd (StopOfferService (sd_serviceId svc))) kServiceCatalog pf"

section \<open>Life cycle\<close>

definition on_nm :: "(NetworkManagement \<Rightarrow> NetworkManagement \<times> NmNotification list) \<Rightarrow> Platform \<Rightarrow> Platform" where
  "on_nm f pf = pf\<lparr>pf_nm := fst (f (pf_nm pf)), pf_net_calls := pf_net_calls pf @ snd (f (pf_nm pf))\<rparr>"

definition destroy_handle :: "NetworkHandle option \<Rightarrow> Platform \<Rightarrow> Platform" where
  "destroy_handle h pf = (case h of None \<Rightarrow> pf | Some h \<Rightarrow> on_nm (NetworkHandle_dtor h) pf)"

definition bridgeConf :: AliveSupervisionConfig where
  "bridgeConf = \<lparr>ac_aliveReferenceCycleMs = 50, ac_minMargin = 0, ac_maxMargin = 2,
     ac_failedSupervisionCyclesTol = 3\<rparr>"

definition Bridge_Init :: "readings \<Rightarrow> bridge_world \<Rightarrow> bool \<times> bridge_world" where
  "Bridge_Init now w =
     (let w = on_pf (on_nm (\<lambda>nm. (snd (Nm_Initialize nm), []))) w;
          handle = fst (NetworkHandle_ctor kEthIPC (pf_nm (bw_pf w)));
          w = on_pf (on_nm (\<lambda>nm. snd (NetworkHandle_ctor kEthIPC nm))) w;
          w = on_pf (destroy_handle (ib_networkHandle (bw_ib w))) w;
          w = on_ib (\<lambda>ib. ib\<lparr>ib_networkHandle := Some handle\<rparr>) w
      in if \<not> nh_valid handle
         then (False, on_pf (print (''[IPCBridge] Failed to request EthIPC network'' @ [CHR 0x0A])) w)
         else
           let w = on_pf (on_phm (\<lambda>phm. snd (RegisterEntity ''IPCBridgeService'' bridgeConf (now 0) phm))) w;
               w = on_ib (\<lambda>ib. ib\<lparr>ib_gpioState := (ib_gpioState ib)[unat kSocReady := True]\<rparr>) w;
               w = on_ib (\<lambda>ib. ib\<lparr>ib_gpioState := (ib_gpioState ib)[unat kSocPwrEn := True]\<rparr>) w;
               w = on_pf (report_state kRunning) w;
               w = TransitionState IpcConnectionState.kHandshake w;
               w = on_ib (\<lambda>ib. ib\<lparr>ib_handshakeStartTime := now 1\<rparr>) w
           in (True, w))"

definition Bridge_Shutdown :: "ExecutionState \<Rightarrow> bridge_world \<Rightarrow> bridge_world" where
  "Bridge_Shutdown kTerminating w =
     (let w = on_ib (\<lambda>ib. ib\<lparr>ib_running := False\<rparr>) w;
          w = on_pf StopIpcServices w;
          w = on_pf (destroy_handle (ib_networkHandle (bw_ib w))) w;
          w = on_ib (\<lambda>ib. ib\<lparr>ib_networkHandle := None\<rparr>) w
      in on_pf (report_state kTerminating) w)"

definition IPCBridge_dtor :: "ExecutionState \<Rightarrow> bridge_world \<Rightarrow> Platform" where
  "IPCBridge_dtor kTerminating w =
     (let w = (if ib_running (bw_ib w) then Bridge_Shutdown kTerminating w else w)
      in destroy_handle (ib_networkHandle (bw_ib w)) (bw_pf w))"

section \<open>The main loop\<close>

definition kHandshakeTimeoutMs :: int where "kHandshakeTimeoutMs = 2000"
definition kHeartbeatIntervalMs :: int where "kHeartbeatIntervalMs = 100"
definition kHeartbeatTimeoutMs :: int where "kHeartbeatTimeoutMs = 500"

definition elapsed_ms :: "int \<Rightarrow> time_point \<Rightarrow> time_point \<Rightarrow> int" where
  "elapsed_ms tpm now start = (now - start) sdiv tpm"

definition HandleHandshake :: "int \<Rightarrow> readings \<Rightarrow> bridge_world \<Rightarrow> bridge_world" where
  "HandleHandshake tpm now w =
     (let elapsed = elapsed_ms tpm (now 0) (ib_handshakeStartTime (bw_ib w)) in
      if elapsed > kHandshakeTimeoutMs then TransitionState IpcConnectionState.kError w
      else if elapsed > 100 \<and> ib_gpioState (bw_ib w) ! unat kSocReady
      then on_ib (\<lambda>ib. ib\<lparr>ib_lastHeartbeatTime := now 1\<rparr>)
             (on_pf OfferIpcServices (TransitionState IpcConnectionState.kNormal w))
      else w)"

text \<open>The loop that empties the SPI queue: what it hands to the bus, and the queue left.\<close>

fun drain_spi :: "SpiIpcFrame list \<Rightarrow> SpiIpcFrame list \<times> SpiIpcFrame list" where
  "drain_spi [] = ([], [])"
| "drain_spi (frame # q) = (let (sent, q') = drain_spi q in (frame # sent, q'))"

definition HandleNormalOperation :: "int \<Rightarrow> readings \<Rightarrow> bridge_world \<Rightarrow> bridge_world" where
  "HandleNormalOperation tpm now w =
     (let elapsed = elapsed_ms tpm (now 0) (ib_lastHeartbeatTime (bw_ib w)) in
      if elapsed > kHeartbeatTimeoutMs then TransitionState IpcConnectionState.kError w
      else
        let w = (if elapsed > kHeartbeatIntervalMs
                 then on_ib (\<lambda>ib. ib\<lparr>ib_lastHeartbeatTime := now 1\<rparr>) w else w)
        in on_ib (\<lambda>ib. ib\<lparr>ib_spiTxQueue := snd (drain_spi (ib_spiTxQueue ib))\<rparr>) w)"

definition HandleError :: "readings \<Rightarrow> bridge_world \<Rightarrow> bridge_world" where
  "HandleError now w =
     (let w = TransitionState IpcConnectionState.kReset w;
          w = SetGpioSignal kSocResetN False w;
          w = SetGpioSignal kSocResetN True w;
          w = TransitionState IpcConnectionState.kHandshake w
      in on_ib (\<lambda>ib. ib\<lparr>ib_handshakeStartTime := now 0\<rparr>) w)"

definition Run_round :: "int \<Rightarrow> time_point \<Rightarrow> readings \<Rightarrow> bridge_world \<Rightarrow> bridge_world" where
  "Run_round tpm t now w =
     (let w = on_pf (on_phm (ReportCheckpoint ''IPCBridgeService'' 0x01 t)) w in
      case ib_connectionState (bw_ib w) of
        IpcConnectionState.kHandshake \<Rightarrow> HandleHandshake tpm now w
      | IpcConnectionState.kNormal \<Rightarrow> HandleNormalOperation tpm now w
      | IpcConnectionState.kError \<Rightarrow> HandleError now w
      | _ \<Rightarrow> w)"

text \<open>
  The loop of \<open>Run\<close>, one element a round: the time of its checkpoint, the readings of its handler,
  and whether the running flag is cleared before the next round.
\<close>

fun Bridge_loop :: "int \<Rightarrow> (time_point \<times> readings \<times> bool) list \<Rightarrow> bridge_world \<Rightarrow> bridge_world" where
  "Bridge_loop tpm [] w = w"
| "Bridge_loop tpm ((t, now, stop) # rounds) w =
     (if \<not> ib_running (bw_ib w) then w
      else let w = Run_round tpm t now w
           in Bridge_loop tpm rounds
                (on_ib (\<lambda>ib. ib\<lparr>ib_running := ib_running ib \<and> \<not> stop\<rparr>) w))"

definition Bridge_Run :: "int \<Rightarrow> (time_point \<times> readings \<times> bool) list \<Rightarrow> bridge_world \<Rightarrow> bridge_world" where
  "Bridge_Run tpm rounds w = Bridge_loop tpm rounds (on_ib (\<lambda>ib. ib\<lparr>ib_running := True\<rparr>) w)"

section \<open>Sending\<close>

definition SendSomeIpMessage :: "SomeIpMessage \<Rightarrow> IPCBridge \<Rightarrow> bool \<times> IPCBridge" where
  "SendSomeIpMessage msg ib =
     (if ib_connectionState ib \<noteq> IpcConnectionState.kNormal then (False, ib)
      else (True, ib\<lparr>ib_ethTxQueue := ib_ethTxQueue ib @ [msg]\<rparr>))"

definition spi_data :: "SpiIpcFrame \<Rightarrow> u8 list" where
  "spi_data frame = [sp_sof frame] @ [sp_frameCtrl frame] @ [ucast (drop_bit 8 (sp_length frame))] @
     [ucast (sp_length frame AND 0xFF)] @ sp_payload frame"

definition SendSpiFrame :: "SpiIpcFrame \<Rightarrow> IPCBridge \<Rightarrow> bool \<times> SpiIpcFrame \<times> IPCBridge" where
  "SendSpiFrame frame ib =
     (let frame = frame\<lparr>sp_crc16 := ComputeCRC16 (spi_data frame)\<rparr>
      in (True, frame, ib\<lparr>ib_spiTxQueue := ib_spiTxQueue ib @ [frame]\<rparr>))"

definition SetIpcStateCallback :: "callback option \<Rightarrow> IPCBridge \<Rightarrow> IPCBridge" where
  "SetIpcStateCallback cb ib = ib\<lparr>ib_ipcStateCallback := cb\<rparr>"

definition SetSpiRxCallback :: "callback option \<Rightarrow> IPCBridge \<Rightarrow> IPCBridge" where
  "SetSpiRxCallback cb ib = ib\<lparr>ib_spiRxCallback := cb\<rparr>"

definition SetGpioChangeCallback :: "callback option \<Rightarrow> IPCBridge \<Rightarrow> IPCBridge" where
  "SetGpioChangeCallback cb ib = ib\<lparr>ib_gpioCallback := cb\<rparr>"

definition GetConnectionState :: "IPCBridge \<Rightarrow> IpcConnectionState" where
  "GetConnectionState ib = ib_connectionState ib"

definition Bridge_IsRunning :: "IPCBridge \<Rightarrow> bool" where
  "Bridge_IsRunning ib = ib_running ib"

section \<open>Everything that can happen to the bridge\<close>

datatype bridge_op =
    IbInit readings | IbRound time_point readings | IbShutdown ExecutionState
  | IbSend SomeIpMessage | IbSpi SpiIpcFrame | IbGpio GpioSignal bool
  | IbStateCallback "callback option" | IbSpiCallback "callback option" | IbGpioCallback "callback option"

fun bridge_step :: "int \<Rightarrow> bridge_world \<Rightarrow> bridge_op \<Rightarrow> bridge_world" where
  "bridge_step tpm w (IbInit now) = snd (Bridge_Init now w)"
| "bridge_step tpm w (IbRound t now) = Run_round tpm t now w"
| "bridge_step tpm w (IbShutdown k) = Bridge_Shutdown k w"
| "bridge_step tpm w (IbSend msg) = on_ib (\<lambda>ib. snd (SendSomeIpMessage msg ib)) w"
| "bridge_step tpm w (IbSpi f) = on_ib (\<lambda>ib. snd (snd (SendSpiFrame f ib))) w"
| "bridge_step tpm w (IbGpio s l) = SetGpioSignal s l w"
| "bridge_step tpm w (IbStateCallback cb) = on_ib (SetIpcStateCallback cb) w"
| "bridge_step tpm w (IbSpiCallback cb) = on_ib (SetSpiRxCallback cb) w"
| "bridge_step tpm w (IbGpioCallback cb) = on_ib (SetGpioChangeCallback cb) w"

definition bridge_start :: "readings \<Rightarrow> bridge_world" where
  "bridge_start now = \<lparr>bw_ib = IPCBridge_ctor now, bw_pf = Platform_start, bw_states = [], bw_gpios = []\<rparr>"


section \<open>Frames\<close>

lemma TransitionState_ib [simp]:
  "ib_connectionState (bw_ib (TransitionState n w)) = n"
  "ib_ipcStateCallback (bw_ib (TransitionState n w)) = ib_ipcStateCallback (bw_ib w)"
  "ib_gpioState (bw_ib (TransitionState n w)) = ib_gpioState (bw_ib w)"
  "ib_ethTxQueue (bw_ib (TransitionState n w)) = ib_ethTxQueue (bw_ib w)"
  "ib_spiTxQueue (bw_ib (TransitionState n w)) = ib_spiTxQueue (bw_ib w)"
  "ib_networkHandle (bw_ib (TransitionState n w)) = ib_networkHandle (bw_ib w)"
  "ib_lastHeartbeatTime (bw_ib (TransitionState n w)) = ib_lastHeartbeatTime (bw_ib w)"
  "bw_pf (TransitionState n w) = bw_pf w"
  by (simp_all add: TransitionState_def Let_def)

lemma SetGpioSignal_frames [simp]:
  "ib_connectionState (bw_ib (SetGpioSignal g l w)) = ib_connectionState (bw_ib w)"
  "ib_ipcStateCallback (bw_ib (SetGpioSignal g l w)) = ib_ipcStateCallback (bw_ib w)"
  "ib_ethTxQueue (bw_ib (SetGpioSignal g l w)) = ib_ethTxQueue (bw_ib w)"
  "ib_spiTxQueue (bw_ib (SetGpioSignal g l w)) = ib_spiTxQueue (bw_ib w)"
  "bw_states (SetGpioSignal g l w) = bw_states w"
  "bw_pf (SetGpioSignal g l w) = bw_pf w"
  by (simp_all add: SetGpioSignal_def Let_def)

lemma drain_spi_eq [simp]: "drain_spi q = (q, [])"
  by (induction q) simp_all

section \<open>The connection state machine\<close>

inductive ipc_edge :: "bool \<Rightarrow> IpcConnectionState \<Rightarrow> IpcConnectionState \<Rightarrow> bool" for inits :: bool where
  shaken: "ipc_edge inits IpcConnectionState.kHandshake IpcConnectionState.kNormal"
| no_answer: "ipc_edge inits IpcConnectionState.kHandshake IpcConnectionState.kError"
| lost: "ipc_edge inits IpcConnectionState.kNormal IpcConnectionState.kError"
| recover: "ipc_edge inits IpcConnectionState.kError IpcConnectionState.kReset"
| shake_again: "ipc_edge inits IpcConnectionState.kReset IpcConnectionState.kHandshake"
| initialise: "inits \<Longrightarrow> s \<noteq> IpcConnectionState.kHandshake \<Longrightarrow> ipc_edge inits s IpcConnectionState.kHandshake"

text \<open>The cycle that IPCBridgeService.h documents.\<close>

inductive ipc_documented :: "IpcConnectionState \<Rightarrow> IpcConnectionState \<Rightarrow> bool" where
  "ipc_documented IpcConnectionState.kOffline IpcConnectionState.kHandshake"
| "ipc_documented IpcConnectionState.kHandshake IpcConnectionState.kNormal"
| "ipc_documented IpcConnectionState.kNormal IpcConnectionState.kError"
| "ipc_documented IpcConnectionState.kError IpcConnectionState.kReset"
| "ipc_documented IpcConnectionState.kReset IpcConnectionState.kOffline"

inductive_simps ipc_edge_iff: "ipc_edge inits s t"
inductive_simps ipc_documented_iff: "ipc_documented s t"

text \<open>
  Of the documented edges the one from reset to offline is missing, and offline is never entered;
  three kinds of edges are not documented: a handshake that fails, the new handshake after a reset,
  and a handshake that a further \<open>Init\<close> starts.
\<close>

lemma ipc_edge_documented:
  "ipc_edge inits s t \<longleftrightarrow>
     ipc_documented s t \<and> t \<noteq> IpcConnectionState.kOffline \<and> (s \<noteq> IpcConnectionState.kOffline \<or> inits) \<or>
     s = IpcConnectionState.kHandshake \<and> t = IpcConnectionState.kError \<or>
     s = IpcConnectionState.kReset \<and> t = IpcConnectionState.kHandshake \<or>
     inits \<and> s \<in> {IpcConnectionState.kNormal, IpcConnectionState.kError} \<and> t = IpcConnectionState.kHandshake"
  by (cases s; cases t) (simp_all add: ipc_edge_iff ipc_documented_iff)

abbreviation bridge_state :: "bridge_world \<Rightarrow> IpcConnectionState" where
  "bridge_state w \<equiv> ib_connectionState (bw_ib w)"

definition logged :: "bool \<Rightarrow> callback \<Rightarrow> IpcConnectionState \<Rightarrow> bridge_world \<Rightarrow> bool" where
  "logged inits f s w \<longleftrightarrow> ib_ipcStateCallback (bw_ib w) = Some f \<and>
     edge_path (ipc_edge inits) s (map snd (bw_states w)) (bridge_state w)"

lemma TransitionState_logged:
  assumes "logged inits f s w" and "bridge_state w = n \<or> ipc_edge inits (bridge_state w) n"
  shows "logged inits f s (TransitionState n w)"
  using assms by (auto simp: logged_def TransitionState_def Let_def)

lemma logged_frame:
  assumes "logged inits f s w" and "ib_ipcStateCallback (bw_ib w') = ib_ipcStateCallback (bw_ib w)"
    and "bw_states w' = bw_states w" and "bridge_state w' = bridge_state w"
  shows "logged inits f s w'"
  using assms by (simp add: logged_def)

lemma HandleError_logged:
  assumes "logged inits f s w" and "bridge_state w = IpcConnectionState.kError"
  shows "logged inits f s (HandleError now w)"
proof -
  let ?a = "TransitionState IpcConnectionState.kReset w"
  let ?b = "SetGpioSignal kSocResetN True (SetGpioSignal kSocResetN False ?a)"
  have "logged inits f s ?a"
    by (rule TransitionState_logged) (simp_all add: assms ipc_edge_iff)
  then have "logged inits f s ?b" by (rule logged_frame) simp_all
  then have "logged inits f s (TransitionState IpcConnectionState.kHandshake ?b)"
    by (rule TransitionState_logged) (simp add: ipc_edge_iff)
  then show ?thesis unfolding HandleError_def Let_def by (rule logged_frame) simp_all
qed

lemma HandleHandshake_logged:
  assumes "logged inits f s w" and "bridge_state w = IpcConnectionState.kHandshake"
  shows "logged inits f s (HandleHandshake tpm now w)"
proof -
  have "logged inits f s (TransitionState n w)" if "n = IpcConnectionState.kNormal \<or> n = IpcConnectionState.kError" for n
    by (rule TransitionState_logged [OF assms(1)]) (use that assms(2) in \<open>auto simp: ipc_edge_iff\<close>)
  with assms(1) show ?thesis by (auto simp: HandleHandshake_def Let_def logged_def)
qed

lemma HandleNormal_logged:
  assumes "logged inits f s w" and "bridge_state w = IpcConnectionState.kNormal"
  shows "logged inits f s (HandleNormalOperation tpm now w)"
proof -
  have "logged inits f s (TransitionState IpcConnectionState.kError w)"
    by (rule TransitionState_logged [OF assms(1)]) (use assms(2) in \<open>simp add: ipc_edge_iff\<close>)
  with assms(1) show ?thesis by (auto simp: HandleNormalOperation_def Let_def logged_def)
qed

lemma Run_round_logged: "logged inits f s w \<Longrightarrow> logged inits f s (Run_round tpm t now w)"
proof -
  assume h: "logged inits f s w"
  let ?w = "on_pf (on_phm (ReportCheckpoint ''IPCBridgeService'' 0x01 t)) w"
  have "logged inits f s ?w" by (rule logged_frame [OF h]) simp_all
  then show ?thesis
    by (cases "bridge_state w")
      (simp_all add: Run_round_def HandleHandshake_logged HandleNormal_logged HandleError_logged)
qed

lemma Bridge_Init_logged: "logged True f s w \<Longrightarrow> logged True f s (snd (Bridge_Init now w))"
proof -
  assume h: "logged True f s w"
  have "logged True f s (TransitionState IpcConnectionState.kHandshake v)"
    if "ib_ipcStateCallback (bw_ib v) = ib_ipcStateCallback (bw_ib w)" "bw_states v = bw_states w"
      "bridge_state v = bridge_state w" for v
    by (rule TransitionState_logged [OF logged_frame [OF h that]]) (auto simp: ipc_edge_iff)
  with h show ?thesis by (simp add: Bridge_Init_def Let_def logged_def)
qed

fun is_init :: "bridge_op \<Rightarrow> bool" where
  "is_init (IbInit now) = True"
| "is_init _ = False"

fun sets_state_callback :: "bridge_op \<Rightarrow> bool" where
  "sets_state_callback (IbStateCallback cb) = True"
| "sets_state_callback _ = False"

lemma bridge_step_logged:
  "logged inits f s w \<Longrightarrow> \<not> sets_state_callback op \<Longrightarrow> is_init op \<longrightarrow> inits \<Longrightarrow>
     logged inits f s (bridge_step tpm w op)"
  by (cases op)
    (auto simp: Run_round_logged Bridge_Init_logged Bridge_Shutdown_def SendSomeIpMessage_def
      SendSpiFrame_def SetSpiRxCallback_def SetGpioChangeCallback_def Let_def elim!: logged_frame)

text \<open>
  C25: while a state callback is registered and not replaced, the changes of the connection state
  reported to it are an unbroken path in the graph \<open>ipc_edge\<close> from the state at the start to the
  present one: a handshake ends in normal operation or error, normal operation only in error, error
  only in reset, and reset only in a new handshake; only when \<open>Init\<close> is among the calls can a
  handshake start from another state. Against the graph that the header documents, reset is never
  left for offline, which is never entered again.
\<close>

theorem connection_states_follow_graph:
  assumes "ib_ipcStateCallback (bw_ib w) = Some f" and "bw_states w = []"
    and "\<not> list_ex sets_state_callback ops"
  shows "edge_path (ipc_edge (list_ex is_init ops)) (GetConnectionState (bw_ib w))
    (map snd (bw_states (run (bridge_step tpm) w ops))) (GetConnectionState (bw_ib (run (bridge_step tpm) w ops)))"
proof -
  have "logged inits f s (run (bridge_step tpm) v ops)"
    if "logged inits f s v" "list_ex is_init ops \<longrightarrow> inits" for inits s v
    using that assms(3) by (induction ops arbitrary: v) (auto simp: bridge_step_logged)
  from this [of "list_ex is_init ops" "bridge_state w" w] assms(1,2) show ?thesis
    by (simp add: logged_def GetConnectionState_def)
qed

definition demo_bridge :: bridge_world where
  "demo_bridge = bridge_step 1 (bridge_start int) (IbStateCallback (Some 4))"

definition at_time :: "time_point \<Rightarrow> bridge_op" where
  "at_time t = IbRound t (\<lambda>_. t)"

theorem connection_states_follow_graph_witness:
  "map snd (bw_states (run (bridge_step 1) demo_bridge
      [IbInit (\<lambda>_. 0), at_time 50, at_time 150, at_time 900, at_time 901])) =
     [(IpcConnectionState.kOffline, IpcConnectionState.kHandshake),
      (IpcConnectionState.kHandshake, IpcConnectionState.kNormal),
      (IpcConnectionState.kNormal, IpcConnectionState.kError),
      (IpcConnectionState.kError, IpcConnectionState.kReset),
      (IpcConnectionState.kReset, IpcConnectionState.kHandshake)] \<and>
   edge_path (ipc_edge True) IpcConnectionState.kOffline
     (map snd (bw_states (run (bridge_step 1) demo_bridge
        [IbInit (\<lambda>_. 0), at_time 50, at_time 150, at_time 900, at_time 901])))
     IpcConnectionState.kHandshake"
proof -
  let ?ops = "[IbInit (\<lambda>_. 0), at_time 50, at_time 150, at_time 900, at_time 901]"
  have "ib_ipcStateCallback (bw_ib demo_bridge) = Some 4" "bw_states demo_bridge = []"
    "\<not> list_ex sets_state_callback ?ops"
    "GetConnectionState (bw_ib demo_bridge) = IpcConnectionState.kOffline"
    "GetConnectionState (bw_ib (run (bridge_step 1) demo_bridge ?ops)) = IpcConnectionState.kHandshake"
    "map snd (bw_states (run (bridge_step 1) demo_bridge ?ops)) =
     [(IpcConnectionState.kOffline, IpcConnectionState.kHandshake),
      (IpcConnectionState.kHandshake, IpcConnectionState.kNormal),
      (IpcConnectionState.kNormal, IpcConnectionState.kError),
      (IpcConnectionState.kError, IpcConnectionState.kReset),
      (IpcConnectionState.kReset, IpcConnectionState.kHandshake)]"
    by code_simp+
  with connection_states_follow_graph [of demo_bridge 4 ?ops 1] show ?thesis by simp
qed


section \<open>Handshake and heartbeat\<close>

lemma less_div_iff:
  fixes x k tpm :: int
  assumes "0 < tpm"
  shows "k < x div tpm \<longleftrightarrow> (k + 1) * tpm \<le> x"
proof
  assume "k < x div tpm"
  then have "(k + 1) * tpm \<le> x div tpm * tpm" using assms by (intro mult_right_mono) simp_all
  also have "\<dots> \<le> x" using assms by (simp add: minus_mod_eq_div_mult [symmetric])
  finally show "(k + 1) * tpm \<le> x" .
next
  assume "(k + 1) * tpm \<le> x"
  then have "((k + 1) * tpm) div tpm \<le> x div tpm" using assms by (intro zdiv_mono1)
  then show "k < x div tpm" using assms by simp
qed

lemma elapsed_ms_gt:
  assumes "0 < tpm" and "start \<le> now"
  shows "k < elapsed_ms tpm now start \<longleftrightarrow> (k + 1) * tpm \<le> now - start"
  using assms by (simp only: elapsed_ms_def sdiv_nonneg less_div_iff diff_ge_0_iff_ge)

text \<open>
  Rounds whose clock readings do not go back and whose first readings are at most 400 ms apart.
\<close>

fun paced :: "int \<Rightarrow> time_point \<Rightarrow> time_point \<Rightarrow> (time_point \<times> time_point) list \<Rightarrow> bool" where
  "paced tpm first latest [] \<longleftrightarrow> True"
| "paced tpm first latest ((t, t') # ts) \<longleftrightarrow>
     latest \<le> t \<and> t \<le> first + 400 * tpm \<and> t \<le> t' \<and> paced tpm t t' ts"

definition timed_round :: "time_point \<times> time_point \<Rightarrow> bridge_op" where
  "timed_round r = IbRound (fst r) (\<lambda>i. if i = 0 then fst r else snd r)"

lemma normal_round:
  assumes "0 < tpm" and "bridge_state w = IpcConnectionState.kNormal"
    and "ib_lastHeartbeatTime (bw_ib w) \<le> t" and "t - ib_lastHeartbeatTime (bw_ib w) < 501 * tpm"
    and "t \<le> t'"
  defines "w' \<equiv> bridge_step tpm w (timed_round (t, t'))"
  shows "bridge_state w' = IpcConnectionState.kNormal"
    and "ib_lastHeartbeatTime (bw_ib w') \<le> t'" and "t - ib_lastHeartbeatTime (bw_ib w') < 101 * tpm"
  using assms(1-5)
  by (auto simp: w'_def timed_round_def Run_round_def HandleNormalOperation_def Let_def elapsed_ms_gt
      kHeartbeatTimeoutMs_def kHeartbeatIntervalMs_def)

lemma paced_rounds_normal:
  assumes "0 < tpm" and "bridge_state w = IpcConnectionState.kNormal" and "paced tpm first latest ts"
    and "ib_lastHeartbeatTime (bw_ib w) \<le> latest" and "first - ib_lastHeartbeatTime (bw_ib w) < 101 * tpm"
  shows "bridge_state (run (bridge_step tpm) w (map timed_round ts)) = IpcConnectionState.kNormal"
  using assms(2-)
proof (induction ts arbitrary: w first latest)
  case Nil
  then show ?case by simp
next
  case (Cons r ts)
  obtain t t' where r: "r = (t, t')" by (cases r)
  have "ib_lastHeartbeatTime (bw_ib w) \<le> t" "t - ib_lastHeartbeatTime (bw_ib w) < 501 * tpm" "t \<le> t'"
    using Cons.prems by (auto simp: r)
  note n = normal_round [OF assms(1) Cons.prems(1) this]
  have "paced tpm t t' ts" using Cons.prems(2) by (simp add: r)
  from Cons.IH [OF n(1) this n(2,3)] show ?case by (simp add: r)
qed

text \<open>
  C38: an MCU that has fallen silent is never noticed. The heartbeat is refreshed by the bridge
  itself, so once in normal operation, with rounds at most 400 ms apart, the bridge stays in
  normal operation for ever, although nothing is received at all.
\<close>

theorem heartbeat_never_times_out:
  assumes "0 < tpm" and "GetConnectionState (bw_ib w) = IpcConnectionState.kNormal"
    and "paced tpm (ib_lastHeartbeatTime (bw_ib w)) (ib_lastHeartbeatTime (bw_ib w)) ts"
  shows "GetConnectionState (bw_ib (run (bridge_step tpm) w (map timed_round ts))) = IpcConnectionState.kNormal"
  using assms(2,3) paced_rounds_normal [OF assms(1) _ assms(3)] assms(1)
  by (simp add: GetConnectionState_def)

definition connected_bridge :: bridge_world where
  "connected_bridge = run (bridge_step 1) (bridge_start int) [IbInit (\<lambda>_. 0), at_time 150]"

theorem heartbeat_never_times_out_witness:
  "GetConnectionState (bw_ib (run (bridge_step 1) connected_bridge
      (map timed_round [(160, 161), (400, 400), (800, 805)]))) = IpcConnectionState.kNormal"
proof -
  have "GetConnectionState (bw_ib connected_bridge) = IpcConnectionState.kNormal"
    "paced 1 (ib_lastHeartbeatTime (bw_ib connected_bridge)) (ib_lastHeartbeatTime (bw_ib connected_bridge))
       [(160, 161), (400, 400), (800, 805)]"
    by code_simp+
  from heartbeat_never_times_out [OF _ this] show ?thesis by simp
qed

lemma fold_offer:
  "offered (pf_sd (fold (\<lambda>svc. on_sd (OfferService svc)) svcs pf)) i \<longleftrightarrow>
     i \<in> sd_serviceId ` set svcs \<or> offered (pf_sd pf) i"
  by (induction svcs arbitrary: pf) auto

lemma fold_stop:
  "offered (pf_sd (fold (\<lambda>svc. on_sd (StopOfferService (sd_serviceId svc))) svcs pf)) i \<longleftrightarrow>
     i \<notin> sd_serviceId ` set svcs \<and> offered (pf_sd pf) i"
  by (induction svcs arbitrary: pf) auto

lemma handshake_round:
  assumes "0 < tpm" and "bridge_state w = IpcConnectionState.kHandshake"
    and "GetGpioSignal kSocReady (bw_ib w)"
    and "ib_handshakeStartTime (bw_ib w) + 101 * tpm \<le> now 0"
  shows "let late = ib_handshakeStartTime (bw_ib w) + 2001 * tpm \<le> now 0; w' = Run_round tpm t now w
    in GetConnectionState (bw_ib w') = (if late then IpcConnectionState.kError else IpcConnectionState.kNormal) \<and>
       (\<forall>i. offered (pf_sd (bw_pf w')) i =
          (offered (pf_sd (bw_pf w)) i \<or> \<not> late \<and> i \<in> sd_serviceId ` set kServiceCatalog))"
proof -
  let ?late = "ib_handshakeStartTime (bw_ib w) + 2001 * tpm \<le> now 0"
  have le: "ib_handshakeStartTime (bw_ib w) \<le> now 0" using assms(1,4) by linarith
  have g: "ib_gpioState (bw_ib w) ! unat kSocReady"
    using assms(3) by (simp add: GetGpioSignal_def Let_def split: if_splits)
  have "2000 < elapsed_ms tpm (now 0) (ib_handshakeStartTime (bw_ib w)) \<longleftrightarrow> ?late"
    "100 < elapsed_ms tpm (now 0) (ib_handshakeStartTime (bw_ib w))"
    using elapsed_ms_gt [OF assms(1) le, of 2000] elapsed_ms_gt [OF assms(1) le, of 100] assms(4)
    by auto
  note e = this
  show ?thesis
  proof (cases ?late)
    case True
    with e(1) assms(2) show ?thesis
      by (simp add: Run_round_def HandleHandshake_def Let_def kHandshakeTimeoutMs_def GetConnectionState_def)
  next
    case False
    with e g assms(2) show ?thesis
      by (simp add: Run_round_def HandleHandshake_def Let_def kHandshakeTimeoutMs_def
          GetConnectionState_def OfferIpcServices_def fold_offer disj_commute)
  qed
qed

text \<open>
  The handshake involves no MCU. The first round whose elapsed time since \<open>Init\<close> is more than
  100 ms and at most 2000 ms enters normal operation and puts every service of the catalogue on
  offer, whatever the other side does; one that comes later than 2000 ms goes to error instead
  and offers nothing new.
\<close>

theorem handshake_outcome:
  assumes "0 < tpm" and "bridge_state w = IpcConnectionState.kHandshake"
    and "GetGpioSignal kSocReady (bw_ib w)"
    and "ib_handshakeStartTime (bw_ib w) + 101 * tpm \<le> now 0"
  shows "let late = ib_handshakeStartTime (bw_ib w) + 2001 * tpm \<le> now 0; w' = Run_round tpm t now w
    in GetConnectionState (bw_ib w') = (if late then IpcConnectionState.kError else IpcConnectionState.kNormal) \<and>
       (\<forall>i. offered (pf_sd (bw_pf w')) i =
          (offered (pf_sd (bw_pf w)) i \<or> \<not> late \<and> i \<in> sd_serviceId ` set kServiceCatalog))"
  using assms by (rule handshake_round)

theorem handshake_outcome_witness:
  "let w = snd (Bridge_Init (\<lambda>_. 0) (bridge_start int)) in
   GetConnectionState (bw_ib (Run_round 1 0 (\<lambda>_. 150) w)) = IpcConnectionState.kNormal \<and>
   offered (pf_sd (bw_pf (Run_round 1 0 (\<lambda>_. 150) w))) 0x1004"
proof -
  let ?w = "snd (Bridge_Init (\<lambda>_. 0) (bridge_start int))"
  have "bridge_state ?w = IpcConnectionState.kHandshake" "GetGpioSignal kSocReady (bw_ib ?w)"
    "ib_handshakeStartTime (bw_ib ?w) = 0" "0x1004 \<in> sd_serviceId ` set kServiceCatalog"
    by code_simp+
  with handshake_outcome [of 1 ?w "\<lambda>_. 150" 0] show ?thesis by (simp add: Let_def)
qed

section \<open>Sending\<close>

lemma bridge_step_eth:
  "\<exists>ms. ib_ethTxQueue (bw_ib (bridge_step tpm w op)) = ib_ethTxQueue (bw_ib w) @ ms"
proof (cases op)
  case (IbInit now)
  then show ?thesis by (simp add: Bridge_Init_def Let_def)
next
  case (IbRound t now)
  then show ?thesis
    by (cases "bridge_state w")
      (simp_all add: Run_round_def HandleHandshake_def HandleNormalOperation_def HandleError_def Let_def)
qed (auto simp: Bridge_Shutdown_def SendSomeIpMessage_def SendSpiFrame_def SetIpcStateCallback_def
    SetSpiRxCallback_def SetGpioChangeCallback_def Let_def)

lemma bridge_run_eth:
  "\<exists>ms. ib_ethTxQueue (bw_ib (run (bridge_step tpm) w ops)) = ib_ethTxQueue (bw_ib w) @ ms"
proof (induction ops arbitrary: w)
  case (Cons op ops)
  obtain ms where "ib_ethTxQueue (bw_ib (bridge_step tpm w op)) = ib_ethTxQueue (bw_ib w) @ ms"
    using bridge_step_eth by blast
  with Cons.IH [of "bridge_step tpm w op"] show ?case by auto
qed simp

text \<open>
  A SOME/IP message that the bridge accepts is never sent: it stays at its place in the
  transmit queue whatever happens afterwards, since nothing ever takes a message out.
\<close>

theorem accepted_message_never_leaves:
  assumes "fst (SendSomeIpMessage msg (bw_ib w))"
  shows "let q = ib_ethTxQueue (bw_ib (run (bridge_step tpm) w (IbSend msg # ops)))
    in length (ib_ethTxQueue (bw_ib w)) < length q \<and> q ! length (ib_ethTxQueue (bw_ib w)) = msg"
proof -
  let ?q = "ib_ethTxQueue (bw_ib (run (bridge_step tpm) w (IbSend msg # ops)))"
  let ?w = "bridge_step tpm w (IbSend msg)"
  obtain ms where "?q = ib_ethTxQueue (bw_ib ?w) @ ms"
    using bridge_run_eth [of tpm ?w ops] by auto
  moreover have "ib_ethTxQueue (bw_ib ?w) = ib_ethTxQueue (bw_ib w) @ [msg]"
    using assms(1) by (simp add: SendSomeIpMessage_def split: if_splits)
  ultimately show ?thesis by (simp add: Let_def)
qed

theorem accepted_message_never_leaves_witness:
  "ib_ethTxQueue (bw_ib (run (bridge_step 1) connected_bridge
     (IbSend demo_message # [at_time 200, at_time 9000, IbShutdown 1]))) ! 0 = demo_message"
proof -
  have "fst (SendSomeIpMessage demo_message (bw_ib connected_bridge))"
    "length (ib_ethTxQueue (bw_ib connected_bridge)) = 0"
    by code_simp+
  with accepted_message_never_leaves [of demo_message connected_bridge 1 "[at_time 200, at_time 9000, IbShutdown 1]"]
  show ?thesis by (simp add: Let_def)
qed

text \<open>
  \<open>Shutdown\<close> gives up the network handle and withdraws the services, but leaves the connection
  state as it was: a bridge shut down in normal operation still accepts messages.
\<close>

theorem shut_down_bridge_accepts:
  "let w' = Bridge_Shutdown k w in
   ib_networkHandle (bw_ib w') = None \<and> \<not> Bridge_IsRunning (bw_ib w') \<and>
   list_all (\<lambda>svc. \<not> offered (pf_sd (bw_pf w')) (sd_serviceId svc)) kServiceCatalog \<and>
   GetConnectionState (bw_ib w') = GetConnectionState (bw_ib w) \<and>
   fst (SendSomeIpMessage msg (bw_ib w')) = fst (SendSomeIpMessage msg (bw_ib w))"
proof -
  have "pf_sd (destroy_handle h pf) = pf_sd pf" for h pf
    by (simp add: destroy_handle_def on_nm_def split: option.split)
  then show ?thesis
    by (simp add: Bridge_Shutdown_def Let_def Bridge_IsRunning_def GetConnectionState_def
        SendSomeIpMessage_def StopIpcServices_def list_all_iff fold_stop)
qed

text \<open>A queued SPI frame always carries the checksum of its contents.\<close>

definition spi_frame_ok :: "SpiIpcFrame \<Rightarrow> bool" where
  "spi_frame_ok f \<longleftrightarrow> sp_crc16 f = ComputeCRC16 (spi_data f)"

lemma SendSpiFrame_ok:
  "list_all spi_frame_ok (ib_spiTxQueue ib) \<Longrightarrow>
   list_all spi_frame_ok (ib_spiTxQueue (snd (snd (SendSpiFrame f ib))))"
  by (simp add: SendSpiFrame_def Let_def spi_frame_ok_def spi_data_def)

text \<open>
  The reset line of the MCU, active when low, is low from construction through \<open>Init\<close>: it is
  raised only by an error recovery or by a client.
\<close>

lemma reset_line_low_after_Init:
  "\<not> GetGpioSignal kSocResetN (bw_ib (snd (Bridge_Init now (bridge_start now'))))"
  by (simp add: Bridge_Init_def Let_def bridge_start_def IPCBridge_ctor_def GetGpioSignal_def gpio_signals
      nth_list_update)

end
