(* ===== verification/VehicleSignalService.thy ===== *)
theory VehicleSignalService
  imports Platform
begin

text \<open>
  The vehicle signal service: src/application/SwcVehicleSignal/VehicleSignalService.h and .cpp.
  The proxy that waits for the service to be offered, and the component that checks the counter
  of the signals it receives, reports errors to health management and hands the signals on. A
  \<open>float\<close> is its 32 bits. The proxy's availability lambda is known to service discovery by a
  number \<open>acb\<close>; it locks the proxy's mutex, so calling it while \<open>SubscribeVehicleSignals\<close> holds
  that mutex is a deadlock. The enumerator \<open>kTerminating\<close> is declared nowhere and an argument.
  The lambda is also the only caller of \<open>OnSignalReceived\<close> in the code as it stands, which says of
  itself that a production build replaces it by reception; the properties of the frame check here
  hold for every frame, and theory \<open>VehicleRuns\<close> says what the present caller makes of them.
\<close>

section \<open>Data\<close>

record VehicleSignals =
  vg_vehicleSpeedKph :: u32
  vg_engineRpm :: u16
  vg_gearPosition :: u8
  vg_batteryVoltage :: u32
  vg_batteryCurrentA :: u32
  vg_ignitionOn :: bool
  vg_brakePressed :: bool
  vg_odometer :: u32
  vg_timestampMs :: u32
  vg_e2eCounterValue :: u8
  vg_e2eCrcValue :: u8

text \<open>The bits of \<open>12.0f\<close> and \<open>12.6f\<close>.\<close>

definition VehicleSignals_ctor :: VehicleSignals where
  "VehicleSignals_ctor = \<lparr>vg_vehicleSpeedKph = 0, vg_engineRpm = 0, vg_gearPosition = 0,
     vg_batteryVoltage = 0x41400000, vg_batteryCurrentA = 0, vg_ignitionOn = False,
     vg_brakePressed = False, vg_odometer = 0, vg_timestampMs = 0, vg_e2eCounterValue = 0,
     vg_e2eCrcValue = 0\<rparr>"

record VehicleSignalServiceProxy =
  vx_instance :: InstanceIdentifier
  vx_latestSignals :: VehicleSignals
  vx_callback :: "callback option"
  vx_subscriptionState :: SubscriptionState

type_synonym signal_calls = "(callback \<times> VehicleSignals) list"

record VehicleSignalServiceSWC =
  vw_proxy :: VehicleSignalServiceProxy
  vw_latestSignals :: VehicleSignals
  vw_running :: bool
  vw_externalCallback :: "callback option"
  vw_lastE2ECounter :: u8
  vw_e2eErrorCount :: u32

section \<open>The proxy\<close>

definition VehicleSignalServiceProxy_ctor :: "InstanceIdentifier \<Rightarrow> VehicleSignalServiceProxy" where
  "VehicleSignalServiceProxy_ctor inst = \<lparr>vx_instance = inst, vx_latestSignals = VehicleSignals_ctor,
     vx_callback = None, vx_subscriptionState = SubscriptionState.kNotSubscribed\<rparr>"

definition initSignals :: VehicleSignals where
  "initSignals = VehicleSignals_ctor\<lparr>vg_vehicleSpeedKph := 0, vg_batteryVoltage := 0x4149999A,
     vg_ignitionOn := True\<rparr>"

text \<open>The lambda given to service discovery.\<close>

definition on_availability ::
  "bool \<Rightarrow> VehicleSignalServiceProxy \<Rightarrow> VehicleSignalServiceProxy \<times> signal_calls" where
  "on_availability available px =
     (if available
      then (px\<lparr>vx_latestSignals := initSignals\<rparr>, invoke (vx_callback px) initSignals)
      else (px, []))"

text \<open>
  The mutex is held throughout; an invocation of the lambda with \<open>available\<close> set, made within
  the call, locks it again.
\<close>

definition SubscribeVehicleSignals ::
  "callback option \<Rightarrow> callback \<Rightarrow> VehicleSignalServiceProxy \<Rightarrow> SomeIpServiceDiscovery \<Rightarrow>
   (VehicleSignalServiceProxy \<times> SomeIpServiceDiscovery \<times> sd_calls) outcome" where
  "SubscribeVehicleSignals cb acb px sd =
     (let px = px\<lparr>vx_callback := cb, vx_subscriptionState := SubscriptionState.kSubscribed\<rparr>;
          (sd', calls) = SubscribeServiceAvailability 0x1001 acb sd
      in if list_ex (\<lambda>(_, _, available). available) calls then Inl SelfDeadlock
         else Inr (px, sd', calls))"

definition UnsubscribeVehicleSignals :: "VehicleSignalServiceProxy \<Rightarrow> VehicleSignalServiceProxy" where
  "UnsubscribeVehicleSignals px =
     px\<lparr>vx_subscriptionState := SubscriptionState.kNotSubscribed, vx_callback := None\<rparr>"

definition GetCurrentSignals :: "VehicleSignalServiceProxy \<Rightarrow> VehicleSignals" where
  "GetCurrentSignals px = vx_latestSignals px"

section \<open>The component\<close>

type_synonym swc_state = "VehicleSignalServiceSWC \<times> Platform \<times> signal_calls"

definition VehicleSignalServiceSWC_ctor :: VehicleSignalServiceSWC where
  "VehicleSignalServiceSWC_ctor =
     \<lparr>vw_proxy = VehicleSignalServiceProxy_ctor (InstanceIdentifier ''VehicleSignalService_0x1001''),
      vw_latestSignals = VehicleSignals_ctor, vw_running = False, vw_externalCallback = None,
      vw_lastE2ECounter = 0, vw_e2eErrorCount = 0\<rparr>"

definition ValidateE2E ::
  "VehicleSignals \<Rightarrow> VehicleSignalServiceSWC \<Rightarrow> bool \<times> VehicleSignalServiceSWC" where
  "ValidateE2E signals swc =
     (let expectedCounter = vw_lastE2ECounter swc + 1 in
      if vg_e2eCounterValue signals \<noteq> expectedCounter \<and> vw_lastE2ECounter swc \<noteq> 0
      then (False, swc)
      else (True, swc\<lparr>vw_lastE2ECounter := vg_e2eCounterValue signals\<rparr>))"

definition OnSignalReceived :: "time_point \<Rightarrow> VehicleSignals \<Rightarrow> swc_state \<Rightarrow> swc_state" where
  "OnSignalReceived now signals = (\<lambda>(swc, pf, calls).
     let (valid, swc) = ValidateE2E signals swc in
     if \<not> valid
     then
       let swc = swc\<lparr>vw_e2eErrorCount := vw_e2eErrorCount swc + 1\<rparr>;
           pf = (if vw_e2eErrorCount swc > 3
                 then on_phm (ReportCheckpoint ''VehicleSignalService'' 0xFF now) pf else pf)
       in (swc, pf, calls)
     else (swc\<lparr>vw_latestSignals := signals\<rparr>, pf, calls @ invoke (vw_externalCallback swc) signals))"

definition signalConf :: AliveSupervisionConfig where
  "signalConf = \<lparr>ac_aliveReferenceCycleMs = 100, ac_minMargin = 0, ac_maxMargin = 2,
     ac_failedSupervisionCyclesTol = 5\<rparr>"

text \<open>The number by which the proxy knows the component's own lambda.\<close>

definition own_lambda :: callback where "own_lambda = 0"

definition Swc_Init :: "callback \<Rightarrow> time_point \<Rightarrow> swc_state \<Rightarrow> (bool \<times> swc_state) outcome" where
  "Swc_Init acb now = (\<lambda>(swc, pf, calls).
     let pf = on_phm (\<lambda>phm. snd (RegisterEntity ''VehicleSignalService'' signalConf now phm)) pf;
         pf = report_state kRunning pf
     in obind (SubscribeVehicleSignals (Some own_lambda) acb (vw_proxy swc) (pf_sd pf))
          (\<lambda>(px, sd, c). Inr (True, swc\<lparr>vw_proxy := px\<rparr>,
             pf\<lparr>pf_sd := sd, pf_sd_calls := pf_sd_calls pf @ c\<rparr>, calls)))"

text \<open>
  Service discovery calling the availability lambda: the proxy's own change, and the component's
  lambda if it is still set.
\<close>

definition Swc_on_availability :: "time_point \<Rightarrow> bool \<Rightarrow> swc_state \<Rightarrow> swc_state" where
  "Swc_on_availability now available = (\<lambda>(swc, pf, calls).
     let (px, inner) = on_availability available (vw_proxy swc)
     in fold (\<lambda>(_, sig). OnSignalReceived now sig) inner (swc\<lparr>vw_proxy := px\<rparr>, pf, calls))"

definition Swc_Run_round :: "time_point \<Rightarrow> Platform \<Rightarrow> Platform" where
  "Swc_Run_round now = on_phm (ReportCheckpoint ''VehicleSignalService'' 0x01 now)"

text \<open>The main loop: one round for every element while the running flag stays set.\<close>

fun Swc_loop :: "(time_point \<times> bool) list \<Rightarrow> swc_state \<Rightarrow> swc_state" where
  "Swc_loop [] w = w"
| "Swc_loop ((now, stop) # rounds) w =
     (case w of (swc, pf, calls) \<Rightarrow>
        if \<not> vw_running swc then w
        else Swc_loop rounds (swc\<lparr>vw_running := \<not> stop\<rparr>, Swc_Run_round now pf, calls))"

definition Swc_Run :: "(time_point \<times> bool) list \<Rightarrow> swc_state \<Rightarrow> swc_state" where
  "Swc_Run rounds = (\<lambda>(swc, pf, calls). Swc_loop rounds (swc\<lparr>vw_running := True\<rparr>, pf, calls))"

definition Swc_Shutdown :: "ExecutionState \<Rightarrow> swc_state \<Rightarrow> swc_state" where
  "Swc_Shutdown kTerminating = (\<lambda>(swc, pf, calls).
     (swc\<lparr>vw_running := False, vw_proxy := UnsubscribeVehicleSignals (vw_proxy swc)\<rparr>,
      report_state kTerminating pf, calls))"

definition VehicleSignalServiceSWC_dtor :: "ExecutionState \<Rightarrow> swc_state \<Rightarrow> swc_state" where
  "VehicleSignalServiceSWC_dtor kTerminating w =
     (if vw_running (fst w) then Swc_Shutdown kTerminating w else w)"

definition GetLatestSignals :: "VehicleSignalServiceSWC \<Rightarrow> VehicleSignals" where
  "GetLatestSignals swc = vw_latestSignals swc"

definition SetSignalChangeCallback ::
  "callback option \<Rightarrow> VehicleSignalServiceSWC \<Rightarrow> VehicleSignalServiceSWC" where
  "SetSignalChangeCallback cb swc = swc\<lparr>vw_externalCallback := cb\<rparr>"

definition Swc_IsRunning :: "VehicleSignalServiceSWC \<Rightarrow> bool" where
  "Swc_IsRunning swc = vw_running swc"

section \<open>The counter check\<close>

lemma ValidateE2E_iff:
  "fst (ValidateE2E sig swc) \<longleftrightarrow>
     vw_lastE2ECounter swc = 0 \<or> vg_e2eCounterValue sig = vw_lastE2ECounter swc + 1"
  by (auto simp: ValidateE2E_def Let_def)

lemma OnSignalReceived_accept:
  assumes "vw_lastE2ECounter swc = 0 \<or> vg_e2eCounterValue sig = vw_lastE2ECounter swc + 1"
  shows "OnSignalReceived now sig (swc, pf, calls) =
    (swc\<lparr>vw_lastE2ECounter := vg_e2eCounterValue sig, vw_latestSignals := sig\<rparr>, pf,
     calls @ invoke (vw_externalCallback swc) sig)"
  using assms by (auto simp: OnSignalReceived_def ValidateE2E_def Let_def)

lemma OnSignalReceived_reject:
  assumes "vw_lastE2ECounter swc \<noteq> 0" and "vg_e2eCounterValue sig \<noteq> vw_lastE2ECounter swc + 1"
  shows "OnSignalReceived now sig (swc, pf, calls) =
    (swc\<lparr>vw_e2eErrorCount := vw_e2eErrorCount swc + 1\<rparr>,
     (if vw_e2eErrorCount swc + 1 > 3
      then on_phm (ReportCheckpoint ''VehicleSignalService'' 0xFF now) pf else pf), calls)"
  using assms by (simp add: OnSignalReceived_def ValidateE2E_def Let_def)

text \<open>A sequence of frames, all received at one time.\<close>

definition receive_all :: "time_point \<Rightarrow> VehicleSignals list \<Rightarrow> swc_state \<Rightarrow> swc_state" where
  "receive_all now sigs w = fold (OnSignalReceived now) sigs w"

lemma receive_all_rejected:
  assumes "vw_lastE2ECounter swc \<noteq> 0"
    and "\<forall>sig \<in> set sigs. vg_e2eCounterValue sig \<noteq> vw_lastE2ECounter swc + 1"
  shows "\<exists>pf'. receive_all now sigs (swc, pf, calls) =
    (swc\<lparr>vw_e2eErrorCount := vw_e2eErrorCount swc + of_nat (length sigs)\<rparr>, pf', calls)"
  using assms
proof (induction sigs arbitrary: swc pf)
  case Nil
  then show ?case by (simp add: receive_all_def)
next
  case (Cons sig sigs)
  let ?swc = "swc\<lparr>vw_e2eErrorCount := vw_e2eErrorCount swc + 1\<rparr>"
  obtain pf1 where "OnSignalReceived now sig (swc, pf, calls) = (?swc, pf1, calls)"
    using Cons.prems by (simp add: OnSignalReceived_reject)
  moreover obtain pf' where "receive_all now sigs (?swc, pf1, calls) =
      (?swc\<lparr>vw_e2eErrorCount := vw_e2eErrorCount ?swc + of_nat (length sigs)\<rparr>, pf', calls)"
    using Cons.IH [of ?swc pf1] Cons.prems by auto
  ultimately show ?case by (simp add: receive_all_def ac_simps)
qed

definition with_counter :: "VehicleSignals \<Rightarrow> u8 \<Rightarrow> VehicleSignals" where
  "with_counter sig c = sig\<lparr>vg_e2eCounterValue := c\<rparr>"

lemma with_counter_counter: "vg_e2eCounterValue (with_counter sig c) = c"
  by (simp add: with_counter_def)

lemma counter_misses:
  assumes "k < 255"
  shows "(l :: u8) + 2 + of_nat k \<noteq> l + 1"
proof
  assume "l + 2 + of_nat k = l + 1"
  then have "of_nat k + (1 :: u8) = 0" by (simp add: algebra_simps)
  then have "(of_nat (k + 1) :: u8) = 0" by (simp add: add.commute)
  then have "2 ^ LENGTH(8) dvd k + 1" by (simp only: word_of_nat_eq_0_iff)
  then have "256 dvd k + 1" by simp
  with assms show False by (auto dest: dvd_imp_le)
qed

text \<open>
  One lost frame costs 256: when the last accepted counter is not zero and the frame after it is
  lost, the next 255 frames, each one higher than the one before, are all rejected, because the
  expected counter is not moved by a rejected frame: none of them reaches the latest signals or the
  external callback, and the error count grows by 255. Only the frame that brings the lost counter
  value round again is accepted. The program does not get there: the only caller of this operation
  passes signals whose counter is zero (\<open>VehicleRuns.only_invented_signals\<close>).
\<close>

theorem lost_frame_blackout:
  assumes "vw_lastE2ECounter swc = l" and "l \<noteq> 0"
  shows "\<exists>swc' pf'. receive_all now (map (\<lambda>k. with_counter sig (l + 2 + of_nat k)) [0..<255]) (swc, pf, calls)
      = (swc', pf', calls) \<and>
    GetLatestSignals swc' = GetLatestSignals swc \<and>
    vw_e2eErrorCount swc' = vw_e2eErrorCount swc + 255 \<and>
    fst (ValidateE2E (with_counter sig (l + 2 + of_nat 255)) swc')"
proof -
  let ?sigs = "map (\<lambda>k. with_counter sig (l + 2 + of_nat k)) [0..<255]"
  have "\<forall>s \<in> set ?sigs. vg_e2eCounterValue s \<noteq> vw_lastE2ECounter swc + 1"
  proof
    fix s assume "s \<in> set ?sigs"
    then obtain k where "k < 255" and s: "s = with_counter sig (l + 2 + of_nat k)" by auto
    show "vg_e2eCounterValue s \<noteq> vw_lastE2ECounter swc + 1"
      unfolding assms(1) s with_counter_counter by (rule counter_misses) fact
  qed
  from receive_all_rejected [OF _ this, of now pf calls] assms obtain pf'
    where "receive_all now ?sigs (swc, pf, calls) =
      (swc\<lparr>vw_e2eErrorCount := vw_e2eErrorCount swc + of_nat (length ?sigs)\<rparr>, pf', calls)" by auto
  then show ?thesis
    using assms
    by (intro exI [of _ "swc\<lparr>vw_e2eErrorCount := vw_e2eErrorCount swc + 255\<rparr>"] exI [of _ pf'])
      (simp add: GetLatestSignals_def ValidateE2E_iff with_counter_def)
qed

definition demo_swc :: "u8 \<Rightarrow> VehicleSignalServiceSWC" where
  "demo_swc l = VehicleSignalServiceSWC_ctor\<lparr>vw_lastE2ECounter := l\<rparr>"

theorem lost_frame_blackout_witness:
  "\<exists>swc' pf'. receive_all 0 (map (\<lambda>k. with_counter initSignals (7 + 2 + of_nat k)) [0..<255])
      (demo_swc 7, Platform_start, []) = (swc', pf', []) \<and> vw_e2eErrorCount swc' = 255"
proof -
  have "vw_lastE2ECounter (demo_swc 7) = 7" "(7 :: u8) \<noteq> 0" "vw_e2eErrorCount (demo_swc 7) = 0"
    by code_simp+
  with lost_frame_blackout [of "demo_swc 7" 7 0 initSignals Platform_start "[]"] show ?thesis by auto
qed

text \<open>
  A frame whose counter is zero disables the check of the frame after it: once it has been
  accepted, any counter at all is accepted next, repeated, old or jumping ahead. A regular sender
  passes through zero every 256 frames.
\<close>

theorem counter_zero_exempts_next:
  assumes "fst (ValidateE2E (with_counter sig 0) swc)"
  shows "fst (ValidateE2E (with_counter sig' c) (snd (ValidateE2E (with_counter sig 0) swc)))"
  using assms by (auto simp: ValidateE2E_def with_counter_def Let_def split: if_splits)

theorem counter_zero_exempts_next_witness:
  "fst (ValidateE2E (with_counter initSignals 99)
     (snd (ValidateE2E (with_counter initSignals 0) (demo_swc 255))))"
  by (rule counter_zero_exempts_next) code_simp

text \<open>
  Reporting the fault looks like a sign of life. From the fourth rejected frame on, every
  rejected frame has on health management exactly the effect of the periodic alive checkpoint of
  \<open>Run\<close>, so the error keeps the entity healthy.
\<close>

theorem fault_report_is_alive_report:
  assumes "\<not> fst (ValidateE2E sig swc)" and "vw_e2eErrorCount swc + 1 > 3"
  shows "pf_phm (fst (snd (OnSignalReceived now sig (swc, pf, calls)))) = pf_phm (Swc_Run_round now pf)"
  using assms
  by (simp add: ValidateE2E_iff OnSignalReceived_reject Swc_Run_round_def ReportCheckpoint_def)

theorem fault_report_is_alive_report_witness:
  "pf_phm (fst (snd (OnSignalReceived 9 (with_counter initSignals 50)
      ((demo_swc 7)\<lparr>vw_e2eErrorCount := 3\<rparr>, Platform_start, [])))) = pf_phm (Swc_Run_round 9 Platform_start)"
  by (rule fault_report_is_alive_report) code_simp+

lemma subscribe_deadlock:
  "SubscribeVehicleSignals cb acb px sd = Inl SelfDeadlock \<longleftrightarrow> offered sd 0x1001"
  by (auto simp: SubscribeVehicleSignals_def SubscribeServiceAvailability_def offered_def Let_def
      split: option.split)

text \<open>
  Subscribing deadlocks exactly when the service is already on offer: service discovery then
  calls the availability lambda at once, which locks the mutex that \<open>SubscribeVehicleSignals\<close>
  holds.
\<close>

theorem subscribe_deadlocks_iff_offered:
  "SubscribeVehicleSignals cb acb px sd = Inl SelfDeadlock \<longleftrightarrow> offered sd 0x1001"
  by (rule subscribe_deadlock)

text \<open>
  When the service comes back on offer, the initial signals the proxy makes up carry counter zero
  and are themselves rejected, unless the last accepted counter is zero or 255.
\<close>

lemma reoffer_counts_as_error:
  assumes "vx_callback (vw_proxy swc) = Some own_lambda"
    and "vw_lastE2ECounter swc \<noteq> 0" and "vw_lastE2ECounter swc \<noteq> 255"
  shows "vw_e2eErrorCount (fst (Swc_on_availability now True (swc, pf, calls))) = vw_e2eErrorCount swc + 1"
proof -
  have "(0 :: u8) \<noteq> vw_lastE2ECounter swc + 1"
  proof
    assume "(0 :: u8) = vw_lastE2ECounter swc + 1"
    then have "vw_lastE2ECounter swc = - 1" by (simp add: eq_neg_iff_add_eq_0)
    with assms(3) show False by simp
  qed
  with assms show ?thesis
    by (simp add: Swc_on_availability_def on_availability_def OnSignalReceived_reject initSignals_def
        VehicleSignals_ctor_def)
qed

end
