(* ===== verification/VsSwc.thy ===== *)
theory VsSwc
  imports VsProxy Logging
begin

text \<open>
  The application component that consumes the vehicle signals:
  include/ara/app/vehicle_signal_swc.h and src/ara/app/vehicle_signal_swc.cpp. A printed line is a
  value: its message key with the fields in the order printed, a \<open>float\<close> as its 32 bits with the
  number of decimals it is printed with, so that only the formatting of numbers is left to
  \<open>printf\<close>; the constant notes are left out. The receive handler runs in the proxy's
  receive thread, once for each sample that a round pushes.
\<close>

section \<open>Data\<close>

text \<open>A \<open>float\<close> printed with a number of decimals or streamed, an integer, a text.\<close>

datatype arg = Flt nat u32 | Streamed u32 | Num int | Txt string

datatype line =
    SocLog LogLevel string "(string \<times> arg) list"
  | SignalJson "(string \<times> arg) list"
  | AraLog string LogLevel "arg list"

record VehicleSignalSwc =
  sw_proxy :: "VehicleSignalProxy option"
  sw_logger :: Logger
  sw_samplesReceived :: u64
  sw_lastSpeedKmh :: u32
  sw_lastRpm :: u32
  sw_lastFuelPct :: u32
  sw_lastE2eCounter :: u8

text \<open>A dash and the rule of the statistics line, which are not ASCII: the bytes of their UTF-8 encoding.\<close>

definition em_dash :: string where "em_dash = [CHR 0xE2, CHR 0x80, CHR 0x94]"

definition statistics_title :: string where
  "statistics_title =
     (let bar = [CHR 0xE2, CHR 0x94, CHR 0x80]
      in bar @ bar @ bar @ '' VehicleSignal '' @ [CHR 0xE7, CHR 0xBB, CHR 0x9F, CHR 0xE8, CHR 0xAE, CHR 0xA1, CHR 0x20] @
         bar @ bar @ bar)"

definition VehicleSignalSwc_ctor :: "LogRegistry \<Rightarrow> VehicleSignalSwc \<times> LogRegistry" where
  "VehicleSignalSwc_ctor reg =
     (let (i, reg) = CreateLogger ''VSIG'' ''VehicleSignalSWC'' LogLevel.kVerbose reg
      in (\<lparr>sw_proxy = None, sw_logger = lr_heap reg ! i, sw_samplesReceived = 0,
           sw_lastSpeedKmh = 0, sw_lastRpm = 0, sw_lastFuelPct = 0, sw_lastE2eCounter = 0\<rparr>, reg))"

definition log_info :: "arg list \<Rightarrow> VehicleSignalSwc \<Rightarrow> line" where
  "log_info args swc = AraLog (lg_ctx_id (sw_logger swc)) LogLevel.kInfo args"

definition log_error :: "arg list \<Rightarrow> VehicleSignalSwc \<Rightarrow> line" where
  "log_error args swc = AraLog (lg_ctx_id (sw_logger swc)) LogLevel.kError args"

definition VEHICLE_SIGNAL_SVC_PORT :: int where "VEHICLE_SIGNAL_SVC_PORT = 30501"

section \<open>The receive handler\<close>

definition brake_num :: "bool \<Rightarrow> arg" where
  "brake_num b = Num (if b then 1 else 0)"

definition dispatch_fields :: "VehicleSignalSample \<Rightarrow> u64 \<Rightarrow> (string \<times> arg) list" where
  "dispatch_fields s n =
     [(''session'', Num (uint (vs_sessionId s))), (''speed'', Flt 2 (vs_vehicleSpeedKmh s)),
      (''rpm'', Flt 1 (vs_engineRpm s)), (''steer'', Flt 2 (vs_steeringAngleDeg s)),
      (''brake'', brake_num (vs_brakePedal s)), (''door'', Num (uint (vs_doorStatus s))),
      (''fuel'', Flt 2 (vs_fuelLevelPct s)), (''e2e_crc'', Num (uint (vs_e2eCrc s))),
      (''e2e_cnt'', Num (uint (vs_e2eCounter s))), (''rx_total'', Num (uint n))]"

definition signal_fields :: "VehicleSignalSample \<Rightarrow> (string \<times> arg) list" where
  "signal_fields s =
     [(''speed'', Flt 2 (vs_vehicleSpeedKmh s)), (''rpm'', Flt 1 (vs_engineRpm s)),
      (''brake'', brake_num (vs_brakePedal s)), (''steer'', Flt 2 (vs_steeringAngleDeg s)),
      (''door'', Num (uint (vs_doorStatus s))), (''fuel'', Flt 2 (vs_fuelLevelPct s)),
      (''e2e_ok'', Num 1), (''e2e_crc'', Num (uint (vs_e2eCrc s))),
      (''e2e_cnt'', Num (uint (vs_e2eCounter s))), (''session'', Num (uint (vs_sessionId s)))]"

definition hmi_fields :: "VehicleSignalSample \<Rightarrow> u64 \<Rightarrow> (string \<times> arg) list" where
  "hmi_fields s n =
     [(''proto'', Txt ''stdout pipe + WebSocket''),
      (''session'', Num (uint (vs_sessionId s))), (''speed'', Flt 2 (vs_vehicleSpeedKmh s)),
      (''rpm'', Flt 1 (vs_engineRpm s)), (''steer'', Flt 2 (vs_steeringAngleDeg s)),
      (''brake'', brake_num (vs_brakePedal s)), (''door'', Num (uint (vs_doorStatus s))),
      (''fuel'', Flt 2 (vs_fuelLevelPct s)), (''tx_total'', Num (uint n))]"

definition rx_fields :: "VehicleSignalSample \<Rightarrow> u64 \<Rightarrow> (string \<times> arg) list" where
  "rx_fields s n =
     [(''session'', Num (uint (vs_sessionId s))), (''speed'', Flt 1 (vs_vehicleSpeedKmh s)),
      (''rpm'', Flt 0 (vs_engineRpm s)), (''steer'', Flt 1 (vs_steeringAngleDeg s)),
      (''brake'', brake_num (vs_brakePedal s)), (''door'', Num (uint (vs_doorStatus s))),
      (''fuel'', Flt 1 (vs_fuelLevelPct s)), (''e2e_crc'', Num (uint (vs_e2eCrc s))),
      (''e2e_cnt'', Num (uint (vs_e2eCounter s))), (''rx_total'', Num (uint n))]"

definition rx_log_args :: "VehicleSignalSample \<Rightarrow> arg list" where
  "rx_log_args s =
     [Txt ''[SOMEIP RX] SID=0x1001'', Txt '' session='', Num (uint (vs_sessionId s)),
      Txt '' speed='', Streamed (vs_vehicleSpeedKmh s), Txt ''km/h'', Txt '' rpm='', Streamed (vs_engineRpm s),
      Txt '' brake='', Txt (if vs_brakePedal s then ''ON'' else ''OFF''),
      Txt '' fuel='', Streamed (vs_fuelLevelPct s), Txt ''%'', Txt '' E2E[crc='', Num (uint (vs_e2eCrc s)),
      Txt '' cnt='', Num (uint (vs_e2eCounter s)), Txt ''] OK'']"

definition on_sample :: "VehicleSignalSample \<Rightarrow> VehicleSignalSwc \<Rightarrow> line list \<times> VehicleSignalSwc" where
  "on_sample sample swc =
     (let swc = swc\<lparr>sw_lastSpeedKmh := vs_vehicleSpeedKmh sample, sw_lastRpm := vs_engineRpm sample,
                    sw_lastFuelPct := vs_fuelLevelPct sample, sw_lastE2eCounter := vs_e2eCounter sample,
                    sw_samplesReceived := sw_samplesReceived swc + 1\<rparr>;
          n = sw_samplesReceived swc
      in ((if n mod 10 = 1 then [SocLog LogLevel.kInfo ''SIGNAL_DISPATCH'' (dispatch_fields sample n)] else [])
          @ [SignalJson (signal_fields sample)]
          @ (if n mod 10 = 1 then [SocLog LogLevel.kInfo ''AP_HMI_SEND'' (hmi_fields sample n)] else [])
          @ (if n mod 100 = 1 then [SocLog LogLevel.kInfo ''SOMEIP_RX'' (rx_fields sample n)] else [])
          @ (if n mod 100 = 1 then [log_info (rx_log_args sample) swc] else []), swc))"

section \<open>Start, stop and the periodic function\<close>

text \<open>The number by which the event knows the handler that \<open>Start\<close> sets.\<close>

definition own_handler :: callback where "own_handler = 1"

definition port_fields :: "(string \<times> arg) list" where
  "port_fields = [(''port'', Num VEHICLE_SIGNAL_SVC_PORT)]"

text \<open>
  \<open>Start\<close> as it is while no datagram arrives; the receive thread runs from the constructor of the proxy
  on, and \<open>AppThreads\<close> takes \<open>Start\<close> and \<open>Stop\<close> apart, with the steps of that thread in between.
\<close>

definition Swc_Start :: "int \<Rightarrow> int \<Rightarrow> VehicleSignalSwc \<Rightarrow> line list \<times> VehicleSignalSwc" where
  "Swc_Start fd bound swc =
     (let starting = [log_info [Txt ''[VehicleSignalSWC] Starting... FindService(0x1001)''] swc];
          swc = swc\<lparr>sw_proxy := FindService fd bound\<rparr>
      in case sw_proxy swc of
           None \<Rightarrow>
             (starting @
              [log_error [Txt (''[VehicleSignalSWC] FindService failed '' @ em_dash @ '' socket bind error'')] swc,
               SocLog LogLevel.kError ''FindService FAILED'' port_fields], swc)
         | Some p \<Rightarrow>
             (let p = p\<lparr>vp_VehicleSignal := Ev_Subscribe 32 (vp_VehicleSignal p)\<rparr>;
                  p = p\<lparr>vp_VehicleSignal := SetReceiveHandler (Some own_handler) (vp_VehicleSignal p)\<rparr>
              in (starting @
                  [SocLog LogLevel.kInfo ''FindService OK'' port_fields,
                   SocLog LogLevel.kInfo ''Subscribed to VehicleSignal Event'' port_fields,
                   log_info [Txt ''[VehicleSignalSWC] Subscribed to VehicleSignal Event (UDP 127.0.0.1:'',
                     Num VEHICLE_SIGNAL_SVC_PORT, Txt '')''] swc],
                  swc\<lparr>sw_proxy := Some p\<rparr>)))"

text \<open>
  \<open>proxy.reset()\<close> runs the proxy's destructor, which joins the receive thread; nothing refers to
  the destroyed proxy any more.
\<close>

definition Swc_Stop :: "VehicleSignalSwc \<Rightarrow> line list \<times> VehicleSignalSwc" where
  "Swc_Stop swc =
     (case sw_proxy swc of
        None \<Rightarrow> ([], swc)
      | Some p \<Rightarrow>
          ([log_info [Txt ''[VehicleSignalSWC] Stopped''] swc,
            SocLog LogLevel.kInfo ''Stopped'' [(''rx_total'', Num (uint (sw_samplesReceived swc)))]],
           swc\<lparr>sw_proxy := None\<rparr>))"

definition VehicleSignalSwc_dtor :: "VehicleSignalSwc \<Rightarrow> line list \<times> VehicleSignalSwc" where
  "VehicleSignalSwc_dtor swc = Swc_Stop swc"

definition stats_args :: "Stats \<Rightarrow> u32 \<Rightarrow> u32 \<Rightarrow> u32 \<Rightarrow> arg list" where
  "stats_args stats speed rpm fuel =
     [Txt statistics_title, Txt ''  rx='', Num (uint (st_rxPackets stats)),
      Txt ''  bytes='', Num (uint (st_rxBytes stats)), Txt ''  e2eErr='', Num (uint (st_e2eErrors stats)),
      Txt ''  speed='', Streamed speed, Txt ''km/h'', Txt ''  rpm='', Streamed rpm, Txt ''  fuel='', Streamed fuel, Txt ''%'']"

text \<open>\<open>tick\<close> is a static variable: one for the process, kept beside the component.\<close>

definition MainFunction_100ms :: "u32 \<Rightarrow> VehicleSignalSwc \<Rightarrow> line list \<times> u32" where
  "MainFunction_100ms tick swc =
     (case sw_proxy swc of
        None \<Rightarrow> ([], tick)
      | Some p \<Rightarrow>
          (let stats = GetStats p; tick = tick + 1
           in (if tick mod 10 = 0
               then [log_info (stats_args stats (sw_lastSpeedKmh swc) (sw_lastRpm swc) (sw_lastFuelPct swc)) swc]
               else [], tick)))"

text \<open>A round of the receive thread, with the handler run for the samples it pushes.\<close>

fun run_handler ::
  "(callback \<times> VehicleSignalSample) list \<Rightarrow> VehicleSignalSwc \<Rightarrow> line list \<times> VehicleSignalSwc" where
  "run_handler [] swc = ([], swc)"
| "run_handler ((_, s) # calls) swc =
     (let (ls, swc) = on_sample s swc; (ls', swc) = run_handler calls swc in (ls @ ls', swc))"

definition raw_line :: "(nat \<times> u64) option \<Rightarrow> line list" where
  "raw_line raw = (case raw of None \<Rightarrow> []
     | Some (n, packets) \<Rightarrow> [SocLog LogLevel.kInfo ''SOMEIP_RAW_RX''
         [(''src'', Txt ''127.0.0.1:40501''), (''dst_port'', Num 30501),
          (''proto'', Txt ''SOME/IP over UDP''), (''frame_bytes'', Num (int n)),
          (''rx_total'', Num (uint packets))]])"

definition swc_rx :: "u8 list option \<Rightarrow> VehicleSignalSwc \<Rightarrow> (line list \<times> VehicleSignalSwc) outcome" where
  "swc_rx input swc =
     (case sw_proxy swc of
        None \<Rightarrow> Inr ([], swc)
      | Some p \<Rightarrow> obind (rx_round input p) (\<lambda>(raw, calls, p).
          let (ls, swc) = run_handler calls (swc\<lparr>sw_proxy := Some p\<rparr>)
          in Inr (raw_line raw @ ls, swc)))"

section \<open>Receiving\<close>

text \<open>The component is subscribed with its handler in place, as \<open>Start\<close> leaves it.\<close>

definition receiving :: "VehicleSignalSwc \<Rightarrow> bool" where
  "receiving swc \<longleftrightarrow> (case sw_proxy swc of None \<Rightarrow> False
     | Some p \<Rightarrow> ev_state (vp_VehicleSignal p) = SubscriptionState.kSubscribed \<and>
         ev_maxSamples (vp_VehicleSignal p) = 32 \<and>
         ev_receiveHandler (vp_VehicleSignal p) = Some own_handler)"

lemma Swc_Start_receiving:
  assumes "0 \<le> fd" and "0 \<le> bound"
  shows "receiving (snd (Swc_Start fd bound swc))"
  using assms
  by (simp add: receiving_def Swc_Start_def FindService_def VehicleSignalProxy_ctor_def Ev_Subscribe_def
      SetReceiveHandler_def Let_def)

lemma Swc_Start_fails:
  assumes "fd < 0 \<or> bound < 0"
  shows "sw_proxy (snd (Swc_Start fd bound swc)) = None"
  using assms by (auto simp: Swc_Start_def FindService_def VehicleSignalProxy_ctor_def Let_def)

lemma on_sample_frame [simp]:
  "sw_proxy (snd (on_sample s swc)) = sw_proxy swc"
  "sw_samplesReceived (snd (on_sample s swc)) = sw_samplesReceived swc + 1"
  "sw_logger (snd (on_sample s swc)) = sw_logger swc"
  by (simp_all add: on_sample_def Let_def)

lemma receiving_on_sample [simp]: "receiving (snd (on_sample s swc)) = receiving swc"
  by (simp add: receiving_def)

definition proxy_ready :: "VehicleSignalProxy \<Rightarrow> bool" where
  "proxy_ready p \<longleftrightarrow> ev_state (vp_VehicleSignal p) = SubscriptionState.kSubscribed \<and>
     ev_maxSamples (vp_VehicleSignal p) = 32 \<and>
     ev_receiveHandler (vp_VehicleSignal p) = Some own_handler"

lemma receiving_iff: "receiving swc \<longleftrightarrow> (\<exists>p. sw_proxy swc = Some p \<and> proxy_ready p)"
  by (simp add: receiving_def proxy_ready_def split: option.split)

lemma proxy_ready_stats [simp]: "proxy_ready (p\<lparr>vp_stats := st\<rparr>) = proxy_ready p"
  by (simp add: proxy_ready_def)

lemma push_ready:
  assumes "proxy_ready p"
  shows "\<exists>ev. PushSample s (vp_VehicleSignal p) = Inr ([(own_handler, s)], ev) \<and>
    proxy_ready (p\<lparr>vp_VehicleSignal := ev\<rparr>)"
  using assms by (simp add: proxy_ready_def PushSample_subscribed)

lemma Parse_ready:
  assumes "proxy_ready p"
  shows "\<exists>good calls p'. ParseAndDispatch buf p = Inr (good, calls, p') \<and> proxy_ready p'"
proof -
  have "case ParseAndDispatch buf p of Inl _ \<Rightarrow> False | Inr (_, _, p') \<Rightarrow> proxy_ready p'"
    using assms push_ready [OF assms, of "sample_of_payload (payload_of_bytes (take 20 (drop 16 buf))) (rd2 buf 10)"]
    by (auto simp: ParseAndDispatch_def Let_def)
  then show ?thesis by (auto split: sum.splits)
qed

lemma rx_round_ready:
  assumes "proxy_ready p"
  shows "\<exists>raw calls p'. rx_round input p = Inr (raw, calls, p') \<and> proxy_ready p'"
proof (cases input)
  case None
  with assms show ?thesis by (simp add: rx_round_def)
next
  case (Some buf)
  from Parse_ready [of "p\<lparr>vp_stats := (vp_stats p)\<lparr>st_rxPackets := st_rxPackets (vp_stats p) + 1,
      st_rxBytes := st_rxBytes (vp_stats p) + of_nat (length buf)\<rparr>\<rparr>" buf] assms Some
  show ?thesis by (auto simp: rx_round_def Let_def)
qed

lemma run_handler_proxy [simp]: "sw_proxy (snd (run_handler calls swc)) = sw_proxy swc"
  by (induction calls arbitrary: swc) (auto simp: case_prod_beta Let_def)

lemma swc_rx_receiving:
  assumes "receiving swc"
  shows "\<exists>ls swc'. swc_rx input swc = Inr (ls, swc') \<and> receiving swc'"
proof -
  obtain p where p: "sw_proxy swc = Some p" "proxy_ready p" using assms by (auto simp: receiving_iff)
  obtain raw calls p' where "rx_round input p = Inr (raw, calls, p')" "proxy_ready p'"
    using rx_round_ready [OF p(2)] by blast
  with p show ?thesis by (simp add: swc_rx_def receiving_iff case_prod_beta Let_def)
qed

lemma swc_rx_stopped: "sw_proxy swc = None \<Longrightarrow> swc_rx input swc = Inr ([], swc)"
  by (simp add: swc_rx_def)

section \<open>What the component promises\<close>

text \<open>Rounds of the receive thread, and the frame in which a sample is sent.\<close>

fun swc_rx_run :: "u8 list option list \<Rightarrow> VehicleSignalSwc \<Rightarrow> (line list \<times> VehicleSignalSwc) outcome" where
  "swc_rx_run [] swc = Inr ([], swc)"
| "swc_rx_run (i # is) swc = obind (swc_rx i swc) (\<lambda>(ls, swc).
     obind (swc_rx_run is swc) (\<lambda>(ls', swc). Inr (ls @ ls', swc)))"

definition sent_frame :: "u16 \<times> VehicleSignalSample \<Rightarrow> u8 list" where
  "sent_frame x = Serialize (event_message (fst x) (signal_payload (snd x)))"

definition arrival :: "u16 \<times> VehicleSignalSample \<Rightarrow> VehicleSignalSample" where
  "arrival x = (snd x)\<lparr>vs_e2eCrc := e2e_crc8 (signal_bytes (snd x)), vs_sessionId := fst x\<rparr>"

text \<open>A reader of the signal records: the sample with the fields of the record, by their keys.\<close>

fun arg_flt :: "arg option \<Rightarrow> u32" where
  "arg_flt (Some (Flt d b)) = b"
| "arg_flt _ = 0"

fun arg_num :: "arg option \<Rightarrow> int" where
  "arg_num (Some (Num i)) = i"
| "arg_num _ = 0"

fun sample_of_line :: "line \<Rightarrow> VehicleSignalSample option" where
  "sample_of_line (SignalJson fs) = Some
     \<lparr>vs_vehicleSpeedKmh = arg_flt (map_of fs ''speed''), vs_engineRpm = arg_flt (map_of fs ''rpm''),
      vs_brakePedal = (arg_num (map_of fs ''brake'') = 1), vs_steeringAngleDeg = arg_flt (map_of fs ''steer''),
      vs_doorStatus = word_of_int (arg_num (map_of fs ''door'')), vs_fuelLevelPct = arg_flt (map_of fs ''fuel''),
      vs_e2eCrc = word_of_int (arg_num (map_of fs ''e2e_crc'')),
      vs_e2eCounter = word_of_int (arg_num (map_of fs ''e2e_cnt'')),
      vs_sessionId = word_of_int (arg_num (map_of fs ''session''))\<rparr>"
| "sample_of_line _ = None"

lemma sample_of_signal_fields: "sample_of_line (SignalJson (signal_fields s)) = Some s"
  by (cases s) (simp add: signal_fields_def brake_num_def)

declare sample_of_line.simps(1) [simp del]

lemma map_filter_append [simp]: "List.map_filter f (xs @ ys) = List.map_filter f xs @ List.map_filter f ys"
  by (simp add: map_filter_def)

lemma samples_of_on_sample: "List.map_filter sample_of_line (fst (on_sample s swc)) = [s]"
  by (simp add: on_sample_def Let_def log_info_def map_filter_simps sample_of_signal_fields)

lemma samples_of_raw_line: "List.map_filter sample_of_line (raw_line raw) = []"
  by (simp add: raw_line_def map_filter_simps split: option.split)

lemma is_event_sent: "is_event (event_message i (signal_payload s))"
  by (simp add: is_event_def event_message_def signal_payload_ok)

lemma Parse_sent:
  "ParseAndDispatch (sent_frame x) p = dispatch (arrival x) p"
  using payload_of_signal [of "snd x" "fst x"] signal_payload_ok [of "snd x"]
  unfolding sent_frame_def Parse_event [OF is_event_sent]
  by (simp add: event_message_def arrival_def)

lemma rx_round_sent:
  assumes "proxy_ready p"
  shows "\<exists>raw p'. rx_round (Some (sent_frame x)) p = Inr (raw, [(own_handler, arrival x)], p') \<and>
    proxy_ready p' \<and>
    ev_sampleQueue (vp_VehicleSignal p') = ev_sampleQueue (push_subscribed (arrival x) (vp_VehicleSignal p))"
  using assms
  by (cases "vp_VehicleSignal p")
    (simp add: rx_round_def Parse_sent dispatch_def proxy_ready_def PushSample_subscribed push_subscribed_def
      Let_def)

lemma swc_rx_sent:
  assumes "receiving swc"
  shows "\<exists>raw p. swc_rx (Some (sent_frame x)) swc =
      Inr (raw_line raw @ fst (on_sample (arrival x) (swc\<lparr>sw_proxy := Some p\<rparr>)),
           snd (on_sample (arrival x) (swc\<lparr>sw_proxy := Some p\<rparr>))) \<and> proxy_ready p"
proof -
  obtain p where "sw_proxy swc = Some p" "proxy_ready p" using assms by (auto simp: receiving_iff)
  moreover from this rx_round_sent [of p x] obtain raw p' where
    "rx_round (Some (sent_frame x)) p = Inr (raw, [(own_handler, arrival x)], p')" "proxy_ready p'"
    by blast
  ultimately show ?thesis
    by (intro exI [of _ raw] exI [of _ p']) (simp add: swc_rx_def case_prod_beta Let_def)
qed

definition sent_input :: "(u16 \<times> VehicleSignalSample) option \<Rightarrow> u8 list option" where
  "sent_input = map_option sent_frame"

definition arrivals :: "(u16 \<times> VehicleSignalSample) option list \<Rightarrow> VehicleSignalSample list" where
  "arrivals sent = map arrival (List.map_filter id sent)"

lemma arrivals_simps [simp]:
  "arrivals [] = []" "arrivals (None # sent) = arrivals sent"
  "arrivals (Some x # sent) = arrival x # arrivals sent"
  by (simp_all add: arrivals_def map_filter_simps)

lemma swc_rx_run_sent:
  assumes "receiving swc"
  shows "\<exists>ls swc'. swc_rx_run (map sent_input sent) swc = Inr (ls, swc') \<and> receiving swc' \<and>
    List.map_filter sample_of_line ls = arrivals sent \<and>
    sw_samplesReceived swc' = sw_samplesReceived swc + of_nat (length (arrivals sent))"
  using assms
proof (induction sent arbitrary: swc)
  case Nil
  then show ?case by (simp add: map_filter_simps)
next
  case (Cons i sent)
  show ?case
  proof (cases i)
    case None
    have "swc_rx None swc = Inr ([], swc)"
      by (cases "sw_proxy swc") (simp_all add: swc_rx_def rx_round_def raw_line_def)
    with None Cons.IH [OF Cons.prems] show ?thesis by (auto simp: sent_input_def)
  next
    case (Some x)
    obtain raw p where r: "swc_rx (Some (sent_frame x)) swc =
        Inr (raw_line raw @ fst (on_sample (arrival x) (swc\<lparr>sw_proxy := Some p\<rparr>)),
             snd (on_sample (arrival x) (swc\<lparr>sw_proxy := Some p\<rparr>)))" and "proxy_ready p"
      using swc_rx_sent [OF Cons.prems] by blast
    then have "receiving (snd (on_sample (arrival x) (swc\<lparr>sw_proxy := Some p\<rparr>)))"
      by (simp add: receiving_iff)
    from Cons.IH [OF this] r Some show ?thesis
      by (auto simp: sent_input_def samples_of_raw_line samples_of_on_sample)
  qed
qed

definition started :: "int \<Rightarrow> int \<Rightarrow> VehicleSignalSwc" where
  "started fd bound = snd (Swc_Start fd bound (fst (VehicleSignalSwc_ctor LogRegistry_init)))"

text \<open>
  From the wire to the display, round by round: when the component has bound its socket and \<open>Start\<close>
  has returned before the first round, every sample that a sender puts into an event frame is printed, in order and exactly once, as a signal record that
  holds the same nine values before the numbers are rounded for printing, whatever rounds without
  data lie between; the sample counter is the number of them. No sample is lost, although the
  event's queue keeps only 32.
\<close>

theorem samples_reach_the_display:
  assumes "0 \<le> fd" and "0 \<le> bound"
  shows "case swc_rx_run (map sent_input sent) (started fd bound) of
      Inl _ \<Rightarrow> False
    | Inr (ls, swc) \<Rightarrow> List.map_filter sample_of_line ls = arrivals sent \<and>
        sw_samplesReceived swc = of_nat (length (arrivals sent))"
proof -
  have "sw_samplesReceived (started fd bound) = 0"
    by (simp add: started_def Swc_Start_def VehicleSignalSwc_ctor_def case_prod_beta Let_def split: option.split)
  moreover have "receiving (started fd bound)"
    unfolding started_def using assms by (rule Swc_Start_receiving)
  ultimately show ?thesis using swc_rx_run_sent [of "started fd bound" sent] by auto
qed

theorem samples_reach_the_display_witness:
  "case swc_rx_run (map sent_input [Some (5, demo_sample 1), None, Some (6, demo_sample 2)]) (started 3 0) of
      Inl _ \<Rightarrow> False
    | Inr (ls, swc) \<Rightarrow>
        List.map_filter sample_of_line ls = arrivals [Some (5, demo_sample 1), None, Some (6, demo_sample 2)] \<and>
        sw_samplesReceived swc = of_nat (length (arrivals [Some (5, demo_sample 1), None, Some (6, demo_sample 2)]))"
  by (rule samples_reach_the_display) simp_all

text \<open>The records of one key among the lines printed.\<close>

fun has_key :: "string \<Rightarrow> line \<Rightarrow> bool" where
  "has_key k (SocLog l m fs) \<longleftrightarrow> m = k"
| "has_key k _ \<longleftrightarrow> False"

definition records :: "string \<Rightarrow> line list \<Rightarrow> nat" where
  "records k ls = length (filter (has_key k) ls)"

lemma records_simps [simp]:
  "records k [] = 0" "records k (ls @ ls') = records k ls + records k ls'"
  by (simp_all add: records_def)

lemma next_multiple:
  assumes "1 < (m :: nat)"
  shows "(if (c + 1) mod m = 1 then 1 else 0) + (c + (m - 1)) div m = (c + 1 + (m - 1)) div m"
proof -
  define q r where "q = c div m" and "r = c mod m"
  have c: "c = r + m * q" and r: "r < m" using assms by (simp_all add: q_def r_def)
  have "(c + 1) mod m = (r + 1) mod m" by (simp add: c mod_Suc)
  then have one: "(c + 1) mod m = 1 \<longleftrightarrow> r = 0" using r assms by (cases "r + 1 = m") auto
  have "(c + k) div m = q + (r + k) div m" for k
    using assms div_mult_self2 [of m "r + k" q] by (simp only: c add.assoc add.left_commute add.commute)
  moreover have "(r + (m - 1)) div m = (if r = 0 then 0 else 1)"
    using r assms by (auto simp: div_nat_eqI)
  moreover have "(r + (1 + (m - 1))) div m = 1" using r assms by (intro div_nat_eqI) auto
  ultimately have "(c + (m - 1)) div m = q + (if r = 0 then 0 else 1)" "(c + 1 + (m - 1)) div m = q + 1"
    by (simp_all only: add.assoc)
  then show ?thesis using one by simp
qed

lemma scheduled:
  fixes n :: u64
  assumes "n = of_nat c" and "c + 1 < 2 ^ 64"
  shows "(n + 1) mod 10 = 1 \<longleftrightarrow> (c + 1) mod 10 = 1" and "(n + 1) mod 100 = 1 \<longleftrightarrow> (c + 1) mod 100 = 1"
proof -
  have "n + 1 = of_nat (c + 1)" by (simp add: assms(1))
  then have u: "unat (n + 1) = c + 1"
    using assms(2) by (simp only:) (simp add: unat_of_nat take_bit_nat_eq_self del: of_nat_add of_nat_Suc)
  have "unat ((n + 1) mod 10) = (c + 1) mod 10" "unat ((n + 1) mod 100) = (c + 1) mod 100"
    using u by (simp_all add: unat_mod)
  then show "(n + 1) mod 10 = 1 \<longleftrightarrow> (c + 1) mod 10 = 1" "(n + 1) mod 100 = 1 \<longleftrightarrow> (c + 1) mod 100 = 1"
    by (metis unat_1 word_unat_eq_iff)+
qed

lemma records_on_sample:
  assumes "sw_samplesReceived swc = of_nat c" and "c + 1 < 2 ^ 64"
  shows "records ''SIGNAL_DISPATCH'' (fst (on_sample s swc)) = (if (c + 1) mod 10 = 1 then 1 else 0)"
    and "records ''SOMEIP_RX'' (fst (on_sample s swc)) = (if (c + 1) mod 100 = 1 then 1 else 0)"
  using scheduled [OF assms] by (simp_all add: on_sample_def Let_def records_def log_info_def)

lemma records_run_handler:
  assumes "sw_samplesReceived swc = of_nat c" and "c + length calls < 2 ^ 64"
  shows "records ''SIGNAL_DISPATCH'' (fst (run_handler calls swc)) + (c + 9) div 10 = (c + length calls + 9) div 10
    \<and> records ''SOMEIP_RX'' (fst (run_handler calls swc)) + (c + 99) div 100 = (c + length calls + 99) div 100"
  using assms
proof (induction calls arbitrary: swc c)
  case (Cons call calls)
  obtain cb s where call: "call = (cb, s)" by fastforce
  have "sw_samplesReceived (snd (on_sample s swc)) = of_nat (c + 1)" using Cons.prems(1) by simp
  from Cons.IH [OF this] records_on_sample [OF Cons.prems(1), of s] Cons.prems(2)
    next_multiple [of 10 c] next_multiple [of 100 c]
  show ?case by (simp add: call case_prod_beta Let_def)
qed simp

text \<open>
  The printing schedule. Of the first \<open>n\<close> samples the component handles, every tenth one,
  starting with the first, is announced, and every hundredth one is summarised: there are
  \<open>n\<close> over ten, and \<open>n\<close> over a hundred, of these records, rounded up.
\<close>

theorem printing_schedule:
  assumes "length calls < 2 ^ 64"
  shows "let lines = fst (run_handler calls (fst (VehicleSignalSwc_ctor reg)))
    in records ''SIGNAL_DISPATCH'' lines = (length calls + 9) div 10 \<and>
       records ''SOMEIP_RX'' lines = (length calls + 99) div 100"
  using records_run_handler [of "fst (VehicleSignalSwc_ctor reg)" 0 calls] assms
  by (simp add: VehicleSignalSwc_ctor_def case_prod_beta Let_def)

theorem printing_schedule_witness:
  "records ''SIGNAL_DISPATCH'' (fst (run_handler (replicate 11 (own_handler, demo_sample 1))
     (fst (VehicleSignalSwc_ctor LogRegistry_init)))) = 2"
  using printing_schedule [of "replicate 11 (own_handler, demo_sample 1)" LogRegistry_init]
  by (simp add: Let_def)

end
