(* ===== verification/MainApp.thy ===== *)
theory MainApp
  imports VsSwc
begin

text \<open>
  The entry point of the application: src/application/main.cpp. What happens while \<open>main\<close> runs is
  a sequence of events: a round of the receive thread, the arrival of SIGINT or SIGTERM, and one
  evaluation of the loop's condition with what follows it, which is a call of the component's
  periodic function and a sleep, or the shutdown and the return. Each event is whole here; the
  accesses of the two threads are interleaved in \<open>AppThreads\<close>.
\<close>

section \<open>State\<close>

record MainState =
  mn_running :: bool
  mn_swc :: VehicleSignalSwc
  mn_tick :: u32
  mn_registry :: LogRegistry
  mn_logger :: Logger
  mn_lines :: "line list"
  mn_text :: "string list"
  mn_returned :: "int option"

definition mn_print :: "line list \<Rightarrow> MainState \<Rightarrow> MainState" where
  "mn_print ls mn = mn\<lparr>mn_lines := mn_lines mn @ ls\<rparr>"

definition mn_log :: "LogLevel \<Rightarrow> string \<Rightarrow> MainState \<Rightarrow> MainState" where
  "mn_log level t mn = mn_print [AraLog (lg_ctx_id (mn_logger mn)) level [Txt t]] mn"

definition SignalHandler :: "MainState \<Rightarrow> MainState" where
  "SignalHandler mn = mn\<lparr>mn_running := False\<rparr>"

definition mn_swc_op :: "(VehicleSignalSwc \<Rightarrow> line list \<times> VehicleSignalSwc) \<Rightarrow> MainState \<Rightarrow> MainState" where
  "mn_swc_op f mn = (let (ls, swc) = f (mn_swc mn) in mn_print ls (mn\<lparr>mn_swc := swc\<rparr>))"

section \<open>Up to the loop\<close>

text \<open>
  The steps before the loop: logging, the component, the report of the running state, whose
  result decides whether the loop is entered. \<open>fd\<close> and \<open>bound\<close> are the results of the socket calls.
\<close>

text \<open>What \<open>printf\<close> writes between the logger and the first log record.\<close>

definition banner :: "string list" where
  "banner =
     [''=============================================='' @ [CHR 0x0A],
      ''  MyAutoSarAp  '' @ em_dash @ ''  AUTOSAR AP R25-11'' @ [CHR 0x0A],
      ''  SOME/IP VehicleSignalService Consumer'' @ [CHR 0x0A],
      ''  Listening UDP 127.0.0.1:30501'' @ [CHR 0x0A],
      ''=============================================='' @ [CHR 0x0A, CHR 0x0A]]"

definition main_start :: "int \<Rightarrow> int \<Rightarrow> MainState" where
  "main_start fd bound =
     (let (t, reg) = InitLogging ''MSAP'' (''MyAutoSarAp '' @ em_dash @ '' AUTOSAR AP R25-11 (SOME/IP Consumer)'')
                       LogLevel.kDebug LogMode.kConsole LogRegistry_init;
          (i, reg) = CreateLogger ''MAIN'' ''Main context'' LogLevel.kVerbose reg;
          logger = lr_heap reg ! i;
          (swc, reg) = VehicleSignalSwc_ctor reg;
          mn = \<lparr>mn_running = True, mn_swc = swc, mn_tick = 0, mn_registry = reg, mn_logger = logger,
                mn_lines = [], mn_text = t # banner, mn_returned = None\<rparr>;
          mn = mn_log LogLevel.kInfo ''MyAutoSarAp starting...'' mn;
          mn = mn_swc_op (Swc_Start fd bound) mn;
          (t, result) = ReportExecutionState kRunning;
          mn = mn\<lparr>mn_text := mn_text mn @ [t]\<rparr>
      in if result \<noteq> ExecErrc.kSuccess
         then (mn_swc_op VehicleSignalSwc_dtor (mn_log LogLevel.kError ''Failed to report ExecutionState::kRunning'' mn))
                \<lparr>mn_returned := Some (- 1)\<rparr>
         else mn_log LogLevel.kInfo
                (''Application running '' @ em_dash @ '' waiting for SOME/IP data from MCU (Ctrl+C to stop)'') mn)"

section \<open>The loop and the shutdown\<close>

text \<open>The component is a local of \<open>main\<close>: returning runs its destructor.\<close>

definition main_shutdown :: "MainState \<Rightarrow> MainState" where
  "main_shutdown mn =
     (let mn = mn_log LogLevel.kInfo ''Shutdown requested...'' mn;
          mn = mn_swc_op Swc_Stop mn;
          mn = mn_log LogLevel.kInfo ''MyAutoSarAp stopped.'' mn;
          mn = mn_swc_op VehicleSignalSwc_dtor mn
      in mn\<lparr>mn_returned := Some 0\<rparr>)"

definition main_round :: "MainState \<Rightarrow> MainState" where
  "main_round mn =
     (if mn_running mn
      then (let (ls, tick) = MainFunction_100ms (mn_tick mn) (mn_swc mn)
            in mn_print ls (mn\<lparr>mn_tick := tick\<rparr>))
      else main_shutdown mn)"

datatype main_event = Received "u8 list option" | Signalled | Round

fun main_step :: "MainState outcome \<Rightarrow> main_event \<Rightarrow> MainState outcome" where
  "main_step r (Received input) = obind r (\<lambda>mn.
     if mn_returned mn \<noteq> None then Inr mn
     else obind (swc_rx input (mn_swc mn)) (\<lambda>(ls, swc). Inr (mn_print ls (mn\<lparr>mn_swc := swc\<rparr>))))"
| "main_step r Signalled = map_sum id (\<lambda>mn. if mn_returned mn \<noteq> None then mn else SignalHandler mn) r"
| "main_step r Round = map_sum id (\<lambda>mn. if mn_returned mn \<noteq> None then mn else main_round mn) r"

definition main_run :: "int \<Rightarrow> int \<Rightarrow> main_event list \<Rightarrow> MainState outcome" where
  "main_run fd bound evs = run main_step (Inr (main_start fd bound)) evs"

section \<open>What the application promises\<close>

text \<open>
  The component is receiving, or it has no proxy: no frame can then reach a fault.
\<close>

definition main_ok :: "MainState outcome \<Rightarrow> bool" where
  "main_ok r \<longleftrightarrow> (case r of Inl _ \<Rightarrow> False
     | Inr mn \<Rightarrow> mn_returned mn = None \<and> receiving (mn_swc mn) \<or>
         mn_returned mn \<in> {None, Some 0} \<and> sw_proxy (mn_swc mn) = None)"

lemma main_frames [simp]:
  "mn_swc (mn_print ls mn) = mn_swc mn" "mn_returned (mn_print ls mn) = mn_returned mn"
  "mn_running (mn_print ls mn) = mn_running mn" "mn_text (mn_print ls mn) = mn_text mn"
  "mn_swc (mn_log l t mn) = mn_swc mn" "mn_returned (mn_log l t mn) = mn_returned mn"
  "mn_running (mn_log l t mn) = mn_running mn" "mn_text (mn_log l t mn) = mn_text mn"
  "mn_swc (mn_swc_op f mn) = snd (f (mn_swc mn))" "mn_returned (mn_swc_op f mn) = mn_returned mn"
  "mn_running (mn_swc_op f mn) = mn_running mn" "mn_text (mn_swc_op f mn) = mn_text mn"
  "mn_returned (SignalHandler mn) = mn_returned mn" "mn_swc (SignalHandler mn) = mn_swc mn"
  "mn_running (SignalHandler mn) = False"
  by (simp_all add: mn_print_def mn_log_def mn_swc_op_def SignalHandler_def case_prod_beta)

lemma Swc_Stop_stops [simp]: "sw_proxy (snd (Swc_Stop swc)) = None"
  by (simp add: Swc_Stop_def split: option.split)

lemma main_round_simps [simp]:
  "mn_running mn \<Longrightarrow> mn_swc (main_round mn) = mn_swc mn"
  "mn_running mn \<Longrightarrow> mn_returned (main_round mn) = mn_returned mn"
  "mn_running mn \<Longrightarrow> mn_running (main_round mn) = True"
  "\<not> mn_running mn \<Longrightarrow> sw_proxy (mn_swc (main_round mn)) = None"
  "\<not> mn_running mn \<Longrightarrow> mn_returned (main_round mn) = Some 0"
  by (simp_all add: main_round_def main_shutdown_def VehicleSignalSwc_dtor_def case_prod_beta Let_def)

lemma main_received:
  assumes "main_ok (Inr mn)"
  shows "\<exists>mn'. main_step (Inr mn) (Received input) = Inr mn' \<and> main_ok (Inr mn') \<and>
    mn_running mn' = mn_running mn \<and> mn_returned mn' = mn_returned mn"
proof (cases "mn_returned mn = None \<and> receiving (mn_swc mn)")
  case True
  obtain ls swc where rx: "swc_rx input (mn_swc mn) = Inr (ls, swc)" and rec: "receiving swc"
    using swc_rx_receiving True by blast
  let ?mn = "mn_print ls (mn\<lparr>mn_swc := swc\<rparr>)"
  have "main_step (Inr mn) (Received input) = Inr ?mn" using True rx by simp
  moreover have "main_ok (Inr ?mn)" using True rec by (simp add: main_ok_def)
  ultimately show ?thesis by (intro exI [of _ ?mn]) simp
next
  case False
  with assms have none: "sw_proxy (mn_swc mn) = None" by (auto simp: main_ok_def)
  let ?mn = "if mn_returned mn = None then mn_print [] mn else mn"
  have "main_step (Inr mn) (Received input) = Inr ?mn"
    by (auto simp: swc_rx_stopped [OF none] mn_print_def)
  moreover have "main_ok (Inr ?mn)" using assms by (auto simp: main_ok_def)
  ultimately show ?thesis by (intro exI [of _ ?mn]) simp
qed

lemma main_step_ok: "main_ok r \<Longrightarrow> main_ok (main_step r ev)"
proof (cases r)
  case (Inr mn)
  assume ok: "main_ok r"
  show "main_ok (main_step r ev)"
  proof (cases ev)
    case (Received input)
    from ok have "main_ok (Inr mn)" by (simp only: Inr)
    from main_received [OF this, of input] show ?thesis unfolding Inr Received by fastforce
  next
    case Round
    with ok Inr show ?thesis by (cases "mn_running mn") (auto simp: main_ok_def)
  qed (use ok Inr in \<open>auto simp: main_ok_def\<close>)
qed (simp add: main_ok_def)

interpretation main_events: invariant_step main_step main_ok
  by unfold_locales (rule main_step_ok)

lemma main_start_simps [simp]:
  "mn_running (main_start fd bound)" "mn_returned (main_start fd bound) = None"
  by (simp_all add: main_start_def ReportExecutionState_def case_prod_beta Let_def)

lemma main_start_swc: "\<exists>swc. mn_swc (main_start fd bound) = snd (Swc_Start fd bound swc)"
  by (simp add: main_start_def ReportExecutionState_def case_prod_beta Let_def) blast

lemma main_start_ok: "main_ok (Inr (main_start fd bound))"
proof (cases "0 \<le> fd \<and> 0 \<le> bound")
  case True
  with main_start_swc [of fd bound] show ?thesis by (auto simp: main_ok_def Swc_Start_receiving)
next
  case False
  then have "fd < 0 \<or> bound < 0" by auto
  with main_start_swc [of fd bound] show ?thesis by (auto simp: main_ok_def Swc_Start_fails)
qed

lemma main_run_ok: "main_ok (main_run fd bound evs)"
  unfolding main_run_def by (rule main_events.run_inv) (rule main_start_ok)

text \<open>
  No datagram can bring the application down. Whatever bytes arrive, of whatever length and in
  whatever order with signals and rounds of the main loop, no fault is reached in what the receive
  thread does with them. What its tests before \<open>recv\<close> can do is shown in \<open>AppThreads\<close>.
\<close>

theorem main_never_faults:
  "case main_run fd bound evs of Inl _ \<Rightarrow> False | Inr _ \<Rightarrow> True"
  using main_run_ok [of fd bound evs] by (auto simp: main_ok_def split: sum.splits)

text \<open>The life of the process seen from outside.\<close>

datatype phase = Looping | Stopping | Returned

fun phase_step :: "phase \<Rightarrow> main_event \<Rightarrow> phase" where
  "phase_step Looping Signalled = Stopping"
| "phase_step Stopping Round = Returned"
| "phase_step ph _ = ph"

definition phase_of :: "MainState \<Rightarrow> phase" where
  "phase_of mn = (if mn_returned mn \<noteq> None then Returned else if mn_running mn then Looping else Stopping)"

lemma phase_refines:
  assumes "main_ok (Inr mn)"
  obtains mn' where "main_step (Inr mn) ev = Inr mn'" and "main_ok (Inr mn')"
    and "phase_of mn' = phase_step (phase_of mn) ev"
proof (cases ev)
  case (Received input)
  obtain mn' where "main_step (Inr mn) (Received input) = Inr mn'" "main_ok (Inr mn')"
    "mn_running mn' = mn_running mn" "mn_returned mn' = mn_returned mn"
    using main_received [OF assms, of input] by blast
  with that [of mn'] show ?thesis by (simp add: Received phase_of_def del: main_step.simps)
next
  case Signalled
  with main_step_ok [OF assms, of Signalled] that show ?thesis
    by (cases "mn_returned mn"; cases "mn_running mn") (auto simp: phase_of_def)
next
  case Round
  with main_step_ok [OF assms, of Round] that show ?thesis
    by (cases "mn_returned mn"; cases "mn_running mn") (auto simp: phase_of_def)
qed

lemma phase_run_refines:
  assumes "main_ok (Inr mn)"
  shows "\<exists>mn'. run main_step (Inr mn) evs = Inr mn' \<and> main_ok (Inr mn') \<and>
    phase_of mn' = run phase_step (phase_of mn) evs"
  using assms
proof (induction evs arbitrary: mn)
  case (Cons ev evs)
  obtain mn1 where "main_step (Inr mn) ev = Inr mn1" "main_ok (Inr mn1)"
    "phase_of mn1 = phase_step (phase_of mn) ev"
    by (rule phase_refines [OF Cons.prems])
  with Cons.IH [of mn1] show ?case by simp
qed simp

lemma run_phase_simps: "run phase_step Returned evs = Returned"
  "run phase_step Stopping evs = (if Round \<in> set evs then Returned else Stopping)"
  "run phase_step Looping evs = (case dropWhile (\<lambda>e. e \<noteq> Signalled) evs of [] \<Rightarrow> Looping
     | _ # later \<Rightarrow> if Round \<in> set later then Returned else Stopping)"
proof -
  show r: "run phase_step Returned evs = Returned" for evs by (induction evs) simp_all
  show s: "run phase_step Stopping evs = (if Round \<in> set evs then Returned else Stopping)" for evs
  proof (induction evs)
    case (Cons ev evs)
    then show ?case by (cases ev) (simp_all add: r)
  qed simp
  show "run phase_step Looping evs = (case dropWhile (\<lambda>e. e \<noteq> Signalled) evs of [] \<Rightarrow> Looping
     | _ # later \<Rightarrow> if Round \<in> set later then Returned else Stopping)"
  proof (induction evs)
    case (Cons ev evs)
    then show ?case by (cases ev) (simp_all add: s)
  qed simp
qed


text \<open>
  The application announces itself as running although it cannot receive: when the socket
  cannot be created or bound, \<open>main\<close> reports the running state all the same and stays in its
  loop, and no sequence of events without a signal makes it print a signal record or return.
\<close>

theorem runs_without_service:
  assumes "fd < 0 \<or> bound < 0" and "\<not> List.member evs Signalled"
  shows "case main_run fd bound evs of
      Inl _ \<Rightarrow> False
    | Inr mn \<Rightarrow> mn_returned mn = None \<and> mn_running mn \<and> mn_lines mn = mn_lines (main_start fd bound) \<and>
        List.member (mn_text mn) (fst (ReportExecutionState kRunning))"
proof -
  have step: "\<exists>mn'. main_step (Inr mn) ev = Inr mn' \<and> mn' = mn"
    if "sw_proxy (mn_swc mn) = None" "mn_running mn" "mn_returned mn = None" "ev \<noteq> Signalled" for mn ev
    using that by (cases ev)
      (simp_all add: swc_rx_stopped main_round_def MainFunction_100ms_def mn_print_def)
  have run: "run main_step (Inr mn) evs = Inr mn"
    if "sw_proxy (mn_swc mn) = None" "mn_running mn" "mn_returned mn = None" "Signalled \<notin> set evs" for mn
    using that by (induction evs) (use step in force)+
  have "sw_proxy (mn_swc (main_start fd bound)) = None"
    using main_start_swc [of fd bound] Swc_Start_fails [OF assms(1)] by auto
  moreover have "List.member (mn_text (main_start fd bound)) (fst (ReportExecutionState kRunning))"
    by (simp add: main_start_def ReportExecutionState_def case_prod_beta Let_def)
  ultimately show ?thesis using run [of "main_start fd bound"] assms(2) by (simp add: main_run_def)
qed

theorem runs_without_service_witness:
  "case main_run (- 1) 0 [Round, Received (Some [1, 2]), Round] of
      Inl _ \<Rightarrow> False
    | Inr mn \<Rightarrow> mn_returned mn = None \<and> mn_running mn \<and> mn_lines mn = mn_lines (main_start (- 1) 0) \<and>
        List.member (mn_text mn) (fst (ReportExecutionState kRunning))"
  by (rule runs_without_service) simp_all

end
