(* ===== verification/Declared.thy ===== *)
theory Declared
  imports VsProxy
begin

text \<open>
  Interfaces of which the repository holds the data but not the operations:
  include/ara/diag/diag_error_domain.h, include/ara/per/key_value_storage.h, the event
  templates of include/ara/com/someip_binding.h, and what nothing uses of
  include/ara/com/someip_proto.h. Their enumerations, constructors and inline
  accessors; every other member is declared and defined nowhere.
\<close>

section \<open>Diagnostics\<close>

datatype SessionControlType = kDefaultSession | kProgrammingSession | kExtendedDiagnosticSession

fun session_u8 :: "SessionControlType \<Rightarrow> u8" where
  "session_u8 kDefaultSession = 0x01"
| "session_u8 kProgrammingSession = 0x02"
| "session_u8 kExtendedDiagnosticSession = 0x03"

datatype DtcStatusBit =
    kTestFailed | kTestFailedThisMonitoringCycle | kPendingDTC | kConfirmedDTC
  | kTestNotCompletedSinceLastClear | kTestFailedSinceLastClear
  | kTestNotCompletedThisMonitoringCycle | kWarningIndicatorRequested

fun dtc_u8 :: "DtcStatusBit \<Rightarrow> u8" where
  "dtc_u8 kTestFailed = 0x01"
| "dtc_u8 kTestFailedThisMonitoringCycle = 0x02"
| "dtc_u8 kPendingDTC = 0x04"
| "dtc_u8 kConfirmedDTC = 0x08"
| "dtc_u8 kTestNotCompletedSinceLastClear = 0x10"
| "dtc_u8 kTestFailedSinceLastClear = 0x20"
| "dtc_u8 kTestNotCompletedThisMonitoringCycle = 0x40"
| "dtc_u8 kWarningIndicatorRequested = 0x80"

datatype DiagErrc =
  kSuccess | kConditionsNotCorrect | kRequestOutOfRange | kSecurityAccessDenied | kGeneralProgrammingFailure

fun diagerrc_u8 :: "DiagErrc \<Rightarrow> u8" where
  "diagerrc_u8 DiagErrc.kSuccess = 0x00"
| "diagerrc_u8 kConditionsNotCorrect = 0x22"
| "diagerrc_u8 kRequestOutOfRange = 0x31"
| "diagerrc_u8 kSecurityAccessDenied = 0x33"
| "diagerrc_u8 kGeneralProgrammingFailure = 0x72"

datatype MonitorAction = kPassed | kFailed | kPrepassed | kPrefailed

fun monitor_u8 :: "MonitorAction \<Rightarrow> u8" where
  "monitor_u8 MonitorAction.kPassed = 0x00"
| "monitor_u8 MonitorAction.kFailed = 0x01"
| "monitor_u8 MonitorAction.kPrepassed = 0x02"
| "monitor_u8 MonitorAction.kPrefailed = 0x03"

record DiagnosticMonitor =
  dm_event_id :: string

definition DiagnosticMonitor_ctor :: "string \<Rightarrow> DiagnosticMonitor" where
  "DiagnosticMonitor_ctor event_id = \<lparr>dm_event_id = event_id\<rparr>"

section \<open>Persistency\<close>

datatype PerErrc =
  kSuccess | kStorageNotFound | kKeyNotFound | kPhysicalStorageError | kIntegrityError | kEncryptionError

fun pererrc_u8 :: "PerErrc \<Rightarrow> u8" where
  "pererrc_u8 PerErrc.kSuccess = 0"
| "pererrc_u8 kStorageNotFound = 1"
| "pererrc_u8 kKeyNotFound = 2"
| "pererrc_u8 kPhysicalStorageError = 3"
| "pererrc_u8 kIntegrityError = 4"
| "pererrc_u8 kEncryptionError = 5"

record KeyValueStorage =
  kv_storage_id :: string

definition KeyValueStorage_ctor :: "string \<Rightarrow> KeyValueStorage" where
  "KeyValueStorage_ctor storage_id = \<lparr>kv_storage_id = storage_id\<rparr>"

section \<open>Event templates\<close>

record EventPublisher =
  ep_serviceId :: u16
  ep_eventId :: u16
  ep_sequenceCounter :: u16

definition EventPublisher_ctor :: "u16 \<Rightarrow> u16 \<Rightarrow> EventPublisher" where
  "EventPublisher_ctor serviceId eventId =
     \<lparr>ep_serviceId = serviceId, ep_eventId = eventId, ep_sequenceCounter = 0\<rparr>"

record EventSubscriber =
  es_serviceId :: u16
  es_eventId :: u16
  es_state :: SubscriptionState
  es_receiveHandler :: "callback option"

definition EventSubscriber_ctor :: "u16 \<Rightarrow> u16 \<Rightarrow> EventSubscriber" where
  "EventSubscriber_ctor serviceId eventId =
     \<lparr>es_serviceId = serviceId, es_eventId = eventId, es_state = SubscriptionState.kNotSubscribed,
      es_receiveHandler = None\<rparr>"

definition Subscriber_GetSubscriptionState :: "EventSubscriber \<Rightarrow> SubscriptionState" where
  "Subscriber_GetSubscriptionState es = es_state es"

section \<open>The protocol header\<close>

text \<open>
  The constants and packed structures of include/ara/com/someip_proto.h that the code of the
  repository does not use; the others are with their users. The macros are unsigned integers and
  have here the width of the field they are meant for.
\<close>

definition SOMEIP_SD_PORT :: u16 where "SOMEIP_SD_PORT = 30490"
definition SOMEIP_EVT_BASE_PORT :: u16 where "SOMEIP_EVT_BASE_PORT = 30500"
definition SOMEIP_METHOD_BASE_PORT :: u16 where "SOMEIP_METHOD_BASE_PORT = 30600"
definition SVC_ID_SAFETY_STATUS :: u16 where "SVC_ID_SAFETY_STATUS = 0x1002"
definition SVC_ID_POWER_MODE :: u16 where "SVC_ID_POWER_MODE = 0x1003"
definition SVC_ID_DIAG_PROXY :: u16 where "SVC_ID_DIAG_PROXY = 0x1004"
definition SVC_ID_OTA_TRANSFER :: u16 where "SVC_ID_OTA_TRANSFER = 0x1005"
definition SVC_ID_HMI_COMMAND :: u16 where "SVC_ID_HMI_COMMAND = 0x1006"
definition SVC_ID_NETWORK_STATUS :: u16 where "SVC_ID_NETWORK_STATUS = 0x1007"
definition VEHICLE_SIGNAL_INSTANCE :: u8 where "VEHICLE_SIGNAL_INSTANCE = 0x01"
definition SOMEIP_MSG_REQUEST :: u8 where "SOMEIP_MSG_REQUEST = 0x00"
definition SOMEIP_MSG_REQUEST_NO_RETURN :: u8 where "SOMEIP_MSG_REQUEST_NO_RETURN = 0x01"
definition SOMEIP_MSG_RESPONSE :: u8 where "SOMEIP_MSG_RESPONSE = 0x80"
definition SOMEIP_MSG_ERROR :: u8 where "SOMEIP_MSG_ERROR = 0x81"
definition SOMEIP_RC_OK :: u8 where "SOMEIP_RC_OK = 0x00"
definition SOMEIP_RC_NOT_OK :: u8 where "SOMEIP_RC_NOT_OK = 0x01"
definition SOMEIP_RC_UNKNOWN_SVC :: u8 where "SOMEIP_RC_UNKNOWN_SVC = 0x02"
definition SOMEIP_PROTO_VER :: u8 where "SOMEIP_PROTO_VER = 0x01"

definition SOMEIP_LOOPBACK_ADDR :: string where "SOMEIP_LOOPBACK_ADDR = ''127.0.0.1''"

record SomeIpHeader_t =
  ht_service_id :: u16
  ht_method_id :: u16
  ht_length :: u32
  ht_client_id :: u16
  ht_session_id :: u16
  ht_proto_ver :: u8
  ht_iface_ver :: u8
  ht_msg_type :: u8
  ht_return_code :: u8

text \<open>\<open>uint8_t ttl[3]\<close> is three fields.\<close>

record SomeIpSdEntry_t =
  et_type :: u8
  et_index_first :: u8
  et_index_second :: u8
  et_num_opts :: u8
  et_service_id :: u16
  et_instance_id :: u16
  et_major_ver :: u8
  et_ttl0 :: u8
  et_ttl1 :: u8
  et_ttl2 :: u8
  et_minor_ver :: u32

text \<open>The two headers agree: the catalogue of the binding lists the protocol's services in order.\<close>

lemma kServiceCatalog_ids:
  "map sd_serviceId kServiceCatalog =
     [SVC_ID_VEHICLE_SIGNAL, SVC_ID_SAFETY_STATUS, SVC_ID_POWER_MODE, SVC_ID_DIAG_PROXY,
      SVC_ID_OTA_TRANSFER, SVC_ID_HMI_COMMAND, SVC_ID_NETWORK_STATUS]"
  by code_simp

lemma message_types_agree:
  "[kRequest, kRequestNoReturn, kNotification, kResponse, kErrorMessage] =
     [SOMEIP_MSG_REQUEST, SOMEIP_MSG_REQUEST_NO_RETURN, SOMEIP_MSG_NOTIFICATION,
      SOMEIP_MSG_RESPONSE, SOMEIP_MSG_ERROR]"
  by code_simp

section \<open>Status bits\<close>

text \<open>The bit an enumerator stands for, and a status byte as the set of its bits.\<close>

definition dtc_bits :: "DtcStatusBit list" where
  "dtc_bits = [kTestFailed, kTestFailedThisMonitoringCycle, kPendingDTC, kConfirmedDTC,
     kTestNotCompletedSinceLastClear, kTestFailedSinceLastClear,
     kTestNotCompletedThisMonitoringCycle, kWarningIndicatorRequested]"

definition dtc_status :: "DtcStatusBit list \<Rightarrow> u8" where
  "dtc_status bs = foldr (\<lambda>b s. dtc_u8 b OR s) bs 0"

definition dtc_decode :: "u8 \<Rightarrow> DtcStatusBit list" where
  "dtc_decode s = filter (\<lambda>b. s AND dtc_u8 b \<noteq> 0) dtc_bits"

lemma dtc_u8_disjoint: "dtc_u8 a AND dtc_u8 b = (if a = b then dtc_u8 a else 0)"
  by (cases a; cases b) simp_all

lemma dtc_u8_nonzero: "dtc_u8 a \<noteq> 0"
  by (cases a) simp_all

lemma in_dtc_bits: "b \<in> set dtc_bits"
  by (cases b) (simp_all add: dtc_bits_def)

lemma dtc_status_has_bit: "dtc_status bs AND dtc_u8 b \<noteq> 0 \<longleftrightarrow> b \<in> set bs"
proof (induction bs)
  case (Cons a bs)
  have "dtc_status (a # bs) AND dtc_u8 b = (dtc_u8 a AND dtc_u8 b) OR (dtc_status bs AND dtc_u8 b)"
    by (simp add: dtc_status_def bit.conj_disj_distrib2)
  with Cons show ?case
    by (cases "a = b") (auto simp: dtc_u8_disjoint dtc_u8_nonzero)
qed (simp add: dtc_status_def)

lemma dtc_decode_status: "set (dtc_decode (dtc_status bs)) = set bs"
  using in_dtc_bits by (auto simp: dtc_decode_def dtc_status_has_bit)

end
