(* ===== verification/Vehicle.thy ===== *)
theory Vehicle
  imports SafetyMonitor IpcBridge VehicleSignalService
begin

text \<open>
  The three service components of src/application/Swc* in one process, over the singletons they
  share: the safety monitor, the bridge and the vehicle signal service, with the calls of other
  clients on health and state management, one call at a time in any order. The components never call each
  other; they meet in the singletons, and service discovery calls the availability lambda of the
  signal service from within a round of the bridge. What that lambda changes (the signal service,
  its alive time) is touched by nothing the bridge does after offering its services, so the calls
  of one operation are delivered when it has ended.
\<close>

section \<open>State\<close>

text \<open>The platform is the one in the bridge's world; the signal service can have been destroyed.\<close>

record Vehicle =
  vh_monitor :: SafetyMonitor
  vh_levels :: level_calls
  vh_bridge :: bridge_world
  vh_signals :: "VehicleSignalServiceSWC option"
  vh_sig_calls :: signal_calls

abbreviation vh_pf :: "Vehicle \<Rightarrow> Platform" where
  "vh_pf v \<equiv> bw_pf (vh_bridge v)"

definition with_pf :: "Platform \<Rightarrow> Vehicle \<Rightarrow> Vehicle" where
  "with_pf pf v = v\<lparr>vh_bridge := (vh_bridge v)\<lparr>bw_pf := pf\<rparr>\<rparr>"

definition vehicle_start :: "time_point \<Rightarrow> McuSafetyStatus \<Rightarrow> readings \<Rightarrow> Vehicle" where
  "vehicle_start t m now =
     \<lparr>vh_monitor = SafetyMonitor_ctor t m, vh_levels = [], vh_bridge = bridge_start now,
      vh_signals = Some VehicleSignalServiceSWC_ctor, vh_sig_calls = []\<rparr>"

section \<open>Steps\<close>

text \<open>The number by which service discovery knows the lambda of the signal service's proxy.\<close>

definition proxy_lambda :: callback where "proxy_lambda = 1"

definition on_monitor :: "(safety_state outcome \<Rightarrow> safety_state outcome) \<Rightarrow> Vehicle \<Rightarrow> Vehicle outcome" where
  "on_monitor f v =
     map_sum id (\<lambda>(sf, pf, levels). with_pf pf (v\<lparr>vh_monitor := sf, vh_levels := levels\<rparr>))
       (f (Inr (vh_monitor v, vh_pf v, vh_levels v)))"

definition on_signals :: "(swc_state \<Rightarrow> swc_state) \<Rightarrow> VehicleSignalServiceSWC \<Rightarrow> Vehicle \<Rightarrow> Vehicle" where
  "on_signals f swc v =
     (case f (swc, vh_pf v, vh_sig_calls v) of (swc, pf, calls) \<Rightarrow>
        with_pf pf (v\<lparr>vh_signals := Some swc, vh_sig_calls := calls\<rparr>))"

text \<open>
  The calls service discovery makes to the availability lambda. The lambda holds a pointer to the
  proxy and is never unsubscribed; it uses the pointer when the service comes on offer.
\<close>

fun deliver :: "time_point \<Rightarrow> sd_calls \<Rightarrow> Vehicle \<Rightarrow> Vehicle outcome" where
  "deliver now [] v = Inr v"
| "deliver now ((cb, _, available) # calls) v =
     (if cb \<noteq> proxy_lambda then deliver now calls v
      else case vh_signals v of
          None \<Rightarrow> if available then Inl UseAfterFree else deliver now calls v
        | Some swc \<Rightarrow> deliver now calls (on_signals (Swc_on_availability now available) swc v))"

datatype signal_op = SgInit | SgRound | SgShutdown ExecutionState | SgCallback "callback option" | SgDestroy ExecutionState

datatype vehicle_op = Monitor safety_op | Bridge time_point bridge_op | Signals time_point signal_op

text \<open>Calls on a signal service that has been destroyed do not come.\<close>

fun signal_step :: "time_point \<Rightarrow> signal_op \<Rightarrow> VehicleSignalServiceSWC \<Rightarrow> Vehicle \<Rightarrow> Vehicle outcome" where
  "signal_step now SgInit swc v =
     map_sum id (\<lambda>(_, w). on_signals (\<lambda>_. w) swc v) (Swc_Init proxy_lambda now (swc, vh_pf v, vh_sig_calls v))"
| "signal_step now SgRound swc v = Inr (with_pf (Swc_Run_round now (vh_pf v)) v)"
| "signal_step now (SgShutdown k) swc v = Inr (on_signals (Swc_Shutdown k) swc v)"
| "signal_step now (SgCallback cb) swc v =
     Inr (on_signals (\<lambda>(swc, pf, c). (SetSignalChangeCallback cb swc, pf, c)) swc v)"
| "signal_step now (SgDestroy k) swc v =
     Inr ((on_signals (VehicleSignalServiceSWC_dtor k) swc v)\<lparr>vh_signals := None\<rparr>)"

definition bridge_calls :: "bridge_world \<Rightarrow> bridge_world \<Rightarrow> sd_calls" where
  "bridge_calls w w' = drop (length (pf_sd_calls (bw_pf w))) (pf_sd_calls (bw_pf w'))"

fun vehicle_act :: "int \<Rightarrow> vehicle_op \<Rightarrow> Vehicle \<Rightarrow> Vehicle outcome" where
  "vehicle_act tpm (Monitor op) v = on_monitor (\<lambda>r. safety_step r op) v"
| "vehicle_act tpm (Bridge now op) v =
     (let w = bridge_step tpm (vh_bridge v) op
      in deliver now (bridge_calls (vh_bridge v) w) (v\<lparr>vh_bridge := w\<rparr>))"
| "vehicle_act tpm (Signals now op) v =
     (case vh_signals v of None \<Rightarrow> Inr v | Some swc \<Rightarrow> signal_step now op swc v)"

definition vehicle_step :: "int \<Rightarrow> Vehicle outcome \<Rightarrow> vehicle_op \<Rightarrow> Vehicle outcome" where
  "vehicle_step tpm r op = obind r (vehicle_act tpm op)"

section \<open>What the components see of each other\<close>

text \<open>
  The monitor depends on the state machine and on all health records being in order; the bridge
  on the networks and the offered services. The other components' steps keep both.
\<close>

definition monitor_sees :: "Platform \<Rightarrow> Platform \<Rightarrow> bool" where
  "monitor_sees pf pf' \<longleftrightarrow> pf_sm pf' = pf_sm pf \<and> (all_ok (pf_phm pf) \<longrightarrow> all_ok (pf_phm pf'))"

definition bridge_view :: "bridge_world \<Rightarrow>
  IPCBridge \<times> state_calls \<times> gpio_calls \<times> NetworkManagement \<times> (u16, ServiceDescriptor) umap" where
  "bridge_view w = (bw_ib w, bw_states w, bw_gpios w, pf_nm (bw_pf w), sv_offeredServices (pf_sd (bw_pf w)))"

definition bridge_sees :: "Platform \<Rightarrow> Platform \<Rightarrow> bool" where
  "bridge_sees pf pf' \<longleftrightarrow> pf_nm pf' = pf_nm pf \<and>
     sv_offeredServices (pf_sd pf') = sv_offeredServices (pf_sd pf)"

lemma sees_refl [simp]: "monitor_sees pf pf" "bridge_sees pf pf"
  by (simp_all add: monitor_sees_def bridge_sees_def)

lemma sees_trans:
  "monitor_sees a b \<Longrightarrow> monitor_sees b c \<Longrightarrow> monitor_sees a c"
  "bridge_sees a b \<Longrightarrow> bridge_sees b c \<Longrightarrow> bridge_sees a c"
  by (auto simp: monitor_sees_def bridge_sees_def)

lemma all_ok_report [simp]: "all_ok phm \<Longrightarrow> all_ok (ReportCheckpoint e cp t phm)"
  using phm_step_all_ok [of phm "OpCheckpoint e cp t"] by simp

lemma all_ok_register [simp]: "all_ok phm \<Longrightarrow> all_ok (snd (RegisterEntity e conf t phm))"
  using phm_step_all_ok [of phm "OpRegister e conf t"] by simp

subsection \<open>The bridge\<close>

lemma on_nm_frames [simp]:
  "pf_sm (on_nm f pf) = pf_sm pf" "pf_phm (on_nm f pf) = pf_phm pf" "pf_sd (on_nm f pf) = pf_sd pf"
  "pf_nm (on_nm f pf) = fst (f (pf_nm pf))" "pf_sd_calls (on_nm f pf) = pf_sd_calls pf"
  by (simp_all add: on_nm_def)

lemma destroy_handle_frames [simp]:
  "pf_sm (destroy_handle h pf) = pf_sm pf" "pf_phm (destroy_handle h pf) = pf_phm pf"
  "pf_sd (destroy_handle h pf) = pf_sd pf" "pf_sd_calls (destroy_handle h pf) = pf_sd_calls pf"
  "pf_nm (destroy_handle h pf) = (case h of None \<Rightarrow> pf_nm pf | Some h \<Rightarrow> fst (NetworkHandle_dtor h (pf_nm pf)))"
  by (simp_all add: destroy_handle_def split: option.split)

lemma fold_on_sd_frames:
  "pf_sm (fold (\<lambda>x. on_sd (g x)) xs pf) = pf_sm pf" "pf_phm (fold (\<lambda>x. on_sd (g x)) xs pf) = pf_phm pf"
  "pf_nm (fold (\<lambda>x. on_sd (g x)) xs pf) = pf_nm pf"
  by (induction xs arbitrary: pf) simp_all

text \<open>What service discovery calls for a service, and for the whole catalogue.\<close>

definition notices :: "SomeIpServiceDiscovery \<Rightarrow> ServiceDescriptor \<Rightarrow> sd_calls" where
  "notices sd svc =
     (case um_find (sv_subscribers sd) (sd_serviceId svc) of
        None \<Rightarrow> [] | Some cbs \<Rightarrow> map (\<lambda>cb. (cb, svc, True)) cbs)"

lemma OfferService_notices: "snd (OfferService svc sd) = notices sd svc"
  by (simp add: OfferService_def notices_def)

lemma OfferService_subscribers [simp]: "sv_subscribers (fst (OfferService svc sd)) = sv_subscribers sd"
  by (simp add: OfferService_def)

lemma StopOfferService_subscribers [simp]: "sv_subscribers (fst (StopOfferService i sd)) = sv_subscribers sd"
  by (simp add: StopOfferService_def split: option.split)

lemma notices_cong: "sv_subscribers sd' = sv_subscribers sd \<Longrightarrow> notices sd' svc = notices sd svc"
  by (simp add: notices_def)

lemma fold_offer_calls:
  "pf_sd_calls (fold (\<lambda>svc. on_sd (OfferService svc)) svcs pf) =
     pf_sd_calls pf @ concat (map (notices (pf_sd pf)) svcs)"
proof (induction svcs arbitrary: pf)
  case (Cons svc svcs)
  have "notices (fst (OfferService svc (pf_sd pf))) = notices (pf_sd pf)"
    by (rule ext) (rule notices_cong, simp)
  moreover have "pf_sd_calls (on_sd (OfferService svc) pf) = pf_sd_calls pf @ notices (pf_sd pf) svc"
    by (simp add: on_sd_def OfferService_notices)
  ultimately show ?case by (simp add: Cons)
qed simp

lemma fold_stop_calls:
  "\<exists>c. pf_sd_calls (fold (\<lambda>svc. on_sd (StopOfferService (sd_serviceId svc))) svcs pf) = pf_sd_calls pf @ c \<and>
     list_all (\<lambda>(_, _, available). \<not> available) c"
proof (induction svcs arbitrary: pf)
  case (Cons svc svcs)
  let ?pf = "on_sd (StopOfferService (sd_serviceId svc)) pf"
  have "list_all (\<lambda>(_, _, available). \<not> available) (snd (StopOfferService i sd))" for i sd
    by (auto simp: StopOfferService_def list_all_iff split: option.split)
  moreover have "pf_sd_calls ?pf = pf_sd_calls pf @ snd (StopOfferService (sd_serviceId svc) (pf_sd pf))"
    by (simp add: on_sd_def)
  moreover obtain c where "pf_sd_calls (fold (\<lambda>svc. on_sd (StopOfferService (sd_serviceId svc))) svcs ?pf) =
      pf_sd_calls ?pf @ c" "list_all (\<lambda>(_, _, available). \<not> available) c"
    using Cons by blast
  ultimately show ?case by auto
qed simp

lemma fold_on_sd_subscribers:
  assumes "\<And>x sd. sv_subscribers (fst (g x sd)) = sv_subscribers sd"
  shows "sv_subscribers (pf_sd (fold (\<lambda>x. on_sd (g x)) xs pf)) = sv_subscribers (pf_sd pf)"
  by (induction xs arbitrary: pf) (simp_all add: assms)

lemma ipc_services_frames [simp]:
  "pf_sm (OfferIpcServices pf) = pf_sm pf" "pf_phm (OfferIpcServices pf) = pf_phm pf"
  "pf_nm (OfferIpcServices pf) = pf_nm pf"
  "pf_sm (StopIpcServices pf) = pf_sm pf" "pf_phm (StopIpcServices pf) = pf_phm pf"
  "pf_nm (StopIpcServices pf) = pf_nm pf"
  by (simp_all add: OfferIpcServices_def StopIpcServices_def fold_on_sd_frames)

lemma bridge_step_monitor: "monitor_sees (bw_pf w) (bw_pf (bridge_step tpm w op))"
proof (cases op)
  case (IbRound t now)
  then show ?thesis
    by (cases "bridge_state w")
      (simp_all add: monitor_sees_def Run_round_def HandleHandshake_def HandleNormalOperation_def
        HandleError_def Let_def)
qed (auto simp: monitor_sees_def Bridge_Init_def Bridge_Shutdown_def Let_def)

text \<open>
  The bridge's own steps depend only on what it sees, and keep the subscriptions. Service
  discovery calls availability lambdas with a service on offer exactly when a round completes a
  handshake.
\<close>

definition completes_handshake :: "int \<Rightarrow> bridge_world \<Rightarrow> bridge_op \<Rightarrow> bool" where
  "completes_handshake tpm w op \<longleftrightarrow> bridge_state w = IpcConnectionState.kHandshake \<and>
     bridge_state (bridge_step tpm w op) = IpcConnectionState.kNormal"

lemma bridge_step_subscribers:
  "sv_subscribers (pf_sd (bw_pf (bridge_step tpm w op))) = sv_subscribers (pf_sd (bw_pf w))"
proof (cases op)
  case (IbRound t now)
  then show ?thesis
    by (cases "bridge_state w")
      (simp_all add: Run_round_def HandleHandshake_def HandleNormalOperation_def
        HandleError_def Let_def OfferIpcServices_def fold_on_sd_subscribers)
qed (auto simp: Bridge_Init_def Bridge_Shutdown_def StopIpcServices_def Let_def fold_on_sd_subscribers)

lemma other_sd_calls [simp]:
  "pf_sd_calls (on_phm f pf) = pf_sd_calls pf" "pf_sd_calls (report_state k pf) = pf_sd_calls pf"
  "pf_sd_calls (print t pf) = pf_sd_calls pf"
  by (simp_all add: on_phm_def report_state_def print_def)

lemma bridge_calls_offer:
  assumes "completes_handshake tpm w op"
  shows "bridge_calls w (bridge_step tpm w op) = concat (map (notices (pf_sd (bw_pf w))) kServiceCatalog)"
proof (cases op)
  case (IbRound t now)
  then show ?thesis using assms
    by (auto simp: completes_handshake_def bridge_calls_def Run_round_def HandleHandshake_def Let_def
        OfferIpcServices_def fold_offer_calls split: if_splits)
next
  case (IbInit now)
  then show ?thesis using assms
    by (auto simp: completes_handshake_def Bridge_Init_def Let_def split: if_splits)
qed (use assms in \<open>auto simp: completes_handshake_def Bridge_Shutdown_def Let_def SendSomeIpMessage_def
    SendSpiFrame_def SetIpcStateCallback_def SetSpiRxCallback_def SetGpioChangeCallback_def\<close>)

lemma bridge_calls_other:
  assumes "\<not> completes_handshake tpm w op"
  shows "list_all (\<lambda>(_, _, available). \<not> available) (bridge_calls w (bridge_step tpm w op))"
proof (cases op)
  case (IbRound t now)
  then show ?thesis using assms
    by (cases "bridge_state w")
      (auto simp: completes_handshake_def bridge_calls_def Run_round_def HandleHandshake_def
        HandleNormalOperation_def HandleError_def Let_def split: if_splits)
next
  case (IbShutdown k)
  obtain c where "pf_sd_calls (StopIpcServices (bw_pf w)) = pf_sd_calls (bw_pf w) @ c"
      "list_all (\<lambda>(_, _, available). \<not> available) c"
    using fold_stop_calls unfolding StopIpcServices_def by blast
  then show ?thesis by (simp add: IbShutdown bridge_calls_def Bridge_Shutdown_def Let_def)
qed (auto simp: bridge_calls_def Bridge_Init_def Let_def)

lemma fold_on_sd_view:
  assumes "sv_offeredServices (pf_sd pf) = sv_offeredServices (pf_sd pf')"
    and "\<And>x sd sd'. sv_offeredServices sd = sv_offeredServices sd' \<Longrightarrow>
      sv_offeredServices (fst (g x sd)) = sv_offeredServices (fst (g x sd'))"
  shows "sv_offeredServices (pf_sd (fold (\<lambda>x. on_sd (g x)) xs pf)) =
    sv_offeredServices (pf_sd (fold (\<lambda>x. on_sd (g x)) xs pf'))"
  using assms(1)
proof (induction xs arbitrary: pf pf')
  case (Cons x xs)
  have "sv_offeredServices (pf_sd (on_sd (g x) pf)) = sv_offeredServices (pf_sd (on_sd (g x) pf'))"
    using assms(2) [OF Cons.prems] by simp
  from Cons.IH [OF this] show ?case by simp
qed simp

lemma ipc_services_view:
  assumes "sv_offeredServices (pf_sd pf) = sv_offeredServices (pf_sd pf')"
  shows "sv_offeredServices (pf_sd (OfferIpcServices pf)) = sv_offeredServices (pf_sd (OfferIpcServices pf'))"
    and "sv_offeredServices (pf_sd (StopIpcServices pf)) = sv_offeredServices (pf_sd (StopIpcServices pf'))"
  unfolding OfferIpcServices_def StopIpcServices_def
  by (rule fold_on_sd_view [OF assms]; auto simp: OfferService_def StopOfferService_def split: option.split)+

lemma bridge_view_eq:
  "bridge_view w = bridge_view w' \<longleftrightarrow> bw_ib w = bw_ib w' \<and> bw_states w = bw_states w' \<and>
     bw_gpios w = bw_gpios w' \<and> pf_nm (bw_pf w) = pf_nm (bw_pf w') \<and>
     sv_offeredServices (pf_sd (bw_pf w)) = sv_offeredServices (pf_sd (bw_pf w'))"
  by (simp add: bridge_view_def)

lemma TransitionState_view:
  "bridge_view w = bridge_view w' \<Longrightarrow> bridge_view (TransitionState n w) = bridge_view (TransitionState n w')"
  by (simp add: bridge_view_eq TransitionState_def Let_def)

lemma SetGpioSignal_view:
  "bridge_view w = bridge_view w' \<Longrightarrow> bridge_view (SetGpioSignal g l w) = bridge_view (SetGpioSignal g l w')"
  by (simp add: bridge_view_eq SetGpioSignal_def Let_def)

lemma ib_view:
  "bridge_view w = bridge_view w' \<Longrightarrow> bridge_view (w\<lparr>bw_ib := ib\<rparr>) = bridge_view (w'\<lparr>bw_ib := ib\<rparr>)"
  by (simp add: bridge_view_eq)

lemma HandleHandshake_view:
  assumes "bridge_view w = bridge_view w'"
  shows "bridge_view (HandleHandshake tpm now w) = bridge_view (HandleHandshake tpm now w')"
proof -
  have ib: "bw_ib w = bw_ib w'" using assms by (simp add: bridge_view_eq)
  have t: "bridge_view (TransitionState n w) = bridge_view (TransitionState n w')" for n
    by (rule TransitionState_view [OF assms])
  then have "sv_offeredServices (pf_sd (OfferIpcServices (bw_pf w))) =
      sv_offeredServices (pf_sd (OfferIpcServices (bw_pf w')))"
    by (intro ipc_services_view) (simp add: bridge_view_eq)
  then have "bridge_view (on_ib f (on_pf OfferIpcServices (TransitionState n w))) =
      bridge_view (on_ib f (on_pf OfferIpcServices (TransitionState n w')))" for f n
    using t [of n] by (simp add: bridge_view_eq)
  with t assms show ?thesis by (simp add: HandleHandshake_def Let_def ib)
qed

lemma HandleNormal_view:
  assumes "bridge_view w = bridge_view w'"
  shows "bridge_view (HandleNormalOperation tpm now w) = bridge_view (HandleNormalOperation tpm now w')"
proof -
  have ib: "bw_ib w = bw_ib w'" using assms by (simp add: bridge_view_eq)
  show ?thesis
    using TransitionState_view [OF assms] ib_view [OF assms]
    by (simp add: HandleNormalOperation_def Let_def ib)
qed

lemma HandleError_view:
  assumes "bridge_view w = bridge_view w'"
  shows "bridge_view (HandleError now w) = bridge_view (HandleError now w')"
proof -
  let ?v = "\<lambda>w. TransitionState IpcConnectionState.kHandshake (SetGpioSignal kSocResetN True
    (SetGpioSignal kSocResetN False (TransitionState IpcConnectionState.kReset w)))"
  have v: "bridge_view (?v w) = bridge_view (?v w')"
    by (intro TransitionState_view SetGpioSignal_view assms)
  then have "bw_ib (?v w) = bw_ib (?v w')" by (simp only: bridge_view_eq)
  with ib_view [OF v] show ?thesis by (simp add: HandleError_def Let_def)
qed

lemma bridge_view_quiet [simp]:
  "bridge_view (w\<lparr>bw_pf := on_phm f (bw_pf w)\<rparr>) = bridge_view w"
  by (simp add: bridge_view_def)

lemma Run_round_view:
  assumes "bridge_view w = bridge_view w'"
  shows "bridge_view (Run_round tpm t now w) = bridge_view (Run_round tpm t now w')"
proof -
  let ?v = "\<lambda>w. on_pf (on_phm (ReportCheckpoint ''IPCBridgeService'' 0x01 t)) w"
  have v: "bridge_view (?v w) = bridge_view (?v w')" using assms by simp
  then have ib: "bw_ib (?v w) = bw_ib (?v w')" by (simp only: bridge_view_eq)
  show ?thesis
    unfolding Run_round_def Let_def ib
    using HandleHandshake_view [OF v] HandleNormal_view [OF v] HandleError_view [OF v] v
    by (cases "ib_connectionState (bw_ib (?v w'))") (simp_all only: IpcConnectionState.case)
qed

text \<open>What \<open>Init\<close> does to the networks: the handle it makes, and the manager with the old one gone.\<close>

definition init_handle :: "NetworkManagement \<Rightarrow> NetworkHandle" where
  "init_handle nm = fst (NetworkHandle_ctor kEthIPC (snd (Nm_Initialize nm)))"

definition init_networks :: "NetworkHandle option \<Rightarrow> NetworkManagement \<Rightarrow> NetworkManagement" where
  "init_networks old nm =
     (let nm = fst (snd (NetworkHandle_ctor kEthIPC (snd (Nm_Initialize nm))))
      in case old of None \<Rightarrow> nm | Some h \<Rightarrow> fst (NetworkHandle_dtor h nm))"

lemma init_handle_valid: "nh_valid (init_handle nm)"
  by (auto simp: init_handle_def ctor_unfold Nm_Initialize_def addNetwork_count)

lemma Bridge_Init_eq:
  "Bridge_Init now w =
     (let ib = (bw_ib w)\<lparr>ib_networkHandle := Some (init_handle (pf_nm (bw_pf w)))\<rparr>;
          pf = bw_pf (snd (Bridge_Init now w));
          gpio = (ib_gpioState ib)[unat kSocReady := True, unat kSocPwrEn := True];
          w' = TransitionState IpcConnectionState.kHandshake (w\<lparr>bw_ib := ib\<lparr>ib_gpioState := gpio\<rparr>, bw_pf := pf\<rparr>)
      in (True, on_ib (\<lambda>ib. ib\<lparr>ib_handshakeStartTime := now 1\<rparr>) w'))"
  and Bridge_Init_pf:
  "pf_nm (bw_pf (snd (Bridge_Init now w))) = init_networks (ib_networkHandle (bw_ib w)) (pf_nm (bw_pf w))"
  "pf_sd (bw_pf (snd (Bridge_Init now w))) = pf_sd (bw_pf w)"
proof -
  let ?w = "on_pf (on_nm (\<lambda>nm. (snd (Nm_Initialize nm), []))) w"
  have h: "fst (NetworkHandle_ctor kEthIPC (pf_nm (bw_pf ?w))) = init_handle (pf_nm (bw_pf w))"
    by (simp add: init_handle_def)
  note eq = Bridge_Init_def [of now w, unfolded Let_def h, simplified init_handle_valid not_True_eq_False if_False]
  show "Bridge_Init now w =
     (let ib = (bw_ib w)\<lparr>ib_networkHandle := Some (init_handle (pf_nm (bw_pf w)))\<rparr>;
          pf = bw_pf (snd (Bridge_Init now w));
          gpio = (ib_gpioState ib)[unat kSocReady := True, unat kSocPwrEn := True];
          w' = TransitionState IpcConnectionState.kHandshake (w\<lparr>bw_ib := ib\<lparr>ib_gpioState := gpio\<rparr>, bw_pf := pf\<rparr>)
      in (True, on_ib (\<lambda>ib. ib\<lparr>ib_handshakeStartTime := now 1\<rparr>) w'))"
    by (simp add: eq Let_def)
  show "pf_nm (bw_pf (snd (Bridge_Init now w))) = init_networks (ib_networkHandle (bw_ib w)) (pf_nm (bw_pf w))"
    by (simp add: eq init_networks_def Let_def split: option.split)
  show "pf_sd (bw_pf (snd (Bridge_Init now w))) = pf_sd (bw_pf w)"
    by (simp add: eq)
qed

lemma Bridge_Init_view:
  assumes "bridge_view w = bridge_view w'"
  shows "bridge_view (snd (Bridge_Init now w)) = bridge_view (snd (Bridge_Init now w'))"
proof -
  let ?v = "\<lambda>w. TransitionState IpcConnectionState.kHandshake
    (w\<lparr>bw_ib := (bw_ib w)\<lparr>ib_networkHandle := Some (init_handle (pf_nm (bw_pf w))),
       ib_gpioState := (ib_gpioState (bw_ib w))[unat kSocReady := True, unat kSocPwrEn := True]\<rparr>,
     bw_pf := bw_pf (snd (Bridge_Init now w))\<rparr>)"
  have v: "bridge_view (?v w) = bridge_view (?v w')"
    using assms by (intro TransitionState_view) (simp add: bridge_view_eq Bridge_Init_pf)
  then have ib: "bw_ib (?v w) = bw_ib (?v w')" by (simp only: bridge_view_eq)
  have init: "snd (Bridge_Init now w) = on_ib (\<lambda>ib. ib\<lparr>ib_handshakeStartTime := now 1\<rparr>) (?v w)" for w
    by (subst Bridge_Init_eq) (simp add: Let_def)
  show ?thesis
    by (subst init [of w], subst init [of w'], subst ib) (rule ib_view [OF v])
qed

lemma bridge_step_view:
  assumes "bridge_view w = bridge_view w'"
  shows "bridge_view (bridge_step tpm w op) = bridge_view (bridge_step tpm w' op)"
proof (cases op)
  case (IbRound t now)
  show ?thesis unfolding IbRound bridge_step.simps by (rule Run_round_view [OF assms])
next
  case (IbInit now)
  show ?thesis unfolding IbInit bridge_step.simps by (rule Bridge_Init_view [OF assms])
next
  case (IbShutdown k)
  with assms ipc_services_view(2) [of "bw_pf w" "bw_pf w'"] show ?thesis
    by (simp add: bridge_view_eq Bridge_Shutdown_def Let_def split: option.split)
next
  case (IbGpio g l)
  show ?thesis unfolding IbGpio bridge_step.simps by (rule SetGpioSignal_view [OF assms])
qed (use assms in \<open>simp_all add: bridge_view_eq\<close>)

lemma completes_handshake_view:
  assumes "bridge_view w = bridge_view w'"
  shows "completes_handshake tpm w op = completes_handshake tpm w' op"
proof -
  have "bw_ib w = bw_ib w'" "bw_ib (bridge_step tpm w op) = bw_ib (bridge_step tpm w' op)"
    using assms bridge_step_view [OF assms, of tpm op] by (simp_all only: bridge_view_eq)
  then show ?thesis by (simp add: completes_handshake_def)
qed

subsection \<open>The monitor and other clients\<close>

lemma more_frames [simp]:
  "pf_nm (request_machine t pf) = pf_nm pf" "pf_sd (request_machine t pf) = pf_sd pf"
  "pf_nm (trigger_error r pf) = pf_nm pf" "pf_sd (trigger_error r pf) = pf_sd pf"
  "pf_nm (initialize_sm pf) = pf_nm pf" "pf_sd (initialize_sm pf) = pf_sd pf"
  by (simp_all add: request_machine_def trigger_error_def initialize_sm_def case_prod_beta Let_def)

lemma Execute_frames [simp]:
  "pf_nm (ExecuteSafetyAction l pf) = pf_nm pf" "pf_sd (ExecuteSafetyAction l pf) = pf_sd pf"
  by (cases l; simp add: ExecuteSafetyAction_def Let_def)+

lemma Escalate_frames:
  assumes "EscalateSafetyLevel l r (sf, pf, c) = (sf', pf', c')"
  shows "pf_nm pf' = pf_nm pf \<and> pf_sd pf' = pf_sd pf"
  using assms by (auto simp: Escalate_cases split: if_splits)

lemma Check_frames:
  assumes "PeriodicSafetyCheck now (sf, pf, c) = Inr (sf', pf', c')"
  shows "pf_nm pf' = pf_nm pf \<and> pf_sd pf' = pf_sd pf"
  using assms
  by (auto simp: PeriodicSafetyCheck_def Let_def case_prod_beta split: option.splits if_splits
      dest!: Escalate_frames)

lemma Shutdown_frames:
  "let (_, pf', _) = Safety_Shutdown k (sf, pf, c) in pf_nm pf' = pf_nm pf \<and> pf_sd pf' = pf_sd pf"
proof -
  obtain sf1 pf1 c1 where e: "EscalateSafetyLevel kLevel3_SafeStop ''Planned shutdown''
      (sf\<lparr>sf_running := False\<rparr>, pf, c) = (sf1, pf1, c1)" by (metis prod_cases3)
  with Escalate_frames [OF e] show ?thesis by (simp add: Safety_Shutdown_def Let_def)
qed

lemma safety_step_frames:
  assumes "safety_step (Inr (sf, pf, c)) op = Inr (sf', pf', c')"
  shows "pf_nm pf' = pf_nm pf \<and> pf_sd pf' = pf_sd pf"
proof (cases op)
  case (SfCheck now)
  with assms show ?thesis by (simp add: Check_frames)
next
  case (SfShutdown k)
  with assms Shutdown_frames [of k sf pf c] show ?thesis by auto
next
  case (SfInit now)
  with assms show ?thesis by (auto simp: Safety_Init_def Let_def case_prod_beta)
qed (use assms in auto)

lemma with_pf_fields [simp]:
  "vh_pf (with_pf pf v) = pf" "vh_monitor (with_pf pf v) = vh_monitor v" "vh_levels (with_pf pf v) = vh_levels v"
  "vh_signals (with_pf pf v) = vh_signals v" "vh_sig_calls (with_pf pf v) = vh_sig_calls v"
  "bw_ib (vh_bridge (with_pf pf v)) = bw_ib (vh_bridge v)"
  "bw_states (vh_bridge (with_pf pf v)) = bw_states (vh_bridge v)"
  "bw_gpios (vh_bridge (with_pf pf v)) = bw_gpios (vh_bridge v)"
  by (simp_all add: with_pf_def)

lemma bridge_view_with_pf: "bridge_sees (vh_pf v) pf \<Longrightarrow> bridge_view (vh_bridge (with_pf pf v)) = bridge_view (vh_bridge v)"
  by (simp add: bridge_view_eq bridge_sees_def)

definition monitor_state :: "Vehicle \<Rightarrow> safety_state" where
  "monitor_state v = (vh_monitor v, vh_pf v, vh_levels v)"

lemma on_monitor_cases:
  assumes "vehicle_act tpm (Monitor op) v = r"
  shows "map_sum id monitor_state r = safety_step (Inr (monitor_state v)) op"
    and "r = Inr v' \<Longrightarrow> bridge_view (vh_bridge v') = bridge_view (vh_bridge v) \<and>
      pf_sd (vh_pf v') = pf_sd (vh_pf v) \<and> vh_signals v' = vh_signals v \<and> vh_sig_calls v' = vh_sig_calls v"
proof -
  let ?s = "safety_step (Inr (monitor_state v)) op"
  show "map_sum id monitor_state r = ?s"
    using assms by (cases ?s) (auto simp: on_monitor_def monitor_state_def)
  show "bridge_view (vh_bridge v') = bridge_view (vh_bridge v) \<and> pf_sd (vh_pf v') = pf_sd (vh_pf v) \<and>
      vh_signals v' = vh_signals v \<and> vh_sig_calls v' = vh_sig_calls v" if "r = Inr v'"
  proof (cases ?s)
    case (Inl e)
    with that assms show ?thesis by (simp add: on_monitor_def monitor_state_def)
  next
    case (Inr w)
    obtain sf pf c where w: "w = (sf, pf, c)" by (cases w)
    from Inr have f: "pf_nm pf = pf_nm (vh_pf v) \<and> pf_sd pf = pf_sd (vh_pf v)"
      unfolding w monitor_state_def by (rule safety_step_frames)
    have "v' = with_pf pf (v\<lparr>vh_monitor := sf, vh_levels := c\<rparr>)"
      using that assms Inr by (simp add: on_monitor_def monitor_state_def w)
    with f show ?thesis by (simp add: bridge_view_eq)
  qed
qed

subsection \<open>The signal service\<close>

definition quiet :: "Platform \<Rightarrow> Platform \<Rightarrow> bool" where
  "quiet pf pf' \<longleftrightarrow> monitor_sees pf pf' \<and> pf_nm pf' = pf_nm pf \<and> pf_sd pf' = pf_sd pf"

lemma quiet_simps [simp]:
  "quiet pf pf" "quiet pf (on_phm (ReportCheckpoint e cp t) pf)" "quiet pf (report_state k pf)"
  by (simp_all add: quiet_def monitor_sees_def)

lemma quiet_trans: "quiet a b \<Longrightarrow> quiet b c \<Longrightarrow> quiet a c"
  by (auto simp: quiet_def intro: sees_trans)

lemma OnSignalReceived_quiet: "quiet pf (fst (snd (OnSignalReceived now sig (swc, pf, c))))"
  by (simp add: OnSignalReceived_def Let_def case_prod_beta)

lemma availability_quiet: "quiet pf (fst (snd (Swc_on_availability now a (swc, pf, c))))"
proof (cases a)
  case True
  then show ?thesis
    by (cases "vx_callback (vw_proxy swc)")
      (simp_all add: Swc_on_availability_def on_availability_def OnSignalReceived_quiet)
qed (simp add: Swc_on_availability_def on_availability_def)

lemma Swc_Shutdown_quiet: "quiet pf (fst (snd (Swc_Shutdown k (swc, pf, c))))"
  by (simp add: Swc_Shutdown_def)

lemma Swc_dtor_quiet: "quiet pf (fst (snd (VehicleSignalServiceSWC_dtor k (swc, pf, c))))"
  by (simp add: VehicleSignalServiceSWC_dtor_def Swc_Shutdown_quiet)

text \<open>What the signal service leaves alone, in its own steps and in the availability lambda.\<close>

definition others_kept :: "Vehicle \<Rightarrow> Vehicle \<Rightarrow> bool" where
  "others_kept v v' \<longleftrightarrow> vh_monitor v' = vh_monitor v \<and> vh_levels v' = vh_levels v \<and>
     monitor_sees (vh_pf v) (vh_pf v') \<and> bridge_view (vh_bridge v') = bridge_view (vh_bridge v)"

lemma others_kept_refl [simp]: "others_kept v v"
  by (simp add: others_kept_def)

lemma others_kept_trans: "others_kept a b \<Longrightarrow> others_kept b c \<Longrightarrow> others_kept a c"
  by (auto simp: others_kept_def intro: sees_trans)

lemma on_signals_kept:
  assumes "quiet (vh_pf v) (fst (snd (f (swc, vh_pf v, vh_sig_calls v))))"
  shows "others_kept v (on_signals f swc v)"
    and "pf_sd (vh_pf (on_signals f swc v)) = pf_sd (vh_pf v)"
    and "vh_signals (on_signals f swc v) = Some (fst (f (swc, vh_pf v, vh_sig_calls v)))"
    and "vh_sig_calls (on_signals f swc v) = snd (snd (f (swc, vh_pf v, vh_sig_calls v)))"
  using assms
  by (auto simp: on_signals_def case_prod_beta others_kept_def quiet_def bridge_view_eq)

lemma deliver_kept:
  assumes "deliver now calls v = Inr v'"
  shows "others_kept v v' \<and> pf_sd (vh_pf v') = pf_sd (vh_pf v) \<and> (vh_signals v' = None \<longleftrightarrow> vh_signals v = None)"
  using assms
proof (induction now calls v rule: deliver.induct)
  case (2 now cb svc a calls v)
  show ?case
  proof (cases "vh_signals v")
    case None
    with 2 show ?thesis by (simp split: if_splits)
  next
    case (Some swc)
    note k = on_signals_kept [where v = v and f = "Swc_on_availability now a" and swc = swc, OF availability_quiet]
    show ?thesis
    proof (cases "cb = proxy_lambda")
      case True
      with 2(4) Some have "deliver now calls (on_signals (Swc_on_availability now a) swc v) = Inr v'"
        by simp
      from 2(3) [OF _ Some this] True Some k show ?thesis by (auto intro: others_kept_trans)
    qed (use 2 in simp)
  qed
qed simp

lemma deliver_unavailable:
  "list_all (\<lambda>(_, _, available). \<not> available) calls \<Longrightarrow> deliver now calls v = Inr v"
proof (induction calls)
  case (Cons call calls)
  have "on_signals (Swc_on_availability now False) swc v = v" if "vh_signals v = Some swc" for swc
    using that by (simp add: on_signals_def Swc_on_availability_def on_availability_def with_pf_def)
  with Cons show ?case by (cases call) (auto split: option.split)
qed simp

text \<open>The lambda is subscribed \<open>n\<close> times for the vehicle signals, and nothing else is subscribed.\<close>

definition subscriptions :: "nat \<Rightarrow> SomeIpServiceDiscovery \<Rightarrow> bool" where
  "subscriptions n sd \<longleftrightarrow> um_find (sv_subscribers sd) =
     (\<lambda>i. if i = 0x1001 \<and> n \<noteq> 0 then Some (replicate n proxy_lambda) else None)"

lemma subscriptions_cong: "sv_subscribers sd' = sv_subscribers sd \<Longrightarrow> subscriptions n sd' = subscriptions n sd"
  by (simp add: subscriptions_def)

lemma subscriptions_start: "subscriptions 0 SomeIpServiceDiscovery_new"
  by (simp add: subscriptions_def SomeIpServiceDiscovery_new_def um_simps fun_eq_iff)

lemma subscribe_free:
  assumes "\<not> offered sd 0x1001" and "subscriptions n sd"
  shows "\<exists>sd'. SubscribeVehicleSignals cb proxy_lambda px sd =
      Inr (px\<lparr>vx_callback := cb, vx_subscriptionState := SubscriptionState.kSubscribed\<rparr>, sd', []) \<and>
    sv_offeredServices sd' = sv_offeredServices sd \<and> subscriptions (Suc n) sd'"
  using assms
  by (auto simp: SubscribeVehicleSignals_def SubscribeServiceAvailability_def Let_def offered_def
      subscriptions_def um_simps fun_eq_iff replicate_append_same)

lemma Swc_Init_cases:
  assumes "subscriptions n (pf_sd pf)"
  shows "if offered (pf_sd pf) 0x1001 then Swc_Init proxy_lambda now (swc, pf, c) = Inl SelfDeadlock
    else \<exists>pf'. Swc_Init proxy_lambda now (swc, pf, c) =
        Inr (True, swc\<lparr>vw_proxy := (vw_proxy swc)\<lparr>vx_callback := Some own_lambda,
          vx_subscriptionState := SubscriptionState.kSubscribed\<rparr>\<rparr>, pf', c) \<and>
      monitor_sees pf pf' \<and> bridge_sees pf pf' \<and> subscriptions (Suc n) (pf_sd pf')"
proof (cases "offered (pf_sd pf) 0x1001")
  case True
  then show ?thesis by (simp add: Swc_Init_def Let_def subscribe_deadlock [THEN iffD2])
next
  case False
  from subscribe_free [OF this assms, of "Some own_lambda" "vw_proxy swc"] show ?thesis
    using False by (auto simp: Swc_Init_def Let_def monitor_sees_def bridge_sees_def)
qed

lemma signal_step_faults:
  assumes "subscriptions n (pf_sd (vh_pf v))"
  shows "signal_step now op swc v = Inl e \<longleftrightarrow> e = SelfDeadlock \<and> op = SgInit \<and> offered (pf_sd (vh_pf v)) 0x1001"
proof (cases op)
  case SgInit
  with Swc_Init_cases [OF assms, of now swc "vh_sig_calls v"] show ?thesis
    by (auto split: if_splits)
qed auto

lemma signal_init_kept:
  assumes "signal_step now SgInit swc v = Inr v'" and "subscriptions n (pf_sd (vh_pf v))"
  shows "others_kept v v' \<and> subscriptions (Suc n) (pf_sd (vh_pf v')) \<and> vh_sig_calls v' = vh_sig_calls v \<and>
    vh_signals v' = Some (swc\<lparr>vw_proxy := (vw_proxy swc)\<lparr>vx_callback := Some own_lambda,
          vx_subscriptionState := SubscriptionState.kSubscribed\<rparr>\<rparr>)"
proof -
  have free: "\<not> offered (pf_sd (vh_pf v)) 0x1001"
    using assms signal_step_faults [OF assms(2), of now SgInit swc] by auto
  with Swc_Init_cases [OF assms(2), of now swc "vh_sig_calls v"] obtain pf' where
    "Swc_Init proxy_lambda now (swc, vh_pf v, vh_sig_calls v) =
        Inr (True, swc\<lparr>vw_proxy := (vw_proxy swc)\<lparr>vx_callback := Some own_lambda,
          vx_subscriptionState := SubscriptionState.kSubscribed\<rparr>\<rparr>, pf', vh_sig_calls v)"
    and "monitor_sees (vh_pf v) pf'" "bridge_sees (vh_pf v) pf'" "subscriptions (Suc n) (pf_sd pf')"
    by auto
  with assms(1) show ?thesis
    by (auto simp: on_signals_def others_kept_def bridge_view_eq bridge_sees_def)
qed

lemma signal_other_kept:
  assumes "signal_step now op swc v = Inr v'" and "op \<noteq> SgInit" and "vh_signals v = Some swc"
  shows "others_kept v v' \<and> pf_sd (vh_pf v') = pf_sd (vh_pf v) \<and>
    (vh_signals v' = None \<longleftrightarrow> (\<exists>k. op = SgDestroy k))"
proof (cases op)
  case SgRound
  have "quiet (vh_pf v) (Swc_Run_round now (vh_pf v))" by (simp add: Swc_Run_round_def)
  with SgRound assms show ?thesis by (auto simp: others_kept_def quiet_def bridge_view_eq)
next
  case (SgShutdown k)
  with assms on_signals_kept [where f = "Swc_Shutdown k" and swc = swc and v = v, OF Swc_Shutdown_quiet]
  show ?thesis by auto
next
  case (SgCallback cb)
  let ?f = "\<lambda>(swc, pf, c). (SetSignalChangeCallback cb swc, pf, c)"
  have "quiet (vh_pf v) (fst (snd (?f (swc, vh_pf v, vh_sig_calls v))))" by simp
  from on_signals_kept [where f = ?f, OF this] SgCallback assms show ?thesis by auto
next
  case (SgDestroy k)
  with assms on_signals_kept [where f = "VehicleSignalServiceSWC_dtor k" and swc = swc and v = v, OF Swc_dtor_quiet]
  show ?thesis by (auto simp: others_kept_def)
qed (use assms in simp)

section \<open>Where the vehicle faults\<close>

text \<open>
  An abstraction of the vehicle: the monitor is its own specification (the level as a maximum), the
  bridge runs on a platform of its own, and of the signal service only its being alive and the
  number of its subscriptions count. It says where the whole faults: a check before the
  monitor's \<open>Init\<close>, an \<open>Init\<close> of the signal service while the bridge has service 0x1001 on offer,
  and a handshake completed after a subscribed signal service has been destroyed. These last two
  depend on two parts at once; the steps of the monitor and of the bridge themselves do not.
\<close>

type_synonym watch = "monitor_spec \<times> bool \<times> nat \<times> bridge_world"

fun watch_act :: "int \<Rightarrow> vehicle_op \<Rightarrow> watch \<Rightarrow> watch outcome" where
  "watch_act tpm (Monitor op) (ms, alive, n, w) = map_sum id (\<lambda>ms. (ms, alive, n, w)) (spec_step (Inr ms) op)"
| "watch_act tpm (Bridge now op) (ms, alive, n, w) =
     (if completes_handshake tpm w op \<and> n \<noteq> 0 \<and> \<not> alive then Inl UseAfterFree
      else Inr (ms, alive, n, bridge_step tpm w op))"
| "watch_act tpm (Signals now op) (ms, alive, n, w) =
     (if \<not> alive then Inr (ms, alive, n, w)
      else case op of
          SgInit \<Rightarrow> if offered (pf_sd (bw_pf w)) 0x1001 then Inl SelfDeadlock else Inr (ms, True, Suc n, w)
        | SgDestroy k \<Rightarrow> Inr (ms, False, n, w)
        | _ \<Rightarrow> Inr (ms, True, n, w))"

definition watch_step :: "int \<Rightarrow> watch outcome \<Rightarrow> vehicle_op \<Rightarrow> watch outcome" where
  "watch_step tpm r op = obind r (watch_act tpm op)"

definition watch_start :: "McuSafetyStatus \<Rightarrow> readings \<Rightarrow> watch" where
  "watch_start m now = ((kLevel0_Normal, m, False), True, 0, bridge_start now)"

definition simulates :: "Vehicle \<Rightarrow> watch \<Rightarrow> bool" where
  "simulates v s = (case s of (ms, alive, n, w) \<Rightarrow>
     level_inv (monitor_state v) \<and> abs_monitor (Inr (monitor_state v)) = Inr ms \<and>
     (alive \<longleftrightarrow> vh_signals v \<noteq> None) \<and> subscriptions n (pf_sd (vh_pf v)) \<and>
     bridge_view (vh_bridge v) = bridge_view w)"

lemma monitor_state_kept:
  assumes "others_kept v v'"
  shows "level_inv (monitor_state v) \<Longrightarrow> level_inv (monitor_state v')"
    and "abs_monitor (Inr (monitor_state v')) = abs_monitor (Inr (monitor_state v))"
  using assms
  by (auto simp: others_kept_def monitor_state_def monitor_sees_def level_inv_def abs_monitor_def)

lemma simulates_kept:
  assumes "simulates v (ms, alive, n, w)" and "others_kept v v'"
    and "subscriptions n' (pf_sd (vh_pf v'))" and "alive' \<longleftrightarrow> vh_signals v' \<noteq> None"
  shows "simulates v' (ms, alive', n', w)"
  using assms monitor_state_kept [OF assms(2)] by (simp add: simulates_def others_kept_def)

lemma monitor_simulation:
  assumes "simulates v (ms, alive, n, w)"
  shows "rel_sum (=) simulates (vehicle_act tpm (Monitor op) v) (watch_act tpm (Monitor op) (ms, alive, n, w))"
proof -
  let ?s = "safety_step (Inr (monitor_state v)) op"
  have inv: "safety_inv (Inr (monitor_state v))" and abs: "abs_monitor (Inr (monitor_state v)) = Inr ms"
    using assms by (simp_all add: simulates_def safety_inv_def)
  have spec: "abs_monitor ?s = spec_step (Inr ms) op"
    using safety_step_abs [OF inv, of op] abs by simp
  show ?thesis
  proof (cases "vehicle_act tpm (Monitor op) v")
    case (Inl e)
    then have "?s = Inl e" using on_monitor_cases(1) [OF Inl] by simp
    then have "spec_step (Inr ms) op = Inl e" using spec by (simp add: abs_monitor_def)
    with Inl show ?thesis by simp
  next
    case (Inr v')
    then have s: "?s = Inr (monitor_state v')" using on_monitor_cases(1) [OF Inr] by simp
    obtain ms' where ms': "abs_monitor (Inr (monitor_state v')) = Inr ms'"
      by (simp add: abs_monitor_def)
    then have "spec_step (Inr ms) op = Inr ms'" using spec unfolding s by simp
    moreover
    have "level_inv (monitor_state v')"
      using safety_step_inv [OF inv, of op] unfolding s by (simp add: safety_inv_def)
    ultimately show ?thesis
      unfolding Inr using on_monitor_cases(2) [OF Inr refl] ms' assms by (simp add: simulates_def)
  qed
qed

lemma signal_simulation:
  assumes "simulates v (ms, alive, n, w)"
  shows "rel_sum (=) simulates (vehicle_act tpm (Signals now op) v) (watch_act tpm (Signals now op) (ms, alive, n, w))"
proof (cases "vh_signals v")
  case None
  with assms show ?thesis by (simp add: simulates_def)
next
  case (Some swc)
  have alive: alive and subs: "subscriptions n (pf_sd (vh_pf v))"
    using assms Some by (simp_all add: simulates_def)
  have off: "offered (pf_sd (bw_pf w)) i = offered (pf_sd (vh_pf v)) i" for i
    using assms by (simp add: simulates_def offered_def bridge_view_eq)
  note kept = simulates_kept [OF assms]
  show ?thesis
  proof (cases "op = SgInit")
    case True
    show ?thesis
    proof (cases "signal_step now SgInit swc v")
      case (Inl e)
      with signal_step_faults [OF subs, of now SgInit swc e] show ?thesis
        by (simp add: True Some alive off)
    next
      case (Inr v')
      have "\<not> offered (pf_sd (vh_pf v)) 0x1001"
        using signal_step_faults [OF subs, of now SgInit swc] Inr by auto
      with signal_init_kept [OF Inr subs] Inr kept [of v' "Suc n" True] show ?thesis
        by (simp del: signal_step.simps add: True Some alive off)
    qed
  next
    case False
    with signal_step_faults [OF subs, of now op swc] obtain v' where v': "signal_step now op swc v = Inr v'"
      by (cases "signal_step now op swc v") auto
    from signal_other_kept [OF v' False Some]
    have "others_kept v v'" "subscriptions n (pf_sd (vh_pf v'))" "vh_signals v' = None \<longleftrightarrow> (\<exists>k. op = SgDestroy k)"
      using subs by simp_all
    with kept [of v' n "\<not> (\<exists>k. op = SgDestroy k)"] v' False show ?thesis
      by (cases op) (simp_all del: signal_step.simps add: Some alive)
  qed
qed

lemma deliver_available:
  "vh_signals v \<noteq> None \<Longrightarrow> \<exists>v'. deliver now calls v = Inr v'"
proof (induction now calls v rule: deliver.induct)
  case (2 now cb svc a calls v)
  then obtain swc where swc: "vh_signals v = Some swc" by blast
  have "vh_signals (on_signals (Swc_on_availability now a) swc v) \<noteq> None"
    by (simp add: on_signals_def case_prod_beta)
  with 2 swc show ?case by auto
qed simp

lemma catalogue_notices:
  assumes "subscriptions n sd"
  shows "\<exists>svc. concat (map (notices sd) kServiceCatalog) = replicate n (proxy_lambda, svc, True)"
proof -
  have none: "concat (map (notices sd) svcs) = []" if "\<And>svc. svc \<in> set svcs \<Longrightarrow> sd_serviceId svc \<noteq> 0x1001" for svcs
    using that assms by (induction svcs) (auto simp: notices_def subscriptions_def)
  have rest: "concat (map (notices sd) (tl kServiceCatalog)) = []"
  proof -
    have "list_all (\<lambda>svc. sd_serviceId svc \<noteq> 0x1001) (tl kServiceCatalog)" by code_simp
    then show ?thesis by (intro none) (simp add: list_all_iff)
  qed
  have "kServiceCatalog = hd kServiceCatalog # tl kServiceCatalog" by (simp add: kServiceCatalog_def)
  then have "concat (map (notices sd) kServiceCatalog) =
      notices sd (hd kServiceCatalog) @ concat (map (notices sd) (tl kServiceCatalog))"
    by (metis concat.simps(2) list.simps(9))
  also have "\<dots> = notices sd (hd kServiceCatalog)" by (simp only: rest append_Nil2)
  finally have first: "concat (map (notices sd) kServiceCatalog) = notices sd (hd kServiceCatalog)" .
  have "sd_serviceId (hd kServiceCatalog) = 0x1001" by code_simp
  with assms show ?thesis
    unfolding first by (intro exI [of _ "hd kServiceCatalog"]) (auto simp: notices_def subscriptions_def)
qed

lemma deliver_destroyed:
  "vh_signals v = None \<Longrightarrow>
   deliver now (replicate n (proxy_lambda, svc, True)) v = (if n = 0 then Inr v else Inl UseAfterFree)"
  by (cases n) simp_all

lemma bridge_simulation:
  assumes "simulates v (ms, alive, n, w)"
  shows "rel_sum (=) simulates (vehicle_act tpm (Bridge now op) v) (watch_act tpm (Bridge now op) (ms, alive, n, w))"
proof -
  let ?b = "bridge_step tpm (vh_bridge v) op"
  let ?v = "v\<lparr>vh_bridge := ?b\<rparr>"
  have view: "bridge_view (vh_bridge v) = bridge_view w" and subs: "subscriptions n (pf_sd (vh_pf v))"
    using assms by (simp_all add: simulates_def)
  have inv: "level_inv (monitor_state v)" "abs_monitor (Inr (monitor_state v)) = Inr ms" "alive \<longleftrightarrow> vh_signals v \<noteq> None"
    using assms by (simp_all add: simulates_def)
  have "level_inv (monitor_state ?v)" "abs_monitor (Inr (monitor_state ?v)) = Inr ms"
    using inv bridge_step_monitor [of "vh_bridge v" tpm op]
    by (auto simp: monitor_state_def level_inv_def monitor_sees_def abs_monitor_def)
  moreover have "subscriptions n (pf_sd (vh_pf ?v))"
    using subs subscriptions_cong [OF bridge_step_subscribers] by simp
  ultimately have v: "simulates ?v (ms, alive, n, bridge_step tpm w op)"
    using inv(3) bridge_step_view [OF view, of tpm op] by (simp add: simulates_def)
  have delivered: "rel_sum (=) simulates (deliver now calls ?v) (Inr (ms, alive, n, bridge_step tpm w op))"
    if "deliver now calls ?v = Inr v'" for calls v'
    using simulates_kept [OF v, of v' n alive] deliver_kept [OF that] v
    unfolding that by (simp add: simulates_def)
  show ?thesis
  proof (cases "completes_handshake tpm w op")
    case True
    then have c: "completes_handshake tpm (vh_bridge v) op" using completes_handshake_view [OF view] by simp
    obtain svc where calls: "bridge_calls (vh_bridge v) ?b = replicate n (proxy_lambda, svc, True)"
      using catalogue_notices [OF subs] bridge_calls_offer [OF c] by auto
    show ?thesis
    proof (cases "vh_signals v")
      case None
      then have "deliver now (replicate n (proxy_lambda, svc, True)) ?v = (if n = 0 then Inr ?v else Inl UseAfterFree)"
        by (intro deliver_destroyed) simp
      with v inv(3) None True show ?thesis by (cases "n = 0") (simp_all add: calls)
    next
      case (Some swc)
      then obtain v' where "deliver now (replicate n (proxy_lambda, svc, True)) ?v = Inr v'"
        using deliver_available [of ?v] by auto
      from delivered [OF this] inv(3) Some True show ?thesis by (simp add: calls)
    qed
  next
    case False
    then have "\<not> completes_handshake tpm (vh_bridge v) op" using completes_handshake_view [OF view] by simp
    then have "deliver now (bridge_calls (vh_bridge v) ?b) ?v = Inr ?v"
      by (intro deliver_unavailable bridge_calls_other)
    with v False show ?thesis by (simp add: Let_def)
  qed
qed

lemma vehicle_simulation:
  assumes "simulates v s"
  shows "rel_sum (=) simulates (vehicle_act tpm op v) (watch_act tpm op s)"
proof -
  obtain ms alive n w where s: "s = (ms, alive, n, w)" by (cases s)
  show ?thesis
    using assms unfolding s
    by (cases op) (simp_all only: monitor_simulation bridge_simulation signal_simulation)
qed

lemma vehicle_run_simulation:
  assumes "rel_sum (=) simulates r q"
  shows "rel_sum (=) simulates (run (vehicle_step tpm) r ops) (run (watch_step tpm) q ops)"
  using assms
proof (induction ops arbitrary: r q)
  case (Cons op ops)
  from Cons.prems have "rel_sum (=) simulates (vehicle_step tpm r op) (watch_step tpm q op)"
    by (cases r; cases q) (simp_all add: vehicle_step_def watch_step_def obind_def vehicle_simulation)
  from Cons.IH [OF this] show ?case by simp
qed simp

lemma simulates_start: "simulates (vehicle_start t m now) (watch_start m now)"
  using safety_inv_start [of t m] subscriptions_start
  by (simp add: simulates_def vehicle_start_def watch_start_def monitor_state_def safety_inv_def
      bridge_start_def Platform_start_def abs_monitor_def SafetyMonitor_ctor_def)

section \<open>What the vehicle promises\<close>

lemma vehicle_watch:
  "rel_sum (=) simulates (run (vehicle_step tpm) (Inr (vehicle_start t m now)) ops)
     (run (watch_step tpm) (Inr (watch_start m now)) ops)"
  by (rule vehicle_run_simulation) (simp add: simulates_start)

text \<open>The calls on the monitor and those of other clients of its singletons; the calls on the bridge.\<close>

fun monitor_ops :: "vehicle_op list \<Rightarrow> safety_op list" where
  "monitor_ops [] = []"
| "monitor_ops (Monitor op # ops) = op # monitor_ops ops"
| "monitor_ops (_ # ops) = monitor_ops ops"

fun bridge_ops :: "vehicle_op list \<Rightarrow> bridge_op list" where
  "bridge_ops [] = []"
| "bridge_ops (Bridge t op # ops) = op # bridge_ops ops"
| "bridge_ops (_ # ops) = bridge_ops ops"

lemma watch_run_Inl [simp]: "run (watch_step tpm) (Inl e) ops = Inl e"
  by (induction ops) (simp_all add: watch_step_def)

lemma watch_step_Inr: "watch_step tpm (Inr s) op = watch_act tpm op s"
  by (simp add: watch_step_def)

lemma watch_split:
  "run (watch_step tpm) (Inr (ms, alive, n, w)) ops = Inr (ms', alive', n', w') \<Longrightarrow>
     run spec_step (Inr ms) (monitor_ops ops) = Inr ms' \<and> run (bridge_step tpm) w (bridge_ops ops) = w'"
proof (induction ops arbitrary: ms alive n w)
  case (Cons op ops)
  show ?case
  proof (cases op)
    case (Monitor op')
    with Cons show ?thesis by (cases "spec_step (Inr ms) op'") (simp_all add: watch_step_Inr)
  next
    case (Signals t op')
    with Cons show ?thesis by (cases op') (auto simp: watch_step_Inr split: if_splits)
  qed (use Cons in \<open>auto simp: watch_step_Inr split: if_splits\<close>)
qed simp


definition calm_mcu :: McuSafetyStatus where
  "calm_mcu = demo_mcu False"


end
