(* ===== verification/VehicleRuns.thy ===== *)
theory VehicleRuns
  imports Vehicle
begin

text \<open>
  Consequences of the independence of the three service components (theory \<open>Vehicle\<close>): faults of
  the bridge and of the signals never reach the safety level, the order in which the components
  can be started and stopped without a fault, what the signal service really delivers, and the
  network that is awake while the bridge holds its handle.
\<close>

lemma vehicle_run_watch:
  assumes "run (vehicle_step tpm) (Inr (vehicle_start t m now)) ops = Inr v"
  shows "\<exists>s. run (watch_step tpm) (Inr (watch_start m now)) ops = Inr s \<and> simulates v s"
  using vehicle_watch [of tpm t m now ops] assms
  by (cases "run (watch_step tpm) (Inr (watch_start m now)) ops") simp_all

section \<open>Safety levels\<close>

text \<open>Steps that demand no safety level: every status of the MCU is calm, and nobody shuts down.\<close>

definition calm :: "McuSafetyStatus \<Rightarrow> bool" where
  "calm st \<longleftrightarrow> \<not> mc_asil_dViolation st \<and> mc_safetyLevel st < kLevel2_MinRisk"

fun harmless :: "vehicle_op \<Rightarrow> bool" where
  "harmless (Monitor (SfMcu st)) \<longleftrightarrow> calm st"
| "harmless (Monitor (SfShutdown k)) \<longleftrightarrow> False"
| "harmless _ \<longleftrightarrow> True"

lemma calm_demanded: "calm st \<Longrightarrow> demanded st = kLevel0_Normal"
  by (auto simp: calm_def demanded_def simp flip: not_le)

definition watch_calm :: "watch outcome \<Rightarrow> bool" where
  "watch_calm q = (case q of Inl e \<Rightarrow> True | Inr ((l, st, _), _) \<Rightarrow> l = kLevel0_Normal \<and> calm st)"

lemma watch_calm_step:
  assumes "watch_calm q" and "harmless op"
  shows "watch_calm (watch_step tpm q op)"
proof (cases q)
  case (Inr s)
  obtain l st ready alive n w where s: "s = ((l, st, ready), alive, n, w)" by (cases s) auto
  show ?thesis
  proof (cases op)
    case (Monitor op')
    with assms show ?thesis
      by (cases op') (auto simp: Inr s watch_calm_def watch_step_def calm_demanded)
  next
    case (Signals t op')
    with assms show ?thesis by (cases op') (auto simp: Inr s watch_calm_def watch_step_def)
  qed (use assms in \<open>auto simp: Inr s watch_calm_def watch_step_def\<close>)
qed (simp add: watch_calm_def watch_step_def)

lemma watch_calm_run:
  "watch_calm q \<Longrightarrow> list_all harmless ops \<Longrightarrow> watch_calm (run (watch_step tpm) q ops)"
  by (induction ops arbitrary: q) (simp_all add: watch_calm_step)

text \<open>
  C15: no failure of the bridge or of the signals ever reaches the safety level. As long as the MCU
  reports no violation and no level of minimal risk or more, and nobody shuts the monitor down,
  the level stays normal and health management reports normal, whatever else happens: lost
  connections, time-outs, missed checkpoints, components destroyed, entities unregistered.
\<close>

theorem failures_never_escalate:
  assumes "run (vehicle_step tpm) (Inr (vehicle_start t m now)) ops = Inr v"
    and "calm m" and "list_all harmless ops"
  shows "GetCurrentSafetyLevel (vh_monitor v) = kLevel0_Normal \<and>
    GetGlobalStatus (pf_phm (vh_pf v)) = GlobalSupervisionStatus.kNormal"
proof -
  obtain s where s: "run (watch_step tpm) (Inr (watch_start m now)) ops = Inr s" "simulates v s"
    using vehicle_run_watch [OF assms(1)] by blast
  have "watch_calm (Inr (watch_start m now))" using assms(2) by (simp add: watch_calm_def watch_start_def)
  from watch_calm_run [OF this assms(3), of tpm] s show ?thesis
    by (auto simp: watch_calm_def simulates_def abs_monitor_def monitor_state_def level_inv_def
        GetCurrentSafetyLevel_def all_ok_global split: prod.splits)
qed

text \<open>A start in order, a connection, and its loss; the signal service is destroyed in the end.\<close>

definition demo_ops :: "vehicle_op list" where
  "demo_ops = [Monitor (SfInit int), Signals 0 (SgCallback (Some 5)), Signals 0 SgInit, Bridge 0 (IbInit (\<lambda>_. 0)),
     Bridge 150 (at_time 150), Monitor (SfCheck int), Bridge 900 (at_time 900), Monitor (SfMcu calm_mcu),
     Signals 950 (SgDestroy 7), Monitor (SfCheck int)]"

definition demo_vehicle :: "vehicle_op list \<Rightarrow> Vehicle outcome" where
  "demo_vehicle ops = run (vehicle_step 1) (Inr (vehicle_start 0 calm_mcu (\<lambda>_. 0))) ops"

theorem failures_never_escalate_witness:
  "case demo_vehicle demo_ops of
     Inl e \<Rightarrow> False
   | Inr v \<Rightarrow> GetConnectionState (bw_ib (vh_bridge v)) = IpcConnectionState.kError \<and>
       GetCurrentSafetyLevel (vh_monitor v) = kLevel0_Normal"
proof -
  have "case demo_vehicle demo_ops of
     Inl e \<Rightarrow> False | Inr v \<Rightarrow> GetConnectionState (bw_ib (vh_bridge v)) = IpcConnectionState.kError"
    by code_simp
  then obtain v where v: "demo_vehicle demo_ops = Inr v"
    and e: "GetConnectionState (bw_ib (vh_bridge v)) = IpcConnectionState.kError"
    by (auto split: sum.splits)
  have "calm calm_mcu" "list_all harmless demo_ops" by code_simp+
  from failures_never_escalate [OF v [unfolded demo_vehicle_def] this] show ?thesis
    by (simp add: v e)
qed

section \<open>What the signal service delivers\<close>

text \<open>
  Only the availability lambda calls \<open>OnSignalReceived\<close>, and it passes the initial signals it
  makes up, whose counter is zero.
\<close>

definition invented :: "VehicleSignalServiceSWC option \<Rightarrow> signal_calls \<Rightarrow> bool" where
  "invented signals calls \<longleftrightarrow> list_all (\<lambda>(_, sig). sig = initSignals) calls \<and>
     (case signals of None \<Rightarrow> True
      | Some swc \<Rightarrow> vw_lastE2ECounter swc = 0 \<and> vw_e2eErrorCount swc = 0 \<and>
          vw_latestSignals swc \<in> {VehicleSignals_ctor, initSignals})"

lemma initSignals_counter [simp]: "vg_e2eCounterValue initSignals = 0"
  by (simp add: initSignals_def VehicleSignals_ctor_def)

lemma availability_eq:
  assumes "vw_lastE2ECounter swc = 0"
  shows "Swc_on_availability now a (swc, pf, c) =
    (if \<not> a then (swc, pf, c)
     else let swc = swc\<lparr>vw_proxy := (vw_proxy swc)\<lparr>vx_latestSignals := initSignals\<rparr>\<rparr>
       in if vx_callback (vw_proxy swc) = None then (swc, pf, c)
          else (swc\<lparr>vw_latestSignals := initSignals\<rparr>, pf, c @ invoke (vw_externalCallback swc) initSignals))"
  using assms
  by (cases "vx_callback (vw_proxy swc)")
    (simp_all add: Swc_on_availability_def on_availability_def OnSignalReceived_accept Let_def)

lemma invented_calls:
  "list_all (\<lambda>(_, sig). sig = initSignals) (invoke cb initSignals)"
  by (cases cb) simp_all

lemma invented_availability:
  assumes "invented (Some swc) c" and "Swc_on_availability now a (swc, pf, c) = (swc', pf', c')"
  shows "invented (Some swc') c'"
proof -
  have z: "vw_lastE2ECounter swc = 0" using assms(1) by (simp add: invented_def)
  show ?thesis
    using assms(2) [unfolded availability_eq [OF z] Let_def] assms(1) invented_calls
    by (auto simp: invented_def split: if_splits)
qed

lemma invented_deliver:
  assumes "deliver now calls v = Inr v'" and "invented (vh_signals v) (vh_sig_calls v)"
  shows "invented (vh_signals v') (vh_sig_calls v')"
  using assms
proof (induction now calls v rule: deliver.induct)
  case (2 now cb svc a calls v)
  show ?case
  proof (cases "cb = proxy_lambda \<and> vh_signals v \<noteq> None")
    case True
    then obtain swc where swc: "vh_signals v = Some swc" by blast
    let ?v = "on_signals (Swc_on_availability now a) swc v"
    obtain swc' pf' c' where r: "Swc_on_availability now a (swc, vh_pf v, vh_sig_calls v) = (swc', pf', c')"
      by (metis prod_cases3)
    have "invented (vh_signals ?v) (vh_sig_calls ?v)"
      using invented_availability [OF _ r] 2(5) by (simp add: on_signals_def r swc)
    with 2(3) [OF _ swc] 2(4) True swc show ?thesis by simp
  qed (use 2 in \<open>auto split: if_splits option.splits\<close>)
qed simp

lemma invented_other:
  assumes "signal_step now op swc v = Inr v'" and "op \<noteq> SgInit" and "vh_signals v = Some swc"
    and "invented (Some swc) (vh_sig_calls v)"
  shows "invented (vh_signals v') (vh_sig_calls v')"
  using assms
  by (cases op)
    (auto simp: on_signals_def Swc_Shutdown_def VehicleSignalServiceSWC_dtor_def SetSignalChangeCallback_def
      invented_def)

lemma invented_act:
  assumes "simulates v s" and "vehicle_act tpm op v = Inr v'" and "invented (vh_signals v) (vh_sig_calls v)"
  shows "invented (vh_signals v') (vh_sig_calls v')"
proof (cases op)
  case (Monitor m)
  with assms show ?thesis using on_monitor_cases(2) by metis
next
  case (Bridge now b)
  with assms invented_deliver show ?thesis by (auto simp: Let_def)
next
  case (Signals now g)
  show ?thesis
  proof (cases "vh_signals v")
    case (Some swc)
    then have step: "signal_step now g swc v = Inr v'" using assms(2) by (simp add: Signals)
    obtain n where subs: "subscriptions n (pf_sd (vh_pf v))"
      using assms(1) by (auto simp: simulates_def)
    show ?thesis
    proof (cases "g = SgInit")
      case True
      from signal_init_kept [OF step [unfolded True] subs] assms(3) Some show ?thesis
        by (simp add: invented_def)
    qed (use invented_other [OF step] assms(3) Some in simp)
  qed (use assms in \<open>simp add: Signals\<close>)
qed

definition tracked :: "Vehicle \<Rightarrow> bool" where
  "tracked v \<longleftrightarrow> (\<exists>s. simulates v s)"

lemma trackedI: "simulates v s \<Longrightarrow> tracked v"
  unfolding tracked_def by (rule exI)

definition vehicle_ok :: "Vehicle outcome \<Rightarrow> bool" where
  "vehicle_ok r = (case r of Inl e \<Rightarrow> True
     | Inr v \<Rightarrow> tracked v \<and> invented (vh_signals v) (vh_sig_calls v))"

interpretation vehicle: invariant_step "vehicle_step tpm" vehicle_ok for tpm
proof
  fix r op
  assume ok: "vehicle_ok r"
  show "vehicle_ok (vehicle_step tpm r op)"
  proof (cases r)
    case (Inr v)
    with ok obtain s where s: "simulates v s" by (auto simp: vehicle_ok_def tracked_def)
    show ?thesis
    proof (cases "vehicle_act tpm op v")
      case (Inr v')
      then obtain s' where "simulates v' s'"
        using vehicle_simulation [OF s, of tpm op] by (cases "watch_act tpm op s") auto
      then have "tracked v'" by (rule trackedI)
      with invented_act [OF s Inr] ok \<open>r = Inr v\<close> Inr show ?thesis
        by (simp add: vehicle_ok_def vehicle_step_def)
    qed (simp add: vehicle_ok_def vehicle_step_def Inr)
  qed (simp add: vehicle_ok_def vehicle_step_def)
qed

lemma vehicle_ok_start: "vehicle_ok (Inr (vehicle_start t m now))"
proof -
  have "invented (Some VehicleSignalServiceSWC_ctor) []"
    by (simp add: invented_def VehicleSignalServiceSWC_ctor_def)
  with trackedI [OF simulates_start] show ?thesis by (simp add: vehicle_ok_def) (simp add: vehicle_start_def)
qed

text \<open>
  C26: the vehicle signal service never delivers a signal that was received. In every state the
  three components can reach, every invocation of the external callback has carried the initial
  signals the proxy makes up (no speed, 12.6 V, ignition on), the latest signals are those or the
  defaults of the constructor, and the error counter of the end-to-end check is zero.
\<close>

theorem only_invented_signals:
  assumes "run (vehicle_step tpm) (Inr (vehicle_start t m now)) ops = Inr v"
  shows "list_all (\<lambda>(_, sig). sig = initSignals) (vh_sig_calls v) \<and>
    (case vh_signals v of None \<Rightarrow> True
     | Some swc \<Rightarrow> vw_e2eErrorCount swc = 0 \<and>
         (GetLatestSignals swc = initSignals \<or> GetLatestSignals swc = VehicleSignals_ctor))"
proof -
  have "vehicle_ok (Inr v)"
    using vehicle.run_inv [OF vehicle_ok_start, of tpm t m now ops] assms by simp
  then show ?thesis
    by (auto simp: vehicle_ok_def invented_def GetLatestSignals_def split: option.split)
qed

theorem only_invented_signals_witness:
  "case demo_vehicle (take 5 demo_ops) of
     Inl e \<Rightarrow> False
   | Inr v \<Rightarrow> length (vh_sig_calls v) = 1 \<and> list_all (\<lambda>(_, sig). sig = initSignals) (vh_sig_calls v)"
proof -
  have "case demo_vehicle (take 5 demo_ops) of Inl e \<Rightarrow> False | Inr v \<Rightarrow> length (vh_sig_calls v) = 1"
    by code_simp
  then obtain v where v: "demo_vehicle (take 5 demo_ops) = Inr v" and n: "length (vh_sig_calls v) = 1"
    by (auto split: sum.splits)
  from only_invented_signals [OF v [unfolded demo_vehicle_def]] show ?thesis by (simp add: v n)
qed

text \<open>
  The initial signals invented \<open>n\<close> times: what becomes of the component, and what is delivered. A
  component that has unsubscribed is subscribed with service discovery all the same, but only the
  copy in its proxy changes.
\<close>

definition invents :: "nat \<Rightarrow> VehicleSignalServiceSWC \<Rightarrow> signal_calls \<Rightarrow> VehicleSignalServiceSWC \<Rightarrow> signal_calls \<Rightarrow> bool" where
  "invents n swc calls swc' calls' \<longleftrightarrow>
     GetCurrentSignals (vw_proxy swc') = initSignals \<and>
     (if vx_callback (vw_proxy swc) = None then GetLatestSignals swc' = GetLatestSignals swc \<and> calls' = calls
      else GetLatestSignals swc' = initSignals \<and>
        calls' = calls @ concat (replicate n (invoke (vw_externalCallback swc) initSignals)))"

lemma deliver_invents:
  assumes "vh_signals v = Some swc" and "vw_lastE2ECounter swc = 0" and "0 < n"
  shows "\<exists>v' swc'. deliver now (replicate n (proxy_lambda, svc, True)) v = Inr v' \<and> vh_signals v' = Some swc' \<and>
    invents n swc (vh_sig_calls v) swc' (vh_sig_calls v')"
  using assms
proof (induction n arbitrary: v swc)
  case (Suc n)
  let ?v = "on_signals (Swc_on_availability now True) swc v"
  let ?swc = "fst (Swc_on_availability now True (swc, vh_pf v, vh_sig_calls v))"
  have v: "vh_signals ?v = Some ?swc" "vw_lastE2ECounter ?swc = 0" "vw_externalCallback ?swc = vw_externalCallback swc"
    "vx_callback (vw_proxy ?swc) = vx_callback (vw_proxy swc)"
    "invents 1 swc (vh_sig_calls v) ?swc (vh_sig_calls ?v)"
    using availability_eq [of swc now True "vh_pf v" "vh_sig_calls v"] Suc.prems
    by (simp_all add: on_signals_def invents_def GetLatestSignals_def GetCurrentSignals_def Let_def)
  show ?case
  proof (cases n)
    case 0
    with Suc.prems v show ?thesis by simp
  next
    case (Suc m)
    obtain v' swc' where "deliver now (replicate n (proxy_lambda, svc, True)) ?v = Inr v'" "vh_signals v' = Some swc'"
      "invents n ?swc (vh_sig_calls ?v) swc' (vh_sig_calls v')"
      using Suc.IH [OF v(1,2)] Suc by blast
    moreover from this(3) v(3-5) have "invents (Suc n) swc (vh_sig_calls v) swc' (vh_sig_calls v')"
      by (auto simp: invents_def split: if_splits)
    ultimately show ?thesis using Suc.prems by simp
  qed
qed simp

text \<open>
  C27: every completed handshake of the bridge, the first and every one after an error, makes a
  vehicle signal service that exists and has been initialised \<open>n\<close> times, at least once, invent a
  signal, though nothing has been received. As long as the component has not unsubscribed, the
  initial signals replace the latest ones in the proxy and in the component, and the external
  callback is invoked with them \<open>n\<close> times. After it has unsubscribed, as \<open>Shutdown\<close> does, the lambda
  is still called, but only the proxy's signals are replaced and nothing is delivered.
\<close>

theorem handshake_invents_signals:
  assumes "run (vehicle_step tpm) (Inr (vehicle_start t m now)) ops = Inr v"
    and "vh_signals v = Some swc"
    and "subscriptions n (pf_sd (vh_pf v))" and "0 < n" and "completes_handshake tpm (vh_bridge v) op"
  shows "\<exists>v' swc'. vehicle_act tpm (Bridge t' op) v = Inr v' \<and> vh_signals v' = Some swc' \<and>
    GetCurrentSignals (vw_proxy swc') = initSignals \<and>
    (if vx_callback (vw_proxy swc) = None
     then GetLatestSignals swc' = GetLatestSignals swc \<and> vh_sig_calls v' = vh_sig_calls v
     else GetLatestSignals swc' = initSignals \<and>
       vh_sig_calls v' = vh_sig_calls v @ concat (replicate n (invoke (vw_externalCallback swc) initSignals)))"
proof -
  have "vehicle_ok (Inr v)"
    using vehicle.run_inv [OF vehicle_ok_start, of tpm t m now ops] assms(1) by simp
  then have counter: "vw_lastE2ECounter swc = 0" by (simp add: vehicle_ok_def invented_def assms(2))
  obtain svc where calls: "bridge_calls (vh_bridge v) (bridge_step tpm (vh_bridge v) op) =
      replicate n (proxy_lambda, svc, True)"
    using catalogue_notices [OF assms(3)] bridge_calls_offer [OF assms(5)] by auto
  from deliver_invents [of "v\<lparr>vh_bridge := bridge_step tpm (vh_bridge v) op\<rparr>" swc n t' svc]
  show ?thesis using assms(2,4) counter by (auto simp: Let_def calls invents_def)
qed

theorem handshake_invents_signals_witness:
  "case demo_vehicle (take 4 demo_ops) of
     Inl e \<Rightarrow> False
   | Inr v \<Rightarrow> \<exists>v'. vehicle_act 1 (Bridge 150 (at_time 150)) v = Inr v' \<and>
       vh_sig_calls v' = [(5, initSignals)]"
proof -
  have "case demo_vehicle (take 4 demo_ops) of
     Inl e \<Rightarrow> False
   | Inr v \<Rightarrow> (case vh_signals v of None \<Rightarrow> False
       | Some swc \<Rightarrow> vx_callback (vw_proxy swc) \<noteq> None \<and> vw_externalCallback swc = Some 5) \<and>
       vh_sig_calls v = [] \<and> sv_subscribers (pf_sd (vh_pf v)) = [(0x1001, [proxy_lambda])] \<and>
       completes_handshake 1 (vh_bridge v) (at_time 150)"
    by code_simp
  then obtain v swc where v: "demo_vehicle (take 4 demo_ops) = Inr v" "vh_signals v = Some swc"
      "vx_callback (vw_proxy swc) \<noteq> None"
    and cb: "vw_externalCallback swc = Some 5" "vh_sig_calls v = []"
    and subs: "sv_subscribers (pf_sd (vh_pf v)) = [(0x1001, [proxy_lambda])]"
    and hs: "completes_handshake 1 (vh_bridge v) (at_time 150)"
    by (auto split: sum.splits option.splits)
  have "subscriptions 1 (pf_sd (vh_pf v))" by (auto simp: subscriptions_def subs um_find_def)
  from handshake_invents_signals [OF v(1) [unfolded demo_vehicle_def] v(2) this _ hs, of 150] v(3)
  show ?thesis by (auto simp: v(1) cb)
qed

text \<open>
  C28: destroying the vehicle signal service leaves its availability lambda behind. A step of the
  bridge is undefined behaviour exactly when it completes a handshake, calls the lambda for at
  least one \<open>Init\<close>, and the component the lambda points to has been destroyed.
\<close>

theorem destroyed_signal_service_is_called:
  assumes "subscriptions n (pf_sd (vh_pf v))"
  shows "vehicle_act tpm (Bridge t' op) v = Inl e \<longleftrightarrow>
    e = UseAfterFree \<and> vh_signals v = None \<and> n \<noteq> 0 \<and> completes_handshake tpm (vh_bridge v) op"
proof -
  let ?b = "bridge_step tpm (vh_bridge v) op"
  let ?v = "v\<lparr>vh_bridge := ?b\<rparr>"
  have act: "vehicle_act tpm (Bridge t' op) v = deliver t' (bridge_calls (vh_bridge v) ?b) ?v"
    by (simp add: Let_def)
  show ?thesis
  proof (cases "vh_signals v = None \<and> completes_handshake tpm (vh_bridge v) op")
    case True
    obtain svc where "bridge_calls (vh_bridge v) ?b = replicate n (proxy_lambda, svc, True)"
      using catalogue_notices [OF assms] bridge_calls_offer True by metis
    with True show ?thesis by (auto simp: act deliver_destroyed simp del: vehicle_act.simps)
  next
    case False
    moreover obtain v' where "deliver t' (bridge_calls (vh_bridge v) ?b) ?v = Inr v'"
      using False deliver_available [of ?v] deliver_unavailable [OF bridge_calls_other] by fastforce
    ultimately show ?thesis by (auto simp: act simp del: vehicle_act.simps)
  qed
qed

theorem destroyed_signal_service_is_called_witness:
  "run (vehicle_step 1) (Inr (vehicle_start 0 calm_mcu (\<lambda>_. 0)))
     [Signals 0 SgInit, Bridge 0 (IbInit (\<lambda>_. 0)), Signals 100 (SgDestroy 7), Bridge 150 (at_time 150)] =
   Inl UseAfterFree"
proof -
  let ?ops = "[Signals 0 SgInit, Bridge 0 (IbInit (\<lambda>_. 0)), Signals 100 (SgDestroy 7)]"
  have "case demo_vehicle ?ops of
     Inl e \<Rightarrow> False
   | Inr v \<Rightarrow> vh_signals v = None \<and> sv_subscribers (pf_sd (vh_pf v)) = [(0x1001, [proxy_lambda])] \<and>
       completes_handshake 1 (vh_bridge v) (at_time 150)"
    by code_simp
  then obtain v where v: "demo_vehicle ?ops = Inr v" "vh_signals v = None"
    and subs: "sv_subscribers (pf_sd (vh_pf v)) = [(0x1001, [proxy_lambda])]"
    and hs: "completes_handshake 1 (vh_bridge v) (at_time 150)"
    by (auto split: sum.splits)
  have "subscriptions 1 (pf_sd (vh_pf v))" by (auto simp: subscriptions_def subs um_find_def)
  from destroyed_signal_service_is_called [OF this, of 1 150 "at_time 150" UseAfterFree] v(2) hs
  have "vehicle_step 1 (demo_vehicle ?ops) (Bridge 150 (at_time 150)) = Inl UseAfterFree"
    by (simp add: v(1) vehicle_step_def del: vehicle_act.simps)
  then show ?thesis by (simp only: demo_vehicle_def run.simps)
qed

section \<open>Starting and stopping in order\<close>

text \<open>
  An order is safe when the monitor is initialised before its first check, the signal service is
  initialised only before the first round of the bridge, and no round of the bridge follows the
  destruction of the signal service. The flags: the monitor is initialised, the bridge has made a
  round, the signal service is gone.
\<close>

type_synonym flags = "bool \<times> bool \<times> bool"

fun flags_step :: "flags \<Rightarrow> vehicle_op \<Rightarrow> flags option" where
  "flags_step (ready, running, gone) (Monitor op) =
     (case op of
        SfInit now \<Rightarrow> Some (True, running, gone)
      | SfCheck now \<Rightarrow> if ready then Some (ready, running, gone) else None
      | _ \<Rightarrow> Some (ready, running, gone))"
| "flags_step (ready, running, gone) (Bridge t op) =
     (case op of
        IbRound t' now \<Rightarrow> if gone then None else Some (ready, True, gone)
      | _ \<Rightarrow> Some (ready, running, gone))"
| "flags_step (ready, running, gone) (Signals t op) =
     (case op of
        SgInit \<Rightarrow> if running then None else Some (ready, running, gone)
      | SgDestroy k \<Rightarrow> Some (ready, running, True)
      | _ \<Rightarrow> Some (ready, running, gone))"

fun orderly_from :: "flags \<Rightarrow> vehicle_op list \<Rightarrow> bool" where
  "orderly_from f [] \<longleftrightarrow> True"
| "orderly_from f (op # ops) \<longleftrightarrow>
     (case flags_step f op of None \<Rightarrow> False | Some f' \<Rightarrow> orderly_from f' ops)"

definition orderly :: "vehicle_op list \<Rightarrow> bool" where
  "orderly ops \<longleftrightarrow> orderly_from (False, False, False) ops"

lemma bridge_step_offers:
  assumes "\<And>t now. op \<noteq> IbRound t now" and "offered (pf_sd (bw_pf (bridge_step tpm w op))) i"
  shows "offered (pf_sd (bw_pf w)) i"
proof (cases op)
  case (IbShutdown k)
  with assms(2) show ?thesis by (simp add: Bridge_Shutdown_def Let_def StopIpcServices_def fold_stop)
next
  case (IbInit now)
  with assms(2) show ?thesis by (simp add: Bridge_Init_pf)
qed (use assms in simp_all)

lemma completes_handshake_round:
  assumes "completes_handshake tpm w op"
  shows "\<exists>t now. op = IbRound t now"
proof (cases op)
  case (IbInit now)
  have "bridge_state (snd (Bridge_Init now w)) = IpcConnectionState.kHandshake"
    by (subst Bridge_Init_eq) (simp add: Let_def)
  with assms show ?thesis by (simp add: IbInit completes_handshake_def)
qed (use assms in \<open>auto simp: completes_handshake_def Bridge_Shutdown_def Let_def SendSomeIpMessage_def
    SendSpiFrame_def SetIpcStateCallback_def SetSpiRxCallback_def SetGpioChangeCallback_def\<close>)

text \<open>What the three flags promise of a state.\<close>

definition in_order :: "flags \<Rightarrow> watch \<Rightarrow> bool" where
  "in_order f s = (case (f, s) of ((ready, running, gone), (l, st, r), alive, n, w) \<Rightarrow>
     (ready \<longrightarrow> r) \<and> (\<not> running \<longrightarrow> \<not> offered (pf_sd (bw_pf w)) 0x1001) \<and> (\<not> gone \<longrightarrow> alive))"

definition in_order_outcome :: "flags \<Rightarrow> watch outcome \<Rightarrow> bool" where
  "in_order_outcome f q = (case q of Inl e \<Rightarrow> False | Inr s \<Rightarrow> in_order f s)"

lemma orderly_bridge:
  assumes "in_order f s" and "flags_step f (Bridge t op) = Some f'"
  shows "in_order_outcome f' (watch_act tpm (Bridge t op) s)"
proof -
  obtain l st r alive n w ready running gone
    where s: "s = ((l, st, r), alive, n, w)" and f: "f = (ready, running, gone)" by (cases s; cases f) auto
  show ?thesis
  proof (cases "\<exists>t now. op = IbRound t now")
    case True
    then obtain t' now where op: "op = IbRound t' now" by blast
    have "\<not> gone" "f' = (ready, True, gone)" using assms(2) by (auto simp: f op split: if_splits)
    with assms(1) show ?thesis by (simp add: s f in_order_def in_order_outcome_def del: bridge_step.simps)
  next
    case False
    then have "\<not> completes_handshake tpm w op" using completes_handshake_round by blast
    moreover have "f' = f" using assms(2) False by (cases op) (simp_all add: f)
    moreover have "\<not> running \<longrightarrow> \<not> offered (pf_sd (bw_pf (bridge_step tpm w op))) 0x1001"
      using assms(1) bridge_step_offers [of op tpm w "0x1001"] False by (auto simp: s f in_order_def)
    ultimately show ?thesis
      using assms(1) by (simp add: s f in_order_def in_order_outcome_def)
  qed
qed

lemma orderly_step:
  assumes "in_order f s" and "flags_step f op = Some f'"
  shows "in_order_outcome f' (watch_act tpm op s)"
proof -
  obtain l st r alive n w ready running gone
    where s: "s = ((l, st, r), alive, n, w)" and f: "f = (ready, running, gone)" by (cases s; cases f) auto
  show ?thesis
  proof (cases op)
    case (Monitor m)
    with assms show ?thesis
      by (cases m) (auto simp: s f in_order_def in_order_outcome_def split: if_splits)
  next
    case (Bridge t b)
    with orderly_bridge assms show ?thesis by simp
  next
    case (Signals t g)
    with assms show ?thesis
      by (cases g) (auto simp: s f in_order_def in_order_outcome_def split: if_splits)
  qed
qed

lemma orderly_run:
  "in_order f s \<Longrightarrow> orderly_from f ops \<Longrightarrow> isl (run (watch_step tpm) (Inr s) ops) = False"
proof (induction ops arbitrary: f s)
  case (Cons op ops)
  then obtain f' where f': "flags_step f op = Some f'" "orderly_from f' ops" by (auto split: option.splits)
  with orderly_step [OF Cons.prems(1) f'(1), of tpm] obtain s' where "watch_act tpm op s = Inr s'" "in_order f' s'"
    by (cases "watch_act tpm op s") (auto simp: in_order_outcome_def)
  with Cons.IH [of f' s'] f'(2) show ?case by (simp add: watch_step_def)
qed simp



section \<open>The network of the bridge\<close>

text \<open>
  The bridge is the only user of the network manager: its one handle is the only one there is.
  Handles are placed at address 0, the one under construction at address 2.
\<close>

definition bridge_handles :: "NetworkHandle option \<Rightarrow> handles" where
  "bridge_handles h = (\<lambda>a. if a = 0 then h else None)"

definition net_inv :: "NetworkHandle option \<Rightarrow> NetworkManagement \<Rightarrow> bool" where
  "net_inv h nm \<longleftrightarrow> world_inv (nm, bridge_handles h) \<and>
     (case h of None \<Rightarrow> True | Some h \<Rightarrow> nh_valid h \<and> nh_networkId h = kEthIPC)"

lemma bridge_handles_simps [simp]:
  "bridge_handles h 2 = None" "bridge_handles h 0 = h" "dom (bridge_handles h) = (if h = None then {} else {0})"
  "(bridge_handles h)(0 := None) = Map.empty"
  by (auto simp: bridge_handles_def split: if_splits)

lemma handle_world_init:
  assumes "world_inv (nm, bridge_handles h)"
  shows "world_inv (init_networks h nm, bridge_handles (Some (init_handle nm)))"
proof -
  let ?nm = "snd (Nm_Initialize nm)" and ?new = "init_handle nm"
  let ?nm' = "fst (snd (NetworkHandle_ctor kEthIPC ?nm))"
  have c: "NetworkHandle_ctor kEthIPC ?nm = (?new, ?nm', snd (snd (NetworkHandle_ctor kEthIPC ?nm)))"
    by (simp add: init_handle_def)
  have "world_inv (?nm, bridge_handles h)"
    using assms by (simp add: world_inv_def balanced_Initialize)
  from world_inv_construct [OF this _ _ c, of 2] have made: "world_inv (?nm', (bridge_handles h)(2 \<mapsto> ?new))"
    by (cases h) simp_all
  have alone: "world_inv (init_networks h nm, [2 \<mapsto> ?new])"
  proof (cases h)
    case None
    with made show ?thesis by (simp add: init_networks_def bridge_handles_def)
  next
    case (Some old)
    have "((bridge_handles h)(2 \<mapsto> ?new)) 0 = Some old" by (simp add: Some)
    moreover have "NetworkHandle_dtor old ?nm' = (init_networks h nm, snd (NetworkHandle_dtor old ?nm'))"
      by (simp add: init_networks_def Some)
    ultimately have "world_inv (init_networks h nm, ((bridge_handles h)(2 \<mapsto> ?new))(0 := None))"
      by (rule world_inv_destroy [OF made])
    moreover have "((bridge_handles h)(2 \<mapsto> ?new))(0 := None) = [2 \<mapsto> ?new]"
      by (auto simp: bridge_handles_def fun_eq_iff)
    ultimately show ?thesis by simp
  qed
  text \<open>Moving the handle from address 2 to address 0 changes nothing else.\<close>
  have "world_inv (init_networks h nm, [2 \<mapsto> ?new, 2 \<mapsto> ?new\<lparr>nh_valid := False\<rparr>, 0 \<mapsto> ?new])"
    using world_inv_transfer [OF alone, of 2 ?new 0] by (cases ?new) (simp add: NetworkHandle_move_def)
  from world_inv_destroy [OF this, of 2 "?new\<lparr>nh_valid := False\<rparr>" "init_networks h nm" "[]"]
  have "world_inv (init_networks h nm, ([2 \<mapsto> ?new\<lparr>nh_valid := False\<rparr>, 0 \<mapsto> ?new])(2 := None))"
    by (simp add: NetworkHandle_dtor_def)
  moreover have "([2 \<mapsto> ?new\<lparr>nh_valid := False\<rparr>, 0 \<mapsto> ?new])(2 := None) = bridge_handles (Some ?new)"
    by (auto simp: bridge_handles_def fun_eq_iff)
  ultimately show ?thesis by simp
qed

lemma bridge_step_net:
  assumes "net_inv (ib_networkHandle (bw_ib w)) (pf_nm (bw_pf w))"
  shows "net_inv (ib_networkHandle (bw_ib (bridge_step tpm w op))) (pf_nm (bw_pf (bridge_step tpm w op)))"
proof (cases op)
  case (IbRound t now)
  with assms show ?thesis
    by (cases "bridge_state w")
      (simp_all add: Run_round_def HandleHandshake_def HandleNormalOperation_def HandleError_def Let_def
        SetGpioSignal_def)
next
  case (IbInit now)
  have "ib_networkHandle (bw_ib (snd (Bridge_Init now w))) = Some (init_handle (pf_nm (bw_pf w)))"
    by (subst Bridge_Init_eq) (simp add: Let_def)
  moreover have "nh_networkId (init_handle nm) = kEthIPC" for nm by (simp add: init_handle_def ctor_unfold)
  ultimately show ?thesis
    using assms handle_world_init by (simp add: IbInit Bridge_Init_pf net_inv_def init_handle_valid)
next
  case (IbShutdown k)
  show ?thesis
  proof (cases "ib_networkHandle (bw_ib w)")
    case None
    with assms show ?thesis by (simp add: IbShutdown Bridge_Shutdown_def Let_def)
  next
    case (Some h)
    have "world_inv (fst (NetworkHandle_dtor h (pf_nm (bw_pf w))), (bridge_handles (Some h))(0 := None))"
      using assms world_inv_destroy [of "pf_nm (bw_pf w)" "bridge_handles (Some h)" 0 h
          "fst (NetworkHandle_dtor h (pf_nm (bw_pf w)))" "snd (NetworkHandle_dtor h (pf_nm (bw_pf w)))"]
      by (simp add: net_inv_def Some del: bridge_handles_simps(4))
    moreover have "bridge_handles None = Map.empty" by (simp add: bridge_handles_def)
    ultimately show ?thesis by (simp add: IbShutdown Bridge_Shutdown_def Let_def Some net_inv_def)
  qed
qed (use assms in \<open>simp_all add: SetGpioSignal_def Let_def SendSomeIpMessage_def SendSpiFrame_def
    SetIpcStateCallback_def SetSpiRxCallback_def SetGpioChangeCallback_def\<close>)

lemma bridge_run_net:
  "net_inv (ib_networkHandle (bw_ib w)) (pf_nm (bw_pf w)) \<Longrightarrow>
   net_inv (ib_networkHandle (bw_ib (run (bridge_step tpm) w ops))) (pf_nm (bw_pf (run (bridge_step tpm) w ops)))"
  by (induction ops arbitrary: w) (simp_all add: bridge_step_net del: bridge_step.simps)

fun bridge_ops :: "vehicle_op list \<Rightarrow> bridge_op list" where
  "bridge_ops [] = []"
| "bridge_ops (Bridge t op # ops) = op # bridge_ops ops"
| "bridge_ops (op # ops) = bridge_ops ops"

definition watch_bridge :: "watch \<Rightarrow> bridge_world" where
  "watch_bridge s = snd (snd (snd s))"

lemma bridge_ops_Cons: "bridge_ops (op # ops) = bridge_ops [op] @ bridge_ops ops"
  by (cases op) simp_all

lemma watch_act_bridge:
  assumes "watch_act tpm op s = Inr s'"
  shows "watch_bridge s' = run (bridge_step tpm) (watch_bridge s) (bridge_ops [op])"
proof -
  obtain ms alive n w where s: "s = (ms, alive, n, w)" by (cases s)
  show ?thesis
  proof (cases op)
    case (Monitor m)
    with assms show ?thesis by (cases "spec_step (Inr ms) m") (auto simp: s watch_bridge_def)
  next
    case (Signals t g)
    with assms show ?thesis by (cases g) (auto simp: s watch_bridge_def split: if_splits)
  qed (use assms in \<open>auto simp: s watch_bridge_def split: if_splits\<close>)
qed

lemma watch_run_bridge:
  "run (watch_step tpm) (Inr s) ops = Inr s' \<Longrightarrow>
   watch_bridge s' = run (bridge_step tpm) (watch_bridge s) (bridge_ops ops)"
proof (induction ops arbitrary: s)
  case (Cons op ops)
  obtain s1 where s1: "watch_act tpm op s = Inr s1" "run (watch_step tpm) (Inr s1) ops = Inr s'"
    using Cons.prems by (cases "watch_act tpm op s") (simp_all add: watch_step_def [of _ _ op])
  with Cons.IH [OF s1(2)] watch_act_bridge [OF s1(1)] show ?case
    by (subst bridge_ops_Cons) (simp only: run_append)
qed simp

text \<open>Whether the last of the bridge's \<open>Init\<close> and \<open>Shutdown\<close> was an \<open>Init\<close>.\<close>

fun bridge_up :: "bool \<Rightarrow> bridge_op list \<Rightarrow> bool" where
  "bridge_up b [] = b"
| "bridge_up b (IbInit now # ops) = bridge_up True ops"
| "bridge_up b (IbShutdown k # ops) = bridge_up False ops"
| "bridge_up b (_ # ops) = bridge_up b ops"

lemma bridge_up_handle:
  "ib_networkHandle (bw_ib w) \<noteq> None \<longleftrightarrow> b \<Longrightarrow>
   ib_networkHandle (bw_ib (run (bridge_step tpm) w ops)) \<noteq> None \<longleftrightarrow> bridge_up b ops"
proof (induction ops arbitrary: w b)
  case (Cons op ops)
  have h: "ib_networkHandle (bw_ib (bridge_step tpm w op)) \<noteq> None \<longleftrightarrow> bridge_up b [op]"
  proof (cases op)
    case (IbInit now)
    then show ?thesis by simp (subst Bridge_Init_eq, simp add: Let_def)
  next
    case (IbRound t now)
    with Cons.prems show ?thesis
      by (cases "bridge_state w")
        (simp_all add: Run_round_def HandleHandshake_def HandleNormalOperation_def HandleError_def Let_def
          SetGpioSignal_def)
  qed (use Cons.prems in \<open>simp_all add: SetGpioSignal_def Let_def SendSomeIpMessage_def SendSpiFrame_def
      SetIpcStateCallback_def SetSpiRxCallback_def SetGpioChangeCallback_def Bridge_Shutdown_def\<close>)
  have "bridge_up b (op # ops) = bridge_up (bridge_up b [op]) ops" by (cases op) simp_all
  with Cons.IH [OF h] show ?case by simp
qed simp

text \<open>
  C16: the Ethernet to the MCU is awake exactly while the bridge is up. In every state the vehicle
  can reach, the active networks are the bridge's if the last of its calls of \<open>Init\<close> and
  \<open>Shutdown\<close> was an \<open>Init\<close>, and none otherwise: repeated calls neither leak a request nor lose one.
\<close>

theorem network_follows_bridge:
  assumes "run (vehicle_step tpm) (Inr (vehicle_start t m now)) ops = Inr v"
  shows "set (GetActiveNetworks (pf_nm (vh_pf v))) = (if bridge_up False (bridge_ops ops) then {kEthIPC} else {})"
proof -
  let ?w = "run (bridge_step tpm) (bridge_start now) (bridge_ops ops)"
  let ?h = "ib_networkHandle (bw_ib ?w)"
  obtain s where s: "run (watch_step tpm) (Inr (watch_start m now)) ops = Inr s" "simulates v s"
    using vehicle_run_watch [OF assms] by blast
  have "watch_bridge s = ?w" using watch_run_bridge [OF s(1)] by (simp add: watch_start_def watch_bridge_def)
  then have nm: "pf_nm (vh_pf v) = pf_nm (bw_pf ?w)"
    using s(2) by (cases s) (simp add: simulates_def watch_bridge_def bridge_view_eq)
  have "net_inv None NetworkManagement_new"
    by (simp add: net_inv_def world_inv_def balanced_def nm_ok_def nm_count_def bridge_handles_def
        NetworkManagement_new_def um_empty_def ran_def)
  then have inv: "net_inv ?h (pf_nm (bw_pf ?w))"
    using bridge_run_net [of "bridge_start now"] by (simp add: bridge_start_def IPCBridge_ctor_def Platform_start_def)
  then have "balanced nm_ok nm_count (pf_nm (bw_pf ?w)) (held (bridge_handles ?h))"
    by (simp add: net_inv_def world_inv_def)
  then have "set (GetActiveNetworks (pf_nm (bw_pf ?w))) = ran (held (bridge_handles ?h))"
    using active_held by blast
  moreover have "ran (held (bridge_handles ?h)) = (if ?h = None then {} else {kEthIPC})"
    using inv by (auto simp: net_inv_def held_def ran_def bridge_handles_def split: option.splits if_splits)
  moreover have "?h \<noteq> None \<longleftrightarrow> bridge_up False (bridge_ops ops)"
    by (rule bridge_up_handle) (simp add: bridge_start_def IPCBridge_ctor_def)
  ultimately show ?thesis by (cases ?h) (simp_all add: nm)
qed

theorem network_follows_bridge_witness:
  "case demo_vehicle demo_ops of
     Inl e \<Rightarrow> False | Inr v \<Rightarrow> set (GetActiveNetworks (pf_nm (vh_pf v))) = {kEthIPC}"
proof -
  have "case demo_vehicle demo_ops of Inl e \<Rightarrow> False | Inr v \<Rightarrow> True" by code_simp
  then obtain v where v: "demo_vehicle demo_ops = Inr v" by (auto split: sum.splits)
  have "bridge_up False (bridge_ops demo_ops)" by code_simp
  with network_follows_bridge [OF v [unfolded demo_vehicle_def]] show ?thesis by (simp add: v)
qed

end
