(* ===== verification/LockOrder.thy ===== *)
theory LockOrder
  imports VehicleSignalService
begin

text \<open>
  Two threads and two mutexes: \<open>VehicleSignalServiceProxy::SubscribeVehicleSignals\<close>
  (VehicleSignalService.cpp), called by the thread that initialises the vehicle signal service,
  and \<open>OfferIpcServices\<close> (IPCBridgeService.cpp), with which the thread of the bridge calls
  \<open>SomeIpServiceDiscovery::OfferService\<close> (someip_binding.cpp) for every service of the catalogue, 0x1001
  first. The first locks the proxy and then, in \<open>SubscribeServiceAvailability\<close>, service discovery; an
  offer locks service discovery and then, in every lambda it calls, the proxy. The other theories take
  each call as one step; here every acquisition and release of a mutex is a step of its own.
\<close>

section \<open>The threads\<close>

datatype thread = Subscriber | Offerer

text \<open>
  Where \<open>SubscribeVehicleSignals\<close> is: about to lock the proxy; about to lock service discovery;
  about to lock the proxy again, in the lambda, because the service is on offer; about to leave
  service discovery; about to leave the proxy; returned.
\<close>

datatype sub_pc = SubEntry | SubHoldsProxy | SubNotifies | SubLeavesSd | SubLeavesProxy | SubDone

text \<open>
  Where \<open>OfferIpcServices\<close> is: about to lock service discovery for the service with that number in the
  catalogue; in the offer of the first service, about to call the lambda that many more times, or
  inside the lambda; in the offer of a later service, which nobody has subscribed; returned.
\<close>

datatype off_pc = OffEntry nat | OffNotifies nat | OffInLambda nat | OffLater nat | OffDone

definition next_offer :: "nat \<Rightarrow> off_pc" where
  "next_offer j = (if Suc j < length kServiceCatalog then OffEntry (Suc j) else OffDone)"

record locks =
  lk_proxy :: "thread option"
  lk_sd :: "thread option"
  lk_offered :: bool
  lk_subs :: nat
  lk_sub :: sub_pc
  lk_off :: off_pc

text \<open>The lambda is subscribed \<open>n\<close> times already, and the service is not on offer.\<close>

definition locks_start :: "nat \<Rightarrow> locks" where
  "locks_start n = \<lparr>lk_proxy = None, lk_sd = None, lk_offered = False, lk_subs = n,
     lk_sub = SubEntry, lk_off = OffEntry 0\<rparr>"

text \<open>
  The steps of \<open>SubscribeVehicleSignals\<close>, with the \<open>SubscribeServiceAvailability\<close> it calls, and of
  \<open>OfferIpcServices\<close>, with the lambdas that \<open>OfferService\<close> calls.
\<close>

inductive subscribe_step :: "locks \<Rightarrow> locks \<Rightarrow> bool" where
  sub_enter: "lk_sub s = SubEntry \<Longrightarrow> lk_proxy s = None \<Longrightarrow>
     subscribe_step s (s\<lparr>lk_proxy := Some Subscriber, lk_sub := SubHoldsProxy\<rparr>)"
| sub_register: "lk_sub s = SubHoldsProxy \<Longrightarrow> lk_sd s = None \<Longrightarrow>
     subscribe_step s (s\<lparr>lk_sd := Some Subscriber, lk_subs := Suc (lk_subs s),
       lk_sub := (if lk_offered s then SubNotifies else SubLeavesSd)\<rparr>)"
| sub_notify: "lk_sub s = SubNotifies \<Longrightarrow> lk_proxy s = None \<Longrightarrow>
     subscribe_step s (s\<lparr>lk_sub := SubLeavesSd\<rparr>)"
| sub_leave_sd: "lk_sub s = SubLeavesSd \<Longrightarrow> subscribe_step s (s\<lparr>lk_sd := None, lk_sub := SubLeavesProxy\<rparr>)"
| sub_leave_proxy: "lk_sub s = SubLeavesProxy \<Longrightarrow>
     subscribe_step s (s\<lparr>lk_proxy := None, lk_sub := SubDone\<rparr>)"

inductive offer_step :: "locks \<Rightarrow> locks \<Rightarrow> bool" where
  off_enter: "lk_off s = OffEntry 0 \<Longrightarrow> lk_sd s = None \<Longrightarrow>
     offer_step s (s\<lparr>lk_sd := Some Offerer, lk_offered := True, lk_off := OffNotifies (lk_subs s)\<rparr>)"
| off_lambda: "lk_off s = OffNotifies (Suc k) \<Longrightarrow> lk_proxy s = None \<Longrightarrow>
     offer_step s (s\<lparr>lk_proxy := Some Offerer, lk_off := OffInLambda k\<rparr>)"
| off_lambda_end: "lk_off s = OffInLambda k \<Longrightarrow> offer_step s (s\<lparr>lk_proxy := None, lk_off := OffNotifies k\<rparr>)"
| off_leave: "lk_off s = OffNotifies 0 \<Longrightarrow> offer_step s (s\<lparr>lk_sd := None, lk_off := next_offer 0\<rparr>)"
| off_later: "lk_off s = OffEntry (Suc j) \<Longrightarrow> lk_sd s = None \<Longrightarrow>
     offer_step s (s\<lparr>lk_sd := Some Offerer, lk_off := OffLater (Suc j)\<rparr>)"
| off_later_leave: "lk_off s = OffLater j \<Longrightarrow> offer_step s (s\<lparr>lk_sd := None, lk_off := next_offer j\<rparr>)"

definition lock_step :: "locks \<Rightarrow> locks \<Rightarrow> bool" where
  "lock_step s t \<longleftrightarrow> subscribe_step s t \<or> offer_step s t"

lemma lock_stepI: "subscribe_step s t \<Longrightarrow> lock_step s t" "offer_step s t \<Longrightarrow> lock_step s t"
  by (simp_all add: lock_step_def)

lemma lock_step_cases:
  assumes "lock_step s t"
  obtains "subscribe_step s t" | "offer_step s t"
  using assms by (auto simp: lock_step_def)

definition stuck :: "locks \<Rightarrow> bool" where
  "stuck s \<longleftrightarrow> (\<forall>t. \<not> lock_step s t)"

definition sub_enabled :: "locks \<Rightarrow> bool" where
  "sub_enabled s =
     (case lk_sub s of
        SubEntry \<Rightarrow> lk_proxy s = None | SubHoldsProxy \<Rightarrow> lk_sd s = None | SubNotifies \<Rightarrow> lk_proxy s = None
      | SubLeavesSd \<Rightarrow> True | SubLeavesProxy \<Rightarrow> True | SubDone \<Rightarrow> False)"

definition off_enabled :: "locks \<Rightarrow> bool" where
  "off_enabled s =
     (case lk_off s of
        OffEntry j \<Rightarrow> lk_sd s = None | OffNotifies k \<Rightarrow> k = 0 \<or> lk_proxy s = None
      | OffInLambda k \<Rightarrow> True | OffLater j \<Rightarrow> True | OffDone \<Rightarrow> False)"

lemma stuck_iff: "stuck s \<longleftrightarrow> \<not> sub_enabled s \<and> \<not> off_enabled s"
proof -
  have "sub_enabled s" if "subscribe_step s t" for t
    using that by cases (simp_all add: sub_enabled_def)
  moreover have "off_enabled s" if "offer_step s t" for t
    using that by cases (simp_all add: off_enabled_def)
  moreover have "\<exists>t. subscribe_step s t" if "sub_enabled s"
    using that by (cases "lk_sub s") (auto simp: sub_enabled_def intro: subscribe_step.intros)
  moreover have "\<exists>t. offer_step s t" if "off_enabled s"
  proof (cases "lk_off s")
    case (OffNotifies k)
    with that show ?thesis by (cases k) (auto simp: off_enabled_def intro: offer_step.intros)
  next
    case (OffEntry j)
    with that show ?thesis by (cases j) (auto simp: off_enabled_def intro: offer_step.intros)
  qed (use that in \<open>auto simp: off_enabled_def intro: offer_step.intros\<close>)
  ultimately show ?thesis by (auto simp: stuck_def lock_step_def)
qed

section \<open>Who holds what\<close>

fun offering :: "off_pc \<Rightarrow> nat option" where
  "offering (OffEntry j) = Some j"
| "offering (OffNotifies k) = Some 0"
| "offering (OffInLambda k) = Some 0"
| "offering (OffLater j) = Some j"
| "offering OffDone = None"

fun holds_sd :: "off_pc \<Rightarrow> bool" where
  "holds_sd (OffEntry j) \<longleftrightarrow> False"
| "holds_sd OffDone \<longleftrightarrow> False"
| "holds_sd _ \<longleftrightarrow> True"

definition owners :: "locks \<Rightarrow> bool" where
  "owners s \<longleftrightarrow>
     (lk_proxy s = Some Subscriber \<longleftrightarrow> lk_sub s \<notin> {SubEntry, SubDone}) \<and>
     (lk_proxy s = Some Offerer \<longleftrightarrow> (\<exists>k. lk_off s = OffInLambda k)) \<and>
     (lk_sd s = Some Subscriber \<longleftrightarrow> lk_sub s \<in> {SubNotifies, SubLeavesSd}) \<and>
     (lk_sd s = Some Offerer \<longleftrightarrow> holds_sd (lk_off s)) \<and>
     (lk_offered s \<longleftrightarrow> lk_off s \<noteq> OffEntry 0) \<and> (lk_sub s = SubNotifies \<longrightarrow> lk_offered s) \<and>
     (case offering (lk_off s) of None \<Rightarrow> True | Some j \<Rightarrow> j < length kServiceCatalog)"

text \<open>
  Without earlier subscriptions, the offering thread has a lambda to call only after the
  subscribing thread has left service discovery.
\<close>

fun calls_left :: "off_pc \<Rightarrow> bool" where
  "calls_left (OffNotifies k) \<longleftrightarrow> k \<noteq> 0"
| "calls_left (OffInLambda k) \<longleftrightarrow> True"
| "calls_left _ \<longleftrightarrow> False"

definition fresh :: "locks \<Rightarrow> bool" where
  "fresh s \<longleftrightarrow> owners s \<and> (lk_sub s \<in> {SubEntry, SubHoldsProxy} \<longrightarrow> lk_subs s = 0) \<and>
     (calls_left (lk_off s) \<longrightarrow> lk_sub s \<in> {SubLeavesProxy, SubDone})"

lemma next_offer_simps [simp]:
  "\<not> holds_sd (next_offer j)" "next_offer j \<noteq> OffEntry 0" "\<not> calls_left (next_offer j)" "next_offer j \<noteq> OffInLambda k"
  "case offering (next_offer j) of None \<Rightarrow> True | Some j \<Rightarrow> j < length kServiceCatalog"
  by (simp_all add: next_offer_def)

lemma owners_step: "owners s \<Longrightarrow> lock_step s t \<Longrightarrow> owners t"
  by (erule lock_step_cases; erule subscribe_step.cases offer_step.cases)
    (auto simp: owners_def split: if_splits)

lemma fresh_step:
  assumes "fresh s" and "lock_step s t"
  shows "fresh t"
proof -
  have o: "owners t" using assms owners_step [of s t] by (simp add: fresh_def)
  have subs: "lk_sub s \<in> {SubEntry, SubHoldsProxy} \<Longrightarrow> lk_subs s = 0"
    and calls: "calls_left (lk_off s) \<Longrightarrow> lk_sub s \<in> {SubLeavesProxy, SubDone}"
    and sd: "lk_sub s \<in> {SubNotifies, SubLeavesSd} \<Longrightarrow> lk_sd s \<noteq> None"
    using assms(1) by (auto simp: fresh_def owners_def)
  from assms(2) show ?thesis
  proof (cases rule: lock_step_cases)
    case 1
    then show ?thesis by cases (use o subs calls in \<open>auto simp: fresh_def\<close>)
  next
    case 2
    then show ?thesis
    proof cases
      case off_enter
      then show ?thesis using o subs sd by (cases "lk_sub s") (auto simp: fresh_def)
    qed (use o subs calls in \<open>auto simp: fresh_def\<close>)
  qed
qed

section \<open>Deadlock\<close>

lemma owners_start: "owners (locks_start n)"
  by (simp add: owners_def locks_start_def kServiceCatalog_def)

lemma fresh_start: "fresh (locks_start 0)"
  by (simp add: fresh_def owners_start) (simp add: locks_start_def)

abbreviation lock_reachable :: "nat \<Rightarrow> locks \<Rightarrow> bool" where
  "lock_reachable n \<equiv> reachable (\<lambda>s. s = locks_start n) lock_step"

interpretation locking: invariant_rel "\<lambda>s. s = locks_start n" lock_step owners for n
  by unfold_locales (auto intro: owners_start owners_step)

interpretation fresh: invariant_rel "\<lambda>s. s = locks_start 0" lock_step fresh
  by unfold_locales (auto intro: fresh_start fresh_step)

text \<open>Nobody blocks the first offer but a subscriber that waits inside it.\<close>

lemma stuck_first:
  assumes "owners s" and "stuck s" and "offering (lk_off s) = Some 0"
  shows "calls_left (lk_off s) \<and> lk_sub s \<notin> {SubLeavesProxy, SubDone}"
proof -
  have no: "\<not> sub_enabled s" "\<not> off_enabled s" using assms(2) by (simp_all add: stuck_iff)
  have "lk_off s \<noteq> OffEntry 0"
  proof
    assume e: "lk_off s = OffEntry 0"
    then obtain t where "lk_sd s = Some t" using no(2) by (auto simp: off_enabled_def)
    with assms(1) e no(1) show False by (cases t) (auto simp: owners_def sub_enabled_def)
  qed
  with assms(3) no(2) obtain k where k: "lk_off s = OffNotifies (Suc k)" "lk_proxy s \<noteq> None"
    by (cases "lk_off s") (auto simp: off_enabled_def gr0_conv_Suc)
  then have "lk_proxy s = Some Subscriber"
    using assms(1) by (cases "the (lk_proxy s)") (auto simp: owners_def)
  with k assms(1) no(1) show ?thesis by (auto simp: owners_def sub_enabled_def)
qed

text \<open>The offers run one after another when the other thread has not begun.\<close>

lemma moves: "lock_reachable n s \<Longrightarrow> offer_step s t \<Longrightarrow> lock_reachable n t"
  by (blast intro: reachable.move lock_stepI)

definition offering_alone :: "nat \<Rightarrow> off_pc \<Rightarrow> thread option \<Rightarrow> locks" where
  "offering_alone n pc sd = (locks_start n)\<lparr>lk_sd := sd, lk_offered := True, lk_off := pc\<rparr>"

lemma lambdas_run:
  assumes "lock_reachable n (offering_alone n (OffNotifies k) (Some Offerer))"
  shows "lock_reachable n (offering_alone n (OffNotifies 0) (Some Offerer))"
  using assms
proof (induction k)
  case (Suc k)
  let ?s = "offering_alone n (OffNotifies (Suc k)) (Some Offerer)"
  let ?t = "?s\<lparr>lk_proxy := Some Offerer, lk_off := OffInLambda k\<rparr>"
  have "offer_step ?s ?t" by (rule off_lambda) (simp_all add: offering_alone_def locks_start_def)
  moreover have "offer_step ?t (?t\<lparr>lk_proxy := None, lk_off := OffNotifies k\<rparr>)"
    by (rule off_lambda_end) simp
  ultimately have "lock_reachable n (?t\<lparr>lk_proxy := None, lk_off := OffNotifies k\<rparr>)"
    using Suc.prems moves by blast
  then show ?case by (intro Suc.IH) (simp add: offering_alone_def locks_start_def)
qed simp

lemma offers_run: "Suc j < length kServiceCatalog \<Longrightarrow> lock_reachable n (offering_alone n (OffEntry (Suc j)) None)"
proof (induction j)
  case 0
  have "lock_reachable n (locks_start n)" by (rule reachable.start) simp
  moreover have "offer_step (locks_start n) (offering_alone n (OffNotifies n) (Some Offerer))"
    using off_enter [of "locks_start n"] by (simp add: offering_alone_def locks_start_def)
  ultimately have "lock_reachable n (offering_alone n (OffNotifies 0) (Some Offerer))"
    using moves lambdas_run by blast
  moreover have "offer_step (offering_alone n (OffNotifies 0) (Some Offerer)) (offering_alone n (OffEntry (Suc 0)) None)"
    using off_leave [of "offering_alone n (OffNotifies 0) (Some Offerer)"] 0
    by (simp add: offering_alone_def next_offer_def locks_start_def)
  ultimately show ?case by (rule moves)
next
  case (Suc j)
  then have "lock_reachable n (offering_alone n (OffEntry (Suc j)) None)" by simp
  moreover have "offer_step (offering_alone n (OffEntry (Suc j)) None) (offering_alone n (OffLater (Suc j)) (Some Offerer))"
    using off_later [of "offering_alone n (OffEntry (Suc j)) None"] by (simp add: offering_alone_def locks_start_def)
  moreover have "offer_step (offering_alone n (OffLater (Suc j)) (Some Offerer)) (offering_alone n (OffEntry (Suc (Suc j))) None)"
    using off_later_leave [of "offering_alone n (OffLater (Suc j)) (Some Offerer)"] Suc.prems
    by (simp add: offering_alone_def next_offer_def locks_start_def)
  ultimately show ?case using moves by blast
qed


end
