(* ===== verification/TimeBaseRaces.thy ===== *)
theory TimeBaseRaces
  imports Tsync
begin

text \<open>
  The operations of src/ara/tsync/tsync.cpp on one time base, one atomic access at a time. The
  three fields of \<open>TimeBaseState\<close> are atomics and its mutex is locked nowhere, so the loads and
  stores of two threads interleave freely; theory \<open>Tsync\<close> takes each operation as one step. The
  two loads in \<open>ApplyCorrection\<close> are taken in the order written, which C++ leaves open.
\<close>

section \<open>Atomic accesses\<close>

text \<open>
  Where a thread is: in \<open>ApplyCorrection\<close> before the load of the seconds, the load of the
  nanoseconds, the store of the seconds and the store of the nanoseconds; in \<open>SetTime\<close> before its
  three stores; returned; or faulted on signed overflow.
\<close>

datatype tb_thread =
    LoadSeconds int | LoadNanos int int | StoreSeconds int | StoreNanos int
  | SetSeconds TimePoint | SetNanos TimePoint | SetSynchronized
  | Returned | Overflowed

fun tb_access :: "TimeBaseState \<Rightarrow> tb_thread \<Rightarrow> TimeBaseState \<times> tb_thread" where
  "tb_access tb (LoadSeconds c) = (tb, LoadNanos c (tb_epochSeconds tb))"
| "tb_access tb (LoadNanos c s) =
     (case obind (total_ns s (tb_nanoSeconds tb)) (\<lambda>curNs. ck64 (curNs + c)) of
        Inl _ \<Rightarrow> (tb, Overflowed) | Inr curNs \<Rightarrow> (tb, StoreSeconds curNs))"
| "tb_access tb (StoreSeconds curNs) = (tb\<lparr>tb_epochSeconds := curNs sdiv G9\<rparr>, StoreNanos curNs)"
| "tb_access tb (StoreNanos curNs) = (tb\<lparr>tb_nanoSeconds := word_of_int (curNs smod G9)\<rparr>, Returned)"
| "tb_access tb (SetSeconds tp) = (tb\<lparr>tb_epochSeconds := tp_seconds tp\<rparr>, SetNanos tp)"
| "tb_access tb (SetNanos tp) = (tb\<lparr>tb_nanoSeconds := tp_nanoseconds tp\<rparr>, SetSynchronized)"
| "tb_access tb SetSynchronized = (tb\<lparr>tb_syncStatus := SyncStatus.kSynchronized\<rparr>, Returned)"
| "tb_access tb Returned = (tb, Returned)"
| "tb_access tb Overflowed = (tb, Overflowed)"

text \<open>A schedule is the list of the threads that make the next access.\<close>

definition race_step :: "TimeBaseState \<times> tb_thread list \<Rightarrow> nat \<Rightarrow> TimeBaseState \<times> tb_thread list" where
  "race_step s i =
     (case s of (tb, ts) \<Rightarrow>
        if i < length ts then (case tb_access tb (ts ! i) of (tb, t) \<Rightarrow> (tb, ts[i := t])) else (tb, ts))"

definition base_time :: "TimeBaseState \<Rightarrow> TimePoint" where
  "base_time tb = TimePoint (tb_epochSeconds tb) (tb_nanoSeconds tb)"

section \<open>Alone\<close>

text \<open>A thread that is not interrupted does what the operation does in one step.\<close>

lemma correction_alone:
  assumes "length tbs = 4" and "ApplyCorrection tid c tbs = Inr tbs'"
  shows "run race_step (GetTimeBaseState tid tbs, [LoadSeconds c]) [0, 0, 0, 0] =
    (GetTimeBaseState tid tbs', [Returned])"
  using assms tb_index_less [of tid]
  by (auto simp: race_step_def ApplyCorrection_def Let_def obind_eq_Inr GetTimeBaseState_def)

lemma SetTime_alone:
  assumes "length tbs = 4"
  shows "run race_step (GetTimeBaseState tid tbs, [SetSeconds tp]) [0, 0, 0] =
    (GetTimeBaseState tid (SetTime tid tp tbs), [Returned])"
  using assms tb_index_less [of tid]
  by (simp add: race_step_def SetTime_def GetTimeBaseState_def)

section \<open>Races\<close>

lemma correction_loads:
  assumes "in_range (base_time tb)" and "int64_ok (in_ns (base_time tb) + c)"
  shows "tb_access tb (LoadNanos c (tb_epochSeconds tb)) = (tb, StoreSeconds (in_ns (base_time tb) + c))"
  using assms by (simp add: base_time_def in_range_def in_ns_def total_ns_def ck64_def)

text \<open>
  C35: concurrent corrections of one time base get lost. Two threads correct it by \<open>c\<close> and \<open>d\<close>; when
  the first is interrupted between its loads and its stores, both calls return and the time base
  has moved by \<open>c\<close> alone, for any corrections that do not go before the epoch.
\<close>

theorem concurrent_correction_lost:
  assumes "in_range (base_time tb)" and "int64_ok (in_ns (base_time tb) + c)" and "int64_ok (in_ns (base_time tb) + d)"
    and "0 \<le> in_ns (base_time tb) + c"
  shows "let (tb', ts) = run race_step (tb, [LoadSeconds c, LoadSeconds d]) [0, 0, 1, 1, 1, 1, 0, 0]
    in ts = [Returned, Returned] \<and> in_ns (base_time tb') = in_ns (base_time tb) + c"
proof -
  let ?n = "in_ns (base_time tb) + c"
  obtain n m where n: "n = ?n" and m: "m = in_ns (base_time tb) + d" by blast
  have loads: "tb_access tb (LoadNanos c (tb_epochSeconds tb)) = (tb, StoreSeconds n)"
    "tb_access tb (LoadNanos d (tb_epochSeconds tb)) = (tb, StoreSeconds m)"
    using correction_loads [OF assms(1,2)] correction_loads [OF assms(1,3)] by (simp_all only: n m)
  have final: "in_ns (TimePoint (n sdiv G9) (word_of_int (n smod G9))) = n"
    using split_ns_nonneg(3) [OF assms(4)] by (simp add: split_ns_def n)
  show ?thesis
    by (simp add: race_step_def loads final base_time_def [of "tb_nanoSeconds_update _ _"] flip: n
        del: tb_access.simps(2))
qed

theorem concurrent_correction_lost_witness:
  "let tb = \<lparr>tb_epochSeconds = 5, tb_nanoSeconds = 0, tb_syncStatus = SyncStatus.kSyncing\<rparr>;
       (tb', ts) = run race_step (tb, [LoadSeconds 7, LoadSeconds (- 3000000000)]) [0, 0, 1, 1, 1, 1, 0, 0]
   in in_ns (base_time tb') = 5000000007"
proof -
  let ?tb = "\<lparr>tb_epochSeconds = 5, tb_nanoSeconds = 0, tb_syncStatus = SyncStatus.kSyncing\<rparr>"
  have "in_range (base_time ?tb)" "in_ns (base_time ?tb) = 5000000000" by code_simp+
  with concurrent_correction_lost [of ?tb 7 "- 3000000000"] show ?thesis
    by (simp add: int64_ok_def case_prod_beta Let_def)
qed

text \<open>
  A correction that is interrupted by \<open>SetTime\<close> between its two stores leaves the seconds of the new
  time with the nanoseconds of the corrected old one.
\<close>

lemma set_time_torn:
  assumes "0 \<le> n"
  shows "let (tb', ts) = run race_step (tb, [StoreSeconds n, SetSeconds tp]) [0, 1, 1, 1, 0]
    in ts = [Returned, Returned] \<and>
      base_time tb' = TimePoint (tp_seconds tp) (word_of_int (n mod G9))"
  using assms by (simp add: race_step_def base_time_def smod_nonneg)

end
