(* ===== verification/Callbacks.thy ===== *)
theory Callbacks
  imports Nm Phm Sm Iam ServiceDiscovery
begin

text \<open>
  Callbacks that call back. Network management, state management, service discovery and access
  management invoke their callbacks while they hold their mutex (nm.cpp, sm.cpp,
  someip_binding.cpp, iam.cpp), and a \<open>std::mutex\<close> cannot be locked twice by one thread. In the
  other theories an operation returns the invocations it makes and the callbacks do nothing; here a
  callback is a list of calls on the five singletons, and what it calls can invoke callbacks in
  turn. The function groups, each with a mutex of its own, are left out.
\<close>

section \<open>The singletons and their mutexes\<close>

record singletons =
  sg_nm :: NetworkManagement
  sg_sm :: StateManagement
  sg_fgs :: fg_heap
  sg_sd :: SomeIpServiceDiscovery
  sg_phm :: PlatformHealthManagement
  sg_iam :: IdentityAccessManagement
  sg_err :: "string list"

definition singletons_start :: singletons where
  "singletons_start = \<lparr>sg_nm = NetworkManagement_new, sg_sm = StateManagement_new, sg_fgs = [],
     sg_sd = SomeIpServiceDiscovery_new, sg_phm = Phm_new, sg_iam = Iam_new, sg_err = []\<rparr>"

datatype mutex = NmMutex | SmMutex | SdMutex | PhmMutex | IamMutex

lemma UNIV_mutex: "(UNIV :: mutex set) = {NmMutex, SmMutex, SdMutex, PhmMutex, IamMutex}"
  by (auto intro: mutex.exhaust)

lemma finite_mutexes [simp]: "finite (M :: mutex set)"
  by (rule finite_subset [OF subset_UNIV]) (simp add: UNIV_mutex)

section \<open>Calls\<close>

text \<open>The invocation of a callback, with its arguments.\<close>

datatype event =
    NetworkChanged callback NetworkId NetworkState NetworkState
  | MachineChanged callback MachineState MachineState
  | ServiceChanged callback ServiceDescriptor bool
  | AccessAudited callback string string IamResult

text \<open>The calls, reads among them; \<open>SetHealth\<close> and \<open>SetAccess\<close> are the operations that return nothing.\<close>

datatype call =
    NetRequest NetworkId | NetRelease NetworkId | NetState NetworkId | NetActive
  | NetCallback "callback option" | NetInitialize | NetShutdown
  | MachineRequest MachineState | MachineRead | MachineError string | MachineShutdown
  | MachineCallback "callback option" | GroupFind string | GroupRegister fg_ptr | MachineInitialize
  | ServiceOffer ServiceDescriptor | ServiceStop u16 | ServiceFind u16 | ServiceSubscribe u16 callback
  | SetHealth phm_op | HealthRead
  | SetAccess iam_op | AccessCheck int IdentityToken string AccessLevel
  | AccessVerify int IdentityToken "u8 list list" | AccessRoles string

text \<open>
  The mutex a call locks, if it locks one. \<open>GetCurrentMachineState\<close>, \<open>KickWatchdog\<close>, \<open>Start\<close> and
  \<open>Stop\<close> use atomics, \<open>VerifyIdentity\<close> reads no shared state, registering a null function group
  and checking an invalid token return before the lock.
\<close>

fun health_locks :: "phm_op \<Rightarrow> bool" where
  "health_locks (OpKick now) \<longleftrightarrow> False"
| "health_locks (OpStart now) \<longleftrightarrow> False"
| "health_locks OpStop \<longleftrightarrow> False"
| "health_locks _ \<longleftrightarrow> True"

fun locks_of :: "call \<Rightarrow> mutex option" where
  "locks_of (NetRequest k) = Some NmMutex"
| "locks_of (NetRelease k) = Some NmMutex"
| "locks_of (NetState k) = Some NmMutex"
| "locks_of NetActive = Some NmMutex"
| "locks_of (NetCallback cb) = Some NmMutex"
| "locks_of NetInitialize = Some NmMutex"
| "locks_of NetShutdown = Some NmMutex"
| "locks_of (MachineRequest s) = Some SmMutex"
| "locks_of MachineRead = None"
| "locks_of (MachineError r) = Some SmMutex"
| "locks_of MachineShutdown = Some SmMutex"
| "locks_of (MachineCallback cb) = Some SmMutex"
| "locks_of (GroupFind n) = Some SmMutex"
| "locks_of (GroupRegister p) = (if p = None then None else Some SmMutex)"
| "locks_of MachineInitialize = Some SmMutex"
| "locks_of (ServiceOffer svc) = Some SdMutex"
| "locks_of (ServiceStop i) = Some SdMutex"
| "locks_of (ServiceFind i) = Some SdMutex"
| "locks_of (ServiceSubscribe i cb) = Some SdMutex"
| "locks_of (SetHealth op) = (if health_locks op then Some PhmMutex else None)"
| "locks_of HealthRead = Some PhmMutex"
| "locks_of (SetAccess op) = Some IamMutex"
| "locks_of (AccessCheck now token r l) = (if Token_IsValid now token then Some IamMutex else None)"
| "locks_of (AccessVerify now token certs) = None"
| "locks_of (AccessRoles s) = Some IamMutex"

text \<open>What a call does, and the callbacks it invokes; reads change nothing.\<close>

definition network_events :: "NmNotification list \<Rightarrow> event list" where
  "network_events = map (\<lambda>(cb, k, old, new). NetworkChanged cb k old new)"

definition machine_events :: "machine_calls \<Rightarrow> event list" where
  "machine_events = map (\<lambda>(cb, old, new). MachineChanged cb old new)"

definition service_events :: "sd_calls \<Rightarrow> event list" where
  "service_events = map (\<lambda>(cb, svc, available). ServiceChanged cb svc available)"

definition audit_events :: "audit_calls \<Rightarrow> event list" where
  "audit_events = map (\<lambda>(cb, s, r, res). AccessAudited cb s r res)"

fun perform :: "call \<Rightarrow> singletons \<Rightarrow> singletons \<times> event list" where
  "perform (NetRequest k) w =
     (case RequestNetwork k (sg_nm w) of (_, nm, calls) \<Rightarrow> (w\<lparr>sg_nm := nm\<rparr>, network_events calls))"
| "perform (NetRelease k) w =
     (case ReleaseNetwork k (sg_nm w) of (_, nm, calls) \<Rightarrow> (w\<lparr>sg_nm := nm\<rparr>, network_events calls))"
| "perform (NetState k) w = (w, [])"
| "perform NetActive w = (w, [])"
| "perform (NetCallback cb) w = (w\<lparr>sg_nm := RegisterNetworkStateCallback cb (sg_nm w)\<rparr>, [])"
| "perform NetInitialize w = (w\<lparr>sg_nm := snd (Nm_Initialize (sg_nm w))\<rparr>, [])"
| "perform NetShutdown w = (w\<lparr>sg_nm := Nm_Shutdown (sg_nm w)\<rparr>, [])"
| "perform (MachineRequest s) w =
     (case RequestMachineStateChange s (sg_sm w) of (_, sm, calls) \<Rightarrow> (w\<lparr>sg_sm := sm\<rparr>, machine_events calls))"
| "perform MachineRead w = (w, [])"
| "perform (MachineError r) w =
     (case TriggerErrorState r (sg_sm w) of (t, sm, calls) \<Rightarrow>
        (w\<lparr>sg_sm := sm, sg_err := sg_err w @ [t]\<rparr>, machine_events calls))"
| "perform MachineShutdown w =
     (case Sm_Shutdown (sg_sm w) of (sm, calls) \<Rightarrow> (w\<lparr>sg_sm := sm\<rparr>, machine_events calls))"
| "perform (MachineCallback cb) w = (w\<lparr>sg_sm := SetMachineStateCallback cb (sg_sm w)\<rparr>, [])"
| "perform (GroupFind n) w = (w, [])"
| "perform (GroupRegister p) w = (w\<lparr>sg_sm := RegisterFunctionGroup p (sg_fgs w) (sg_sm w)\<rparr>, [])"
| "perform MachineInitialize w =
     (case Sm_Initialize (sg_fgs w) (sg_sm w) of (_, h, sm) \<Rightarrow> (w\<lparr>sg_fgs := h, sg_sm := sm\<rparr>, []))"
| "perform (ServiceOffer svc) w =
     (case OfferService svc (sg_sd w) of (sd, calls) \<Rightarrow> (w\<lparr>sg_sd := sd\<rparr>, service_events calls))"
| "perform (ServiceStop i) w =
     (case StopOfferService i (sg_sd w) of (sd, calls) \<Rightarrow> (w\<lparr>sg_sd := sd\<rparr>, service_events calls))"
| "perform (ServiceFind i) w = (w, [])"
| "perform (ServiceSubscribe i cb) w =
     (case SubscribeServiceAvailability i cb (sg_sd w) of (sd, calls) \<Rightarrow>
        (w\<lparr>sg_sd := sd\<rparr>, service_events calls))"
| "perform (SetHealth op) w = (w\<lparr>sg_phm := phm_step (sg_phm w) op\<rparr>, [])"
| "perform HealthRead w = (w, [])"
| "perform (SetAccess op) w = (w\<lparr>sg_iam := iam_step (sg_iam w) op\<rparr>, [])"
| "perform (AccessCheck now token r l) w = (w, audit_events (snd (CheckAccess now token r l (sg_iam w))))"
| "perform (AccessVerify now token certs) w = (w, [])"
| "perform (AccessRoles s) w = (w, [])"

text \<open>The nesting of callbacks will end because every level holds one mutex more.\<close>

lemma fewer_mutexes: "m \<notin> locked \<Longrightarrow> card (- insert m locked) < card (- locked)" for m :: mutex
  by (intro psubset_card_mono) auto

text \<open>
  A thread that holds the mutexes of \<open>locked\<close> makes calls; \<open>script\<close> says what every callback does.
  A call that locks a mutex invokes its callbacks before it unlocks it.
\<close>

function make_calls :: "(event \<Rightarrow> call list) \<Rightarrow> mutex set \<Rightarrow> call list \<Rightarrow> singletons \<Rightarrow> singletons outcome" where
  "make_calls script locked [] w = Inr w"
| "make_calls script locked (c # cs) w =
     (case perform c w of (w', events) \<Rightarrow>
        (case locks_of c of
           None \<Rightarrow> make_calls script locked cs w'
         | Some m \<Rightarrow>
             if m \<in> locked then Inl SelfDeadlock
             else (case make_calls script (insert m locked) (concat (map script events)) w' of
                Inl e \<Rightarrow> Inl e
              | Inr w'' \<Rightarrow> make_calls script locked cs w'')))"
  by pat_completeness auto

termination make_calls
  by (relation "measures [\<lambda>(_, locked, _, _). card (- locked), \<lambda>(_, _, cs, _). length cs]")
    (simp_all add: fewer_mutexes)

abbreviation effect :: "call \<Rightarrow> singletons \<Rightarrow> singletons" where
  "effect c w \<equiv> fst (perform c w)"

definition responses :: "(event \<Rightarrow> call list) \<Rightarrow> call \<Rightarrow> singletons \<Rightarrow> call list" where
  "responses script c w = concat (map script (snd (perform c w)))"

declare make_calls.simps(2) [simp del]

lemma make_calls_Cons:
  "make_calls script locked (c # cs) w =
     (case locks_of c of
        None \<Rightarrow> make_calls script locked cs (effect c w)
      | Some m \<Rightarrow> if m \<in> locked then Inl SelfDeadlock
          else obind (make_calls script (insert m locked) (responses script c w) (effect c w)) (make_calls script locked cs))"
  by (simp add: make_calls.simps(2) case_prod_beta responses_def obind_def split: option.split)

lemma make_calls_induct [case_names Nil Cons]:
  assumes "\<And>locked w. P locked [] w"
    and "\<And>locked c cs w.
      \<lbrakk>locks_of c = None \<Longrightarrow> P locked cs (effect c w);
       \<And>m. locks_of c = Some m \<Longrightarrow> m \<notin> locked \<Longrightarrow> P (insert m locked) (responses script c w) (effect c w);
       \<And>m v. locks_of c = Some m \<Longrightarrow> m \<notin> locked \<Longrightarrow>
         make_calls script (insert m locked) (responses script c w) (effect c w) = Inr v \<Longrightarrow> P locked cs v\<rbrakk>
      \<Longrightarrow> P locked (c # cs) w"
  shows "P locked cs w"
proof -
  have "s = script \<longrightarrow> P locked cs w" for s
    by (induction s locked cs w rule: make_calls.induct)
      (use assms in \<open>auto simp: responses_def case_prod_beta prod_eq_iff\<close>)
  then show ?thesis by blast
qed

section \<open>What a call touches\<close>

text \<open>
  The state a mutex protects. The running flag and the watchdog time of health management are
  protected by none.
\<close>

fun same_part :: "mutex \<Rightarrow> singletons \<Rightarrow> singletons \<Rightarrow> bool" where
  "same_part NmMutex w w' \<longleftrightarrow> sg_nm w' = sg_nm w"
| "same_part SmMutex w w' \<longleftrightarrow> sg_sm w' = sg_sm w"
| "same_part SdMutex w w' \<longleftrightarrow> sg_sd w' = sg_sd w"
| "same_part PhmMutex w w' \<longleftrightarrow> ph_entities (sg_phm w') = ph_entities (sg_phm w) \<and>
     ph_recoveryCallback (sg_phm w') = ph_recoveryCallback (sg_phm w)"
| "same_part IamMutex w w' \<longleftrightarrow> sg_iam w' = sg_iam w"

lemma same_part_refl [simp]: "same_part m w w"
  by (cases m) simp_all

lemma same_part_trans: "same_part m a b \<Longrightarrow> same_part m b c \<Longrightarrow> same_part m a c"
  by (cases m) simp_all

lemma unlocked_health: "\<not> health_locks op \<Longrightarrow>
  ph_entities (phm_step phm op) = ph_entities phm \<and> ph_recoveryCallback (phm_step phm op) = ph_recoveryCallback phm"
  by (cases op) (simp_all add: KickWatchdog_def Phm_Start_def Phm_Stop_def)

lemma perform_frame:
  assumes "locks_of c \<noteq> Some m"
  shows "same_part m w (fst (perform c w))"
proof (cases c)
  case (SetHealth op)
  with assms unlocked_health [of op] show ?thesis by (cases m) (simp_all split: if_splits)
next
  case (GroupRegister p)
  with assms show ?thesis by (cases m; cases p) (simp_all add: RegisterFunctionGroup_def)
qed (use assms in \<open>cases m; simp add: case_prod_beta\<close>)+

lemma unlocked_silent: "locks_of c = None \<Longrightarrow> snd (perform c w) = []"
  by (cases c) (simp_all add: CheckAccess_def audit_events_def case_prod_beta split: if_splits)

lemma make_calls_frame:
  "make_calls script locked cs w = Inr w' \<Longrightarrow> m \<in> locked \<Longrightarrow> same_part m w w'"
proof (induction locked cs w arbitrary: w' rule: make_calls_induct [where script = script])
  case (Cons locked c cs w)
  show ?case
  proof (cases "locks_of c")
    case None
    then have "same_part m w (effect c w)" by (intro perform_frame) simp
    moreover have "same_part m (effect c w) w'" using Cons None by (simp add: make_calls_Cons)
    ultimately show ?thesis by (rule same_part_trans)
  next
    case (Some l)
    then obtain v where free: "l \<notin> locked"
      and v: "make_calls script (insert l locked) (responses script c w) (effect c w) = Inr v"
      and rest: "make_calls script locked cs v = Inr w'"
      using Cons.prems(1) by (auto simp: make_calls_Cons obind_eq_Inr split: if_splits)
    have "same_part m w (effect c w)" using free Cons.prems(2) Some by (intro perform_frame) auto
    moreover have "same_part m (effect c w) v" using Cons.IH(2) [OF Some free v] Cons.prems(2) by simp
    moreover have "same_part m v w'" by (rule Cons.IH(3) [OF Some free v rest Cons.prems(2)])
    ultimately show ?thesis by (blast intro: same_part_trans)
  qed
qed simp

text \<open>Without callbacks that call back, a run is the sequence of the operations.\<close>

lemma quiet_callbacks:
  "make_calls (\<lambda>_. []) {} cs w = Inr (fold effect cs w)"
proof (induction cs arbitrary: w)
  case (Cons c cs)
  have "responses (\<lambda>_. []) c w = []" by (simp add: responses_def)
  with Cons show ?case by (simp add: make_calls_Cons split: option.split)
qed simp

text \<open>
  C21: a callback cannot change the component that calls it. Whatever the callbacks call, and
  whatever those calls call, an operation that returns has had on the state its mutex protects
  exactly the effect it has alone: nested calls that would touch it do not return.
\<close>

theorem operations_keep_their_effect:
  assumes "make_calls script {} [c] w = Inr w'" and "locks_of c = Some m"
  shows "same_part m (fst (perform c w)) w'"
proof -
  have "make_calls script {m} (responses script c w) (effect c w) = Inr w'"
    using assms by (auto simp: make_calls_Cons obind_eq_Inr)
  then show ?thesis by (rule make_calls_frame) simp
qed

text \<open>A network callback that moves the machine state, which reports to health management.\<close>

definition demo_script :: "event \<Rightarrow> call list" where
  "demo_script e =
     (case e of
        NetworkChanged cb k old new \<Rightarrow> [MachineRequest MachineState.kDriving, MachineRead]
      | MachineChanged cb old new \<Rightarrow> [SetHealth (OpCheckpoint ''app'' 1 7), HealthRead]
      | ServiceChanged cb svc available \<Rightarrow> (if available then [NetRequest kEthIPC] else [NetRelease kEthIPC])
      | AccessAudited cb s r res \<Rightarrow> [ServiceFind 0xFFFF])"

definition demo_singletons :: singletons where
  "demo_singletons = fold effect
     [NetInitialize, NetCallback (Some 1), MachineCallback (Some 2), SetAccess (IamSetAudit (Some 3))] singletons_start"

theorem operations_keep_their_effect_witness:
  "case make_calls demo_script {} [NetRequest kEthIPC] demo_singletons of
     Inl e \<Rightarrow> False
   | Inr w \<Rightarrow> GetNetworkState kEthIPC (sg_nm w) = NetworkState.kNormal \<and>
       GetCurrentMachineState (sg_sm w) = MachineState.kDriving"
proof -
  have "case make_calls demo_script {} [NetRequest kEthIPC] demo_singletons of
     Inl e \<Rightarrow> False | Inr w \<Rightarrow> GetCurrentMachineState (sg_sm w) = MachineState.kDriving"
    by code_simp
  then obtain w where w: "make_calls demo_script {} [NetRequest kEthIPC] demo_singletons = Inr w"
    and m: "GetCurrentMachineState (sg_sm w) = MachineState.kDriving"
    by (auto split: sum.splits)
  have "GetNetworkState kEthIPC (sg_nm (effect (NetRequest kEthIPC) demo_singletons)) = NetworkState.kNormal"
    by code_simp
  with operations_keep_their_effect [OF w, of NmMutex] show ?thesis by (simp add: w m)
qed

section \<open>Callbacks that deadlock\<close>

lemma only_deadlocks: "make_calls script locked cs w = Inl e \<Longrightarrow> e = SelfDeadlock"
proof (induction locked cs w rule: make_calls_induct [where script = script])
  case (Cons locked c cs w)
  then show ?case by (auto simp: make_calls_Cons obind_eq_Inl split: option.splits if_splits)
qed simp

text \<open>Somewhere in a sequence of calls one locks a mutex that is held already.\<close>

lemma held_mutex_blocks:
  "list_ex (\<lambda>c. \<exists>m \<in> locked. locks_of c = Some m) cs \<Longrightarrow> make_calls script locked cs w = Inl SelfDeadlock"
proof (induction cs arbitrary: w)
  case (Cons c cs)
  show ?case
  proof (cases "\<exists>m \<in> locked. locks_of c = Some m")
    case True
    then show ?thesis by (auto simp: make_calls_Cons)
  next
    case False
    with Cons have rest: "make_calls script locked cs w' = Inl SelfDeadlock" for w' by simp
    show ?thesis
    proof (cases "locks_of c")
      case (Some m)
      with False have free: "m \<notin> locked" by blast
      show ?thesis
      proof (cases "make_calls script (insert m locked) (responses script c w) (effect c w)")
        case (Inl e)
        with only_deadlocks [OF this] show ?thesis by (simp add: make_calls_Cons Some free)
      qed (simp add: make_calls_Cons Some free rest)
    qed (simp add: make_calls_Cons rest)
  qed
qed simp


text \<open>
  A network callback that reads and changes the machine state, and asks for the state of the network
  it is told about.
\<close>

definition curious :: "event \<Rightarrow> call list" where
  "curious e = (case e of NetworkChanged cb k old new \<Rightarrow> [MachineRead, MachineRequest MachineState.kParked, NetState k] | _ \<Rightarrow> [])"


text \<open>Two components whose callbacks call each other deadlock too.\<close>

definition entangled :: "event \<Rightarrow> call list" where
  "entangled e =
     (case e of
        NetworkChanged cb k old new \<Rightarrow> [MachineRequest MachineState.kDriving]
      | MachineChanged cb old new \<Rightarrow> [NetRequest kLoopback]
      | _ \<Rightarrow> [])"

lemma entangled_deadlocks:
  "make_calls entangled {} [NetRequest kEthIPC] demo_singletons = Inl SelfDeadlock"
  by code_simp

section \<open>Callbacks that do not\<close>

fun event_mutex :: "event \<Rightarrow> mutex" where
  "event_mutex (NetworkChanged cb k old new) = NmMutex"
| "event_mutex (MachineChanged cb old new) = SmMutex"
| "event_mutex (ServiceChanged cb svc available) = SdMutex"
| "event_mutex (AccessAudited cb s r res) = IamMutex"

lemma events_mutex: "e \<in> set (snd (perform c w)) \<Longrightarrow> locks_of c = Some (event_mutex e)"
  by (cases c)
    (auto simp: network_events_def machine_events_def service_events_def audit_events_def CheckAccess_def
      case_prod_beta split: if_splits)

text \<open>Every callback only locks mutexes below the one it is called under.\<close>

definition below :: "(mutex \<Rightarrow> nat) \<Rightarrow> nat \<Rightarrow> call \<Rightarrow> bool" where
  "below rank n c \<longleftrightarrow> (case locks_of c of None \<Rightarrow> True | Some m \<Rightarrow> rank m < n)"

definition descends :: "(mutex \<Rightarrow> nat) \<Rightarrow> (event \<Rightarrow> call list) \<Rightarrow> bool" where
  "descends rank script \<longleftrightarrow> (\<forall>e. list_all (below rank (rank (event_mutex e))) (script e))"

lemma descends_responses:
  assumes "descends rank script" and "locks_of c = Some m"
  shows "list_all (below rank (rank m)) (responses script c w)"
proof -
  have "event_mutex e = m" if "e \<in> set (snd (perform c w))" for e
    using events_mutex [OF that] assms(2) by simp
  with assms(1) show ?thesis by (fastforce simp: descends_def responses_def list_all_iff)
qed

lemma below_mono: "below rank n c \<Longrightarrow> n \<le> n' \<Longrightarrow> below rank n' c"
  by (auto simp: below_def split: option.splits)

lemma descends_make_calls:
  assumes "descends rank script" and "\<And>m. m \<in> locked \<Longrightarrow> list_all (below rank (rank m)) cs"
  shows "\<exists>w'. make_calls script locked cs w = Inr w'"
  using assms(2)
proof (induction locked cs w rule: make_calls_induct [where script = script])
  case (Cons locked c cs w)
  show ?case
  proof (cases "locks_of c")
    case None
    with Cons show ?thesis by (simp add: make_calls_Cons)
  next
    case (Some m)
    have above: "rank m < rank h" if "h \<in> locked" for h
      using Cons.prems [OF that] Some by (simp add: below_def)
    then have free: "m \<notin> locked" by blast
    have "list_all (below rank (rank h)) (responses script c w)" if "h \<in> insert m locked" for h
    proof -
      have "rank m \<le> rank h" using that above by (auto simp: less_imp_le)
      with descends_responses [OF assms(1) Some, of w] below_mono show ?thesis
        by (metis (mono_tags, lifting) list_all_iff)
    qed
    with Cons.IH(2) [OF Some free] obtain v where
      v: "make_calls script (insert m locked) (responses script c w) (effect c w) = Inr v" by blast
    from Cons.IH(3) [OF Some free v] Cons.prems obtain w' where "make_calls script locked cs v = Inr w'" by auto
    then show ?thesis by (simp add: make_calls_Cons Some free v)
  qed
qed simp

text \<open>
  C20: callbacks that call the singletons in one direction never deadlock. When the five mutexes can
  be ranked so that every callback only makes calls that lock a mutex of lower rank than the one
  it is called under, every sequence of calls returns, however deep the callbacks nest.
\<close>

theorem descending_callbacks_return:
  assumes "descends rank script"
  shows "\<exists>w'. make_calls script {} cs w = Inr w'"
  by (rule descends_make_calls [OF assms]) simp

fun demo_rank :: "mutex \<Rightarrow> nat" where
  "demo_rank PhmMutex = 0" | "demo_rank SmMutex = 1" | "demo_rank NmMutex = 2" | "demo_rank SdMutex = 3"
| "demo_rank IamMutex = 4"

theorem descending_callbacks_return_witness:
  "\<exists>w. make_calls demo_script {} [NetRequest kEthIPC, ServiceSubscribe 0x1001 4, NetRelease kEthIPC] demo_singletons = Inr w"
proof -
  have "list_all (below demo_rank (demo_rank (event_mutex e))) (demo_script e)" for e
    by (cases e) (simp_all add: demo_script_def below_def)
  then have "descends demo_rank demo_script" by (simp add: descends_def)
  then show ?thesis by (rule descending_callbacks_return)
qed

end
