(* ===== verification/UnitTests.thy ===== *)
theory UnitTests
  imports Nm Sm Phm Crypto Logging Someip Declared
begin

text \<open>
  The unit tests of the repository, src/tests/unit, run on the model: network management, state
  management, health management, cryptography, logging, the execution client, the base classes of
  communication and the diagnostic enumerators. A test is a step on the singleton it uses and says
  whether its expectations hold; what its callbacks observe is read off the invocations an operation
  returns. The tests share the singletons of their process, so whether a test passes can depend on
  those before it. Left out are the tests that have no counterpart in the model: object identity
  (\<open>SingletonIdentity\<close>), the numbers of the enumerators that the model keeps as datatypes without
  numbers, what the compiler checks (\<open>static_assert\<close>), moving a proxy, and construction and streaming
  that merely should not crash.
\<close>

section \<open>Suites\<close>

text \<open>The tests of one process, in the order of a list; every test with its verdict.\<close>

fun verdicts :: "('t \<Rightarrow> 's \<Rightarrow> bool \<times> 's) \<Rightarrow> 't list \<Rightarrow> 's \<Rightarrow> ('t \<times> bool) list" where
  "verdicts test [] s = []"
| "verdicts test (t # ts) s = (case test t s of (passed, s') \<Rightarrow> (t, passed) # verdicts test ts s')"

definition all_pass :: "('t \<Rightarrow> 's \<Rightarrow> bool \<times> 's) \<Rightarrow> 't list \<Rightarrow> 's \<Rightarrow> bool" where
  "all_pass test ts s = list_all snd (verdicts test ts s)"

lemma all_pass_simps [simp]:
  "all_pass test [] s"
  "all_pass test (t # ts) s \<longleftrightarrow> fst (test t s) \<and> all_pass test ts (snd (test t s))"
  by (simp_all add: all_pass_def case_prod_beta)

text \<open>A suite is independent of order when every test passes in, and returns to, a state like the first.\<close>

locale independent_suite =
  fixes test :: "'t \<Rightarrow> 's \<Rightarrow> bool \<times> 's" and clean :: "'s \<Rightarrow> bool"
  assumes passes: "clean s \<Longrightarrow> fst (test t s)"
    and cleans: "clean s \<Longrightarrow> clean (snd (test t s))"
begin

lemma any_order: "clean s \<Longrightarrow> all_pass test ts s"
  by (induction ts arbitrary: s) (simp_all add: passes cleans)

end

section \<open>Network management\<close>

datatype nm_case =
    NT_RequestEthIPC | NT_RequestAndReleaseReturnsToSleep | NT_ReferenceCountingMultipleRequests
  | NT_RequestUnknownNetwork | NT_ReleaseUnrequested | NT_NetworkHandleRAII | NT_NetworkHandleMove
  | NT_StateChangeCallback | NT_GetActiveNetworks

definition requested :: "NetworkId \<Rightarrow> NetworkManagement \<Rightarrow> NetworkManagement" where
  "requested k nm = fst (snd (RequestNetwork k nm))"

definition released :: "NetworkId \<Rightarrow> NetworkManagement \<Rightarrow> NetworkManagement" where
  "released k nm = fst (snd (ReleaseNetwork k nm))"

text \<open>What the callback of \<open>StateChangeCallback\<close> has observed, the latest invocation counting.\<close>

definition observed :: "NmNotification list \<Rightarrow> NetworkId \<times> NetworkState \<Rightarrow> NetworkId \<times> NetworkState" where
  "observed calls start = foldl (\<lambda>_ (_, k, _, new). (k, new)) start calls"

text \<open>Every test begins with the \<open>SetUp\<close> of the fixture.\<close>

fun nm_body :: "nm_case \<Rightarrow> NetworkManagement \<Rightarrow> bool \<times> NetworkManagement" where
  "nm_body NT_RequestEthIPC nm =
     (let (result, nm, _) = RequestNetwork kEthIPC nm;
          state = GetNetworkState kEthIPC nm
      in ((result = NmRequestResult.kSuccess \<or> result = NmRequestResult.kAlreadyRequested) \<and>
            state = NetworkState.kNormal,
          released kEthIPC nm))"
| "nm_body NT_RequestAndReleaseReturnsToSleep nm =
     (let nm = released kEthExternal (released kEthExternal nm);
          nm = requested kEthExternal nm;
          normal = (GetNetworkState kEthExternal nm = NetworkState.kNormal);
          nm = released kEthExternal nm
      in (normal \<and> GetNetworkState kEthExternal nm = NetworkState.kBusSleep, nm))"
| "nm_body NT_ReferenceCountingMultipleRequests nm =
     (let nm = requested kLoopback (requested kLoopback nm);
          normal = (GetNetworkState kLoopback nm = NetworkState.kNormal);
          nm = released kLoopback nm;
          still = (GetNetworkState kLoopback nm = NetworkState.kNormal);
          nm = released kLoopback nm
      in (normal \<and> still \<and> GetNetworkState kLoopback nm = NetworkState.kBusSleep, nm))"
| "nm_body NT_RequestUnknownNetwork nm =
     (let (result, nm, _) = RequestNetwork 0xFFFF nm in (result = NmRequestResult.kNetworkUnknown, nm))"
| "nm_body NT_ReleaseUnrequested nm =
     (let nm = released kEthDoIP (released kEthDoIP (released kEthDoIP nm));
          (result, nm, _) = ReleaseNetwork kEthDoIP nm
      in (result = NmRequestResult.kError, nm))"
| "nm_body NT_NetworkHandleRAII nm =
     (let nm = released kLoopback (released kLoopback nm);
          (handle, nm, _) = NetworkHandle_ctor kLoopback nm;
          inside = (Handle_IsValid handle \<and> GetNetworkState kLoopback nm = NetworkState.kNormal);
          (nm, _) = NetworkHandle_dtor handle nm
      in (inside \<and> GetNetworkState kLoopback nm = NetworkState.kBusSleep, nm))"
| "nm_body NT_NetworkHandleMove nm =
     (let (h1, nm, _) = NetworkHandle_ctor kLoopback nm;
          valid = Handle_IsValid h1;
          (h2, h1) = NetworkHandle_move h1;
          (nm, _) = NetworkHandle_dtor h1 (fst (NetworkHandle_dtor h2 nm))
      in (valid \<and> \<not> Handle_IsValid h1 \<and> Handle_IsValid h2, nm))"
| "nm_body NT_StateChangeCallback nm =
     (let nm = RegisterNetworkStateCallback (Some 0) nm;
          (_, nm, calls1) = ReleaseNetwork kEthIPC nm;
          (_, nm, calls2) = ReleaseNetwork kEthIPC nm;
          (_, nm, calls3) = RequestNetwork kEthIPC nm;
          seen = observed (calls1 @ calls2 @ calls3) (kLoopback, NetworkState.kBusSleep);
          nm = released kEthIPC nm
      in (seen = (kEthIPC, NetworkState.kNormal), RegisterNetworkStateCallback None nm))"
| "nm_body NT_GetActiveNetworks nm =
     (let nm = requested kLoopback nm;
          found = list_ex (\<lambda>i. i = kLoopback) (GetActiveNetworks nm)
      in (found, released kLoopback nm))"

definition nm_test :: "nm_case \<Rightarrow> NetworkManagement \<Rightarrow> bool \<times> NetworkManagement" where
  "nm_test t nm = nm_body t (snd (Nm_Initialize nm))"

text \<open>Before the first test nothing is registered; after every test all four networks sleep again.\<close>

definition idle_nm :: NetworkManagement where
  "idle_nm = snd (Nm_Initialize NetworkManagement_new)"

lemma initialize_idle: "snd (Nm_Initialize idle_nm) = idle_nm"
  by code_simp

lemma nm_body_idle: "nm_body t idle_nm = (True, idle_nm)"
  by (cases t) (simp_all only:, code_simp+)

interpretation nm_suite: independent_suite nm_test "\<lambda>nm. nm = NetworkManagement_new \<or> nm = idle_nm"
  by unfold_locales (auto simp: nm_test_def initialize_idle nm_body_idle simp flip: idle_nm_def)

text \<open>
  The tests of network management pass in every order, with any of them repeated or left out: each
  returns the requests it makes.
\<close>

theorem nm_tests_pass_in_any_order: "all_pass nm_test ts NetworkManagement_new"
  by (rule nm_suite.any_order) simp

section \<open>State management\<close>

datatype sm_case =
    ST_InitialStateIsStartup | ST_FunctionGroupStateChange | ST_FunctionGroupSameState
  | ST_FunctionGroupCallback | ST_FunctionGroupAllStates | ST_RegisterAndGetFunctionGroup
  | ST_GetNonExistentFunctionGroup | ST_ShutdownTransition | ST_ErrorTransition | ST_TriggerErrorState
  | ST_MachineStateCallback

type_synonym sm_fixture = "StateManagement \<times> fg_heap"

definition moved :: "FunctionGroupState \<Rightarrow> FunctionGroup \<Rightarrow> FunctionGroup" where
  "moved s fg = fst (snd (RequestStateChange s fg))"

fun sm_test :: "sm_case \<Rightarrow> sm_fixture \<Rightarrow> bool \<times> sm_fixture" where
  "sm_test ST_InitialStateIsStartup (sm, h) =
     (let (_, h, sm) = Sm_Initialize h sm; s = GetCurrentMachineState sm
      in (s = MachineState.kStartup \<or> s = MachineState.kDriving \<or> s = MachineState.kParked \<or>
            s = MachineState.kShutdown \<or> s = MachineState.kError, sm, h))"
| "sm_test ST_FunctionGroupStateChange w =
     (let fg = FunctionGroup_ctor ''TestFG'' FunctionGroupState.kOff;
          (result, fg', _) = RequestStateChange FunctionGroupState.kOn fg
      in (Fg_GetCurrentState fg = FunctionGroupState.kOff \<and> result = StateTransitionResult.kSuccess \<and>
            Fg_GetCurrentState fg' = FunctionGroupState.kOn, w))"
| "sm_test ST_FunctionGroupSameState w =
     (let fg = FunctionGroup_ctor ''TestFG_Same'' FunctionGroupState.kOn;
          (result, _, _) = RequestStateChange FunctionGroupState.kOn fg
      in (result = StateTransitionResult.kSuccess, w))"
| "sm_test ST_FunctionGroupCallback w =
     (let fg = FunctionGroup_ctor ''TestFG_Cb'' FunctionGroupState.kOff;
          fg = SetStateChangeCallback (Some 0) fg;
          (_, _, calls) = RequestStateChange FunctionGroupState.kOn fg;
          seen = foldl (\<lambda>_ (_, old, new). (old, new)) (FunctionGroupState.kOn, FunctionGroupState.kOff) calls
      in (seen = (FunctionGroupState.kOff, FunctionGroupState.kOn), w))"
| "sm_test ST_FunctionGroupAllStates w =
     (let fg = FunctionGroup_ctor ''TestFG_All'' FunctionGroupState.kOff;
          fg1 = moved FunctionGroupState.kOn fg;
          fg2 = moved FunctionGroupState.kSuspend fg1;
          fg3 = moved FunctionGroupState.kDiag fg2;
          fg4 = moved FunctionGroupState.kOff fg3
      in (Fg_GetCurrentState fg1 = FunctionGroupState.kOn \<and> Fg_GetCurrentState fg2 = FunctionGroupState.kSuspend \<and>
            Fg_GetCurrentState fg3 = FunctionGroupState.kDiag \<and> Fg_GetCurrentState fg4 = FunctionGroupState.kOff, w))"
| "sm_test ST_RegisterAndGetFunctionGroup (sm, h) =
     (let (_, h, sm) = Sm_Initialize h sm
      in (case GetFunctionGroup ''DriveAssist'' sm of
            None \<Rightarrow> False | Some i \<Rightarrow> Fg_GetName (h ! i) = ''DriveAssist'', sm, h))"
| "sm_test ST_GetNonExistentFunctionGroup (sm, h) =
     (GetFunctionGroup ''NonExistentFG_XYZ'' sm = None, sm, h)"
| "sm_test ST_ShutdownTransition (sm, h) =
     (let (result, sm, _) = RequestMachineStateChange MachineState.kShutdown sm
      in (result = StateTransitionResult.kSuccess \<and> GetCurrentMachineState sm = MachineState.kShutdown, sm, h))"
| "sm_test ST_ErrorTransition (sm, h) =
     (let (result, sm, _) = RequestMachineStateChange MachineState.kError sm
      in (result = StateTransitionResult.kSuccess \<and> GetCurrentMachineState sm = MachineState.kError, sm, h))"
| "sm_test ST_TriggerErrorState (sm, h) =
     (let (_, sm, _) = TriggerErrorState ''Unit test trigger'' sm
      in (GetCurrentMachineState sm = MachineState.kError, sm, h))"
| "sm_test ST_MachineStateCallback (sm, h) =
     (let sm = SetMachineStateCallback (Some 0) sm;
          (_, sm, calls) = RequestMachineStateChange MachineState.kShutdown sm;
          seen = foldl (\<lambda>_ (_, _, new). new) MachineState.kStartup calls
      in (seen = MachineState.kShutdown, SetMachineStateCallback None sm, h))"

text \<open>
  What a suite keeps: the callback is cleared, the machine is in a state a test can bring it to, and
  no function group has the name the tests take to be unknown. The flag: the machine is shut down.
\<close>

definition sm_clean :: "bool \<Rightarrow> sm_fixture \<Rightarrow> bool" where
  "sm_clean down w = (case w of (sm, h) \<Rightarrow>
     sm_machineStateCallback sm = None \<and> (sm_currentState sm = MachineState.kShutdown \<longleftrightarrow> down) \<and>
     sm_currentState sm \<in> {MachineState.kStartup, MachineState.kShutdown, MachineState.kError} \<and>
     um_find (sm_functionGroups sm) ''NonExistentFG_XYZ'' = None)"

fun down_after :: "bool \<Rightarrow> sm_case \<Rightarrow> bool" where
  "down_after down ST_ShutdownTransition = True"
| "down_after down ST_MachineStateCallback = True"
| "down_after down ST_ErrorTransition = False"
| "down_after down ST_TriggerErrorState = False"
| "down_after down _ = down"

lemma Sm_Initialize_keeps:
  "sm_machineStateCallback (snd (snd (Sm_Initialize h sm))) = sm_machineStateCallback sm"
  "um_find (sm_functionGroups sm) ''NonExistentFG_XYZ'' = None \<Longrightarrow>
   um_find (sm_functionGroups (snd (snd (Sm_Initialize h sm)))) ''NonExistentFG_XYZ'' = None"
  by (simp_all add: Sm_Initialize_eq RegisterFunctionGroup_def default_groups_def FunctionGroup_ctor_def
      Fg_GetName_def nth_append um_simps)

lemma drive_assist_found:
  "case GetFunctionGroup ''DriveAssist'' (snd (snd (Sm_Initialize h sm))) of
     None \<Rightarrow> False | Some i \<Rightarrow> Fg_GetName (fst (snd (Sm_Initialize h sm)) ! i) = ''DriveAssist''"
  using Sm_Initialize_lookup [of 0 h sm]
  by (simp add: default_groups_def FunctionGroup_ctor_def Fg_GetName_def Sm_Initialize_eq nth_append)

lemma sm_test_step:
  assumes "sm_clean down w"
  shows "fst (sm_test t w) \<longleftrightarrow> \<not> (t = ST_MachineStateCallback \<and> down)"
    and "sm_clean (down_after down t) (snd (sm_test t w))"
proof -
  obtain sm h where w: "w = (sm, h)" by (cases w)
  note sm = Sm_Initialize_keeps Sm_Initialize_machine RequestMachineStateChange_cases sm_edge_to
    TriggerErrorState_def GetCurrentMachineState_def SetMachineStateCallback_def GetFunctionGroup_def
    RequestStateChange_def FunctionGroup_ctor_def Fg_GetCurrentState_def SetStateChangeCallback_def moved_def
  show "fst (sm_test t w) \<longleftrightarrow> \<not> (t = ST_MachineStateCallback \<and> down)"
    using assms drive_assist_found [of h sm]
    by (cases t) (auto simp: w sm sm_clean_def case_prod_beta Let_def)
  show "sm_clean (down_after down t) (snd (sm_test t w))"
    using assms by (cases t) (auto simp: w sm sm_clean_def case_prod_beta Let_def)
qed

text \<open>
  Two tests disturb each other: one that shuts the machine down, and after it, with no error
  transition in between, the one that expects to be told of a shut-down.
\<close>

definition sm_conflict :: "sm_case list \<Rightarrow> bool" where
  "sm_conflict ts \<longleftrightarrow> (\<exists>before t between rest.
     ts = before @ t # between @ ST_MachineStateCallback # rest \<and>
     t \<in> {ST_ShutdownTransition, ST_MachineStateCallback} \<and>
     set between \<inter> {ST_ErrorTransition, ST_TriggerErrorState} = {})"

definition callback_unheard :: "sm_case list \<Rightarrow> bool" where
  "callback_unheard ts \<longleftrightarrow> (\<exists>between rest. ts = between @ ST_MachineStateCallback # rest \<and>
     set between \<inter> {ST_ErrorTransition, ST_TriggerErrorState} = {})"

lemma callback_unheard_simps:
  "\<not> callback_unheard []"
  "callback_unheard (t # ts) \<longleftrightarrow>
     t = ST_MachineStateCallback \<or> t \<notin> {ST_ErrorTransition, ST_TriggerErrorState} \<and> callback_unheard ts"
  unfolding callback_unheard_def by (auto simp: Cons_eq_append_conv) (metis append_Cons list.simps(15) insert_iff)

lemma sm_conflict_simps:
  "\<not> sm_conflict []"
  "sm_conflict (t # ts) \<longleftrightarrow>
     t \<in> {ST_ShutdownTransition, ST_MachineStateCallback} \<and> callback_unheard ts \<or> sm_conflict ts"
  unfolding sm_conflict_def callback_unheard_def by (auto simp: Cons_eq_append_conv) metis+

lemma all_pass_conflict:
  "sm_clean down w \<Longrightarrow> all_pass sm_test ts w \<longleftrightarrow> \<not> sm_conflict ts \<and> \<not> (down \<and> callback_unheard ts)"
proof (induction ts arbitrary: down w)
  case (Cons t ts)
  show ?case
    using sm_test_step [OF Cons.prems, of t] Cons.IH [OF sm_test_step(2) [OF Cons.prems], of t]
    by (cases t) (auto simp: sm_conflict_simps callback_unheard_simps)
qed (simp add: sm_conflict_simps callback_unheard_simps)

text \<open>
  C36: the tests of state management depend on their order, because nothing brings the machine back
  from a shut-down but an error: in whatever order and however often they run in one process,
  they all pass exactly when \<open>MachineStateCallback\<close> is never preceded by \<open>ShutdownTransition\<close> or
  itself without \<open>ErrorTransition\<close> or \<open>TriggerErrorState\<close> in between.
\<close>

theorem sm_tests_depend_on_order: "all_pass sm_test ts (StateManagement_new, []) \<longleftrightarrow> \<not> sm_conflict ts"
proof -
  have "sm_clean False (StateManagement_new, [])" by (simp add: sm_clean_def StateManagement_new_def um_simps)
  from all_pass_conflict [OF this] show ?thesis by simp
qed

text \<open>In the order of the file they pass.\<close>

definition sm_file :: "sm_case list" where
  "sm_file = [ST_InitialStateIsStartup, ST_FunctionGroupStateChange, ST_FunctionGroupSameState,
     ST_FunctionGroupCallback, ST_FunctionGroupAllStates, ST_RegisterAndGetFunctionGroup,
     ST_GetNonExistentFunctionGroup, ST_ShutdownTransition, ST_ErrorTransition, ST_TriggerErrorState,
     ST_MachineStateCallback]"

lemma sm_file_passes: "all_pass sm_test sm_file (StateManagement_new, [])"
  by code_simp

lemma sm_shuffled_fails:
  "\<not> all_pass sm_test [ST_ShutdownTransition, ST_MachineStateCallback] (StateManagement_new, [])"
  by code_simp

section \<open>Health management\<close>

datatype phm_case =
    PT_StartStop | PT_RegisterEntitySuccess | PT_RegisterEntityDuplicate | PT_UnregisterNonExistent
  | PT_ReportCheckpointNormal | PT_ReportCheckpointUnknownEntity | PT_GlobalStatusNormalWhenNoEntities
  | PT_GlobalStatusNormalAfterCheckpoint | PT_KickWatchdog | PT_SetPhmAction | PT_SetRecoveryCallback
  | PT_SupervisedEntityConstruct | PT_SupervisedEntityMultipleCheckpoints

definition testConf :: AliveSupervisionConfig where
  "testConf = \<lparr>ac_aliveReferenceCycleMs = 100, ac_minMargin = 0, ac_maxMargin = 2,
     ac_failedSupervisionCyclesTol = 3\<rparr>"

text \<open>The loop of ten checkpoints; the clock is read twice for each.\<close>

fun checkpoint_loop :: "nat \<Rightarrow> (nat \<Rightarrow> time_point) \<Rightarrow> SupervisedEntity \<times> PlatformHealthManagement \<Rightarrow>
    SupervisedEntity \<times> PlatformHealthManagement" where
  "checkpoint_loop 0 now w = w"
| "checkpoint_loop (Suc i) now (se, phm) =
     checkpoint_loop i now (CheckpointReached 1 (now (2 * i)) (now (2 * i + 1)) se phm)"

text \<open>A test reads the clock; the readings can be any.\<close>

fun phm_test :: "phm_case \<times> (nat \<Rightarrow> time_point) \<Rightarrow> PlatformHealthManagement \<Rightarrow> bool \<times> PlatformHealthManagement" where
  "phm_test (PT_StartStop, now) phm =
     (let started = Phm_Start (now 0) phm; stopped = Phm_Stop started
      in (Phm_IsRunning started \<and> \<not> Phm_IsRunning stopped, stopped))"
| "phm_test (PT_RegisterEntitySuccess, now) phm =
     (let (result, phm) = RegisterEntity ''TestEntity_1'' testConf (now 0) phm
      in (result, UnregisterEntity ''TestEntity_1'' phm))"
| "phm_test (PT_RegisterEntityDuplicate, now) phm =
     (let (_, phm) = RegisterEntity ''TestEntity_Dup'' testConf (now 0) phm;
          (second, phm) = RegisterEntity ''TestEntity_Dup'' testConf (now 1) phm
      in (\<not> second, UnregisterEntity ''TestEntity_Dup'' phm))"
| "phm_test (PT_UnregisterNonExistent, now) phm = (True, UnregisterEntity ''NonExistent_XYZ'' phm)"
| "phm_test (PT_ReportCheckpointNormal, now) phm =
     (let (_, phm) = RegisterEntity ''TestEntity_Cp'' testConf (now 0) phm;
          phm = ReportCheckpoint ''TestEntity_Cp'' 1 (now 1) phm;
          phm = ReportCheckpoint ''TestEntity_Cp'' 1 (now 2) phm
      in (True, UnregisterEntity ''TestEntity_Cp'' phm))"
| "phm_test (PT_ReportCheckpointUnknownEntity, now) phm = (True, ReportCheckpoint ''Unknown_XYZ'' 1 (now 0) phm)"
| "phm_test (PT_GlobalStatusNormalWhenNoEntities, now) phm =
     (GetGlobalStatus phm = GlobalSupervisionStatus.kNormal, phm)"
| "phm_test (PT_GlobalStatusNormalAfterCheckpoint, now) phm =
     (let (_, phm) = RegisterEntity ''TestEntity_Status'' testConf (now 0) phm;
          phm = ReportCheckpoint ''TestEntity_Status'' 1 (now 1) phm
      in (GetGlobalStatus phm = GlobalSupervisionStatus.kNormal, UnregisterEntity ''TestEntity_Status'' phm))"
| "phm_test (PT_KickWatchdog, now) phm = (True, KickWatchdog (now 1) (KickWatchdog (now 0) phm))"
| "phm_test (PT_SetPhmAction, now) phm =
     (let (_, phm) = RegisterEntity ''TestEntity_Action'' testConf (now 0) phm;
          phm = SetPhmAction ''TestEntity_Action'' PhmAction.kTriggerSm phm
      in (True, UnregisterEntity ''TestEntity_Action'' phm))"
| "phm_test (PT_SetRecoveryCallback, now) phm = (True, KickWatchdog (now 0) (SetRecoveryCallback (Some 0) phm))"
| "phm_test (PT_SupervisedEntityConstruct, now) phm =
     (let (se, phm) = SupervisedEntity_ctor ''TestSE_Auto'' (now 0) (now 1) phm;
          before = (SupervisedEntity_GetInstanceId se = ''TestSE_Auto'' \<and>
            SupervisedEntity_GetStatus se = SupervisionStatus.kOk);
          (se, phm) = CheckpointReached 1 (now 2) (now 3) se phm
      in (before \<and> SupervisedEntity_GetStatus se = SupervisionStatus.kOk, SupervisedEntity_dtor se phm))"
| "phm_test (PT_SupervisedEntityMultipleCheckpoints, now) phm =
     (let (se, phm) = SupervisedEntity_ctor ''TestSE_Multi'' (now 20) (now 21) phm;
          (se, phm) = checkpoint_loop 10 now (se, phm)
      in (SupervisedEntity_GetStatus se = SupervisionStatus.kOk, SupervisedEntity_dtor se phm))"

text \<open>No test leaves an entity behind.\<close>

lemma no_entity: "ph_entities phm = [] \<Longrightarrow> GetGlobalStatus phm = GlobalSupervisionStatus.kNormal"
  by (simp add: GetGlobalStatus_def um_values_def)

lemma checkpoint_loop_keeps:
  "fst ` set (ph_entities phm) \<subseteq> {se_instanceId se} \<Longrightarrow>
   (case checkpoint_loop n now (se, phm) of (se', phm') \<Rightarrow>
      se_instanceId se' = se_instanceId se \<and> se_status se' = se_status se \<and>
      fst ` set (ph_entities phm') \<subseteq> {se_instanceId se})"
proof (induction n arbitrary: se phm)
  case (Suc n)
  let ?r = "CheckpointReached 1 (now (2 * n)) (now (2 * n + 1)) se phm"
  have "fst ` set (ph_entities (snd ?r)) \<subseteq> {se_instanceId se}"
    using Suc.prems by (auto simp: CheckpointReached_def ReportCheckpoint_def um_put_def dom_update split: option.split)
  with Suc.IH [of "snd ?r" "fst ?r"] show ?case
    by (simp add: CheckpointReached_def case_prod_beta)
qed simp

lemma unregister_only: "fst ` set (ph_entities phm) \<subseteq> {e} \<Longrightarrow> ph_entities (UnregisterEntity e phm) = []"
  by (force simp: UnregisterEntity_def um_erase_def AList.delete_eq filter_empty_conv)

interpretation phm_suite: independent_suite phm_test "\<lambda>phm. ph_entities phm = []"
proof
  fix phm :: PlatformHealthManagement and t :: "phm_case \<times> (nat \<Rightarrow> time_point)"
  assume e: "ph_entities phm = []"
  obtain c now where t: "t = (c, now)" by (cases t)
  have loop: "fst (phm_test (PT_SupervisedEntityMultipleCheckpoints, now) phm) \<and>
      ph_entities (snd (phm_test (PT_SupervisedEntityMultipleCheckpoints, now) phm)) = []"
    using checkpoint_loop_keeps [of "snd (SupervisedEntity_ctor ''TestSE_Multi'' (now 20) (now 21) phm)"
        "fst (SupervisedEntity_ctor ''TestSE_Multi'' (now 20) (now 21) phm)" 10 now] e
      unregister_only
    by (auto simp: SupervisedEntity_ctor_def SupervisedEntity_dtor_def SupervisedEntity_GetStatus_def
        RegisterEntity_def um_put_def case_prod_beta Let_def simp del: checkpoint_loop.simps)
  note eval = e phm_defs um_eval Let_def SupervisedEntity_ctor_def SupervisedEntity_dtor_def CheckpointReached_def
    SupervisedEntity_GetStatus_def SupervisedEntity_GetInstanceId_def GetGlobalStatus_def Phm_IsRunning_def
  show "fst (phm_test t phm)"
    using loop by (cases c) (simp_all add: t eval del: checkpoint_loop.simps)
  show "ph_entities (snd (phm_test t phm)) = []"
    using loop by (cases c) (simp_all add: t eval del: checkpoint_loop.simps)
qed

text \<open>The tests of health management pass in every order and at all times.\<close>

theorem phm_tests_pass_in_any_order: "all_pass phm_test ts Phm_new"
  by (rule phm_suite.any_order) (simp add: Phm_new_def um_empty_def)

section \<open>Cryptography\<close>

datatype crypto_case =
    CT_GenerateRandom16Bytes | CT_GenerateRandom32Bytes | CT_RandomOutputNotAllZero
  | CT_TwoRandomOutputsDiffer | CT_GenerateAES256GCMKey | CT_GenerateAES128GCMKey | CT_GenerateHMACKey
  | CT_LoadNonExistentKeyReturnsInvalid | CT_SymmetricEncryptDecryptRoundTrip
  | CT_DecryptTamperedDataFails | CT_EncryptWithInvalidKeyFails | CT_HmacGenerateAndVerify
  | CT_HmacVerifyTamperedDataFails | CT_HashSHA256OutputSize | CT_HashDeterministic
  | CT_HashDifferentInputsDifferentOutputs | CT_VerifySignatureWithValidKey
  | CT_VerifySignatureWithInvalidKey

text \<open>A key of the default slot, and the provider afterwards; what draws the bytes is a parameter.\<close>

definition test_key :: "('g \<Rightarrow> u16 \<times> 'g) \<Rightarrow> AlgorithmId \<Rightarrow> KeyUsage \<Rightarrow> KeyStore \<times> 'g \<Rightarrow>
    CryptoKey \<times> KeyStore \<times> 'g" where
  "test_key dist alg usage w = GenerateKey dist alg usage KeySlotType.kVolatile (fst w) (snd w)"

text \<open>\<open>ciphertext.back() ^= 0xFF\<close>.\<close>

definition tamper_back :: "ByteVector \<Rightarrow> ByteVector" where
  "tamper_back bs = bs[length bs - 1 := bs ! (length bs - 1) XOR 0xFF]"

fun crypto_test :: "('g \<Rightarrow> u16 \<times> 'g) \<Rightarrow> crypto_case \<Rightarrow> KeyStore \<times> 'g \<Rightarrow> bool \<times> KeyStore \<times> 'g" where
  "crypto_test dist CT_GenerateRandom16Bytes (ks, g) =
     (let (result, output, g) = GenerateRandom dist 16 g
      in (result = CryptoResult.kSuccess \<and> length output = 16, ks, g))"
| "crypto_test dist CT_GenerateRandom32Bytes (ks, g) =
     (let (result, output, g) = GenerateRandom dist 32 g
      in (result = CryptoResult.kSuccess \<and> length output = 32, ks, g))"
| "crypto_test dist CT_RandomOutputNotAllZero (ks, g) =
     (let (_, output, g) = GenerateRandom dist 32 g in (list_ex (\<lambda>b. b \<noteq> 0) output, ks, g))"
| "crypto_test dist CT_TwoRandomOutputsDiffer (ks, g) =
     (let (_, r1, g) = GenerateRandom dist 32 g; (_, r2, g) = GenerateRandom dist 32 g
      in (r1 \<noteq> r2, ks, g))"
| "crypto_test dist CT_GenerateAES256GCMKey w =
     (let (key, w) = test_key dist AlgorithmId.kAES256_GCM (KeyUsage_or kEncrypt kDecrypt) w
      in (Key_IsValid key \<and> GetAlgorithmId key = AlgorithmId.kAES256_GCM, w))"
| "crypto_test dist CT_GenerateAES128GCMKey w =
     (let (key, w) = test_key dist AlgorithmId.kAES128_GCM kEncrypt w in (Key_IsValid key, w))"
| "crypto_test dist CT_GenerateHMACKey w =
     (let (key, w) = test_key dist AlgorithmId.kHMAC_SHA256 (KeyUsage_or kSign kVerify) w in (Key_IsValid key, w))"
| "crypto_test dist CT_LoadNonExistentKeyReturnsInvalid (ks, g) =
     (let key = LoadKey 0xDEADBEEF AlgorithmId.kAES256_GCM kEncrypt ks in (\<not> Key_IsValid key, ks, g))"
| "crypto_test dist CT_SymmetricEncryptDecryptRoundTrip w =
     (let (key, w) = test_key dist AlgorithmId.kAES256_GCM (KeyUsage_or kEncrypt kDecrypt) w;
          iv = replicate 12 0xAA; plaintext = [0x48, 0x65, 0x6C, 0x6C, 0x6F]; aad = [0x01, 0x02]
      in (case Encrypt key iv plaintext aad [] (fst w) of
            Inl e \<Rightarrow> False
          | Inr (encResult, ciphertext) \<Rightarrow>
              encResult = CryptoResult.kSuccess \<and> length ciphertext > length plaintext \<and>
              Decrypt key iv ciphertext aad [] (fst w) = Inr (CryptoResult.kSuccess, plaintext), w))"
| "crypto_test dist CT_DecryptTamperedDataFails w =
     (let (key, w) = test_key dist AlgorithmId.kAES256_GCM (KeyUsage_or kEncrypt kDecrypt) w;
          iv = replicate 12 0xBB; plaintext = [0x54, 0x65, 0x73, 0x74]
      in (case Encrypt key iv plaintext [] [] (fst w) of
            Inl e \<Rightarrow> False
          | Inr (_, ciphertext) \<Rightarrow>
              map_sum id fst (Decrypt key iv (tamper_back ciphertext) [] [] (fst w)) =
              Inr CryptoResult.kAuthFailed, w))"
| "crypto_test dist CT_EncryptWithInvalidKeyFails w =
     (map_sum id fst (Encrypt CryptoKey_default (replicate 12 0) [1, 2, 3] [] [] (fst w)) =
        Inr CryptoResult.kInvalidKey, w)"
| "crypto_test dist CT_HmacGenerateAndVerify w =
     (let (key, w) = test_key dist AlgorithmId.kHMAC_SHA256 (KeyUsage_or kSign kVerify) w;
          d = [0x01, 0x02, 0x03, 0x04, 0x05]; (genResult, mac) = Mac_Generate key d [] (fst w)
      in (genResult = CryptoResult.kSuccess \<and> length mac = 32 \<and>
            Mac_Verify key d mac (fst w) = CryptoResult.kSuccess, w))"
| "crypto_test dist CT_HmacVerifyTamperedDataFails w =
     (let (key, w) = test_key dist AlgorithmId.kHMAC_SHA256 (KeyUsage_or kSign kVerify) w;
          d = [0x0A, 0x0B, 0x0C]; (_, mac) = Mac_Generate key d [] (fst w)
      in (Mac_Verify key (d[0 := d ! 0 XOR 0x01]) mac (fst w) = CryptoResult.kAuthFailed, w))"
| "crypto_test dist CT_HashSHA256OutputSize w =
     (let (result, digest) = Hash AlgorithmId.kSHA256 [0x01, 0x02, 0x03]
      in (result = CryptoResult.kSuccess \<and> length digest = 32, w))"
| "crypto_test dist CT_HashDeterministic w =
     (let d = [0xAB, 0xCD, 0xEF]
      in (snd (Hash AlgorithmId.kSHA256 d) = snd (Hash AlgorithmId.kSHA256 d), w))"
| "crypto_test dist CT_HashDifferentInputsDifferentOutputs w =
     (snd (Hash AlgorithmId.kSHA256 [0x01]) \<noteq> snd (Hash AlgorithmId.kSHA256 [0x02]), w)"
| "crypto_test dist CT_VerifySignatureWithValidKey w =
     (let (pubKey, w) = test_key dist AlgorithmId.kECDSA_P256 kVerify w
      in (VerifySignature pubKey [0x01, 0x02, 0x03] [0x30, 0x44] = CryptoResult.kSuccess, w))"
| "crypto_test dist CT_VerifySignatureWithInvalidKey w =
     (VerifySignature CryptoKey_default [0x01] [0x02] = CryptoResult.kInvalidKey, w)"

text \<open>
  The code compares 32 bits of each round. Two hashes that differ by more than \<open>2^32\<close>, either way,
  differ in the first round.
\<close>

lemma mac_rounds_differ:
  assumes "mac_rounds (Suc n) (h + \<delta>) = mac_rounds (Suc n) h"
  shows "\<delta> < 2 ^ 32 \<or> - \<delta> < 2 ^ 32"
proof -
  have bytes: "byte_at k (h + \<delta>) = byte_at k h" if "k \<in> {56, 48, 40, 32}" for k
    using assms that by auto
  have bit: "bit (h + \<delta>) n = bit h n" if "32 \<le> n" "n < 64" for n
  proof -
    have "n div 8 = 4 \<or> n div 8 = 5 \<or> n div 8 = 6 \<or> n div 8 = 7" using that by auto
    then have "n div 8 * 8 \<in> {56, 48, 40, 32}" by auto
    from bytes [OF this] have "byte_at (n div 8 * 8) (h + \<delta>) = byte_at (n div 8 * 8) h" .
    then have "bit (h + \<delta>) (n div 8 * 8 + n mod 8) = bit h (n div 8 * 8 + n mod 8)"
      using byte_at_bit [of "n div 8 * 8" _ "n mod 8"] by (metis mod_less_divisor zero_less_numeral)
    then show ?thesis by simp
  qed
  let ?a = "take_bit 32 h" and ?b = "take_bit 32 (h + \<delta>)"
  have "drop_bit 32 (h + \<delta>) = drop_bit 32 h"
  proof (rule bit_word_eqI)
    fix n
    show "bit (drop_bit 32 (h + \<delta>)) n \<longleftrightarrow> bit (drop_bit 32 h) n"
      using bit [of "32 + n"] bit_imp_le_length [of "h + \<delta>" "32 + n"] bit_imp_le_length [of h "32 + n"]
      by (cases "32 + n < 64") (auto simp: bit_simps)
  qed
  moreover have "x = push_bit 32 (drop_bit 32 x) + take_bit 32 x" for x :: u64
    by (rule bits_ident [symmetric])
  ultimately have "h + \<delta> = h - ?a + ?b" by (metis add_diff_cancel_right')
  then have d: "\<delta> = ?b - ?a" by (simp add: algebra_simps)
  have small: "take_bit 32 x < (2 ^ 32 :: u64)" for x :: u64
    using take_bit_nat_less_exp [of 32 "unat x"] by (simp add: word_less_nat_alt unsigned_take_bit_eq)
  show ?thesis
  proof (cases "?a \<le> ?b")
    case True
    then have "?b - ?a \<le> ?b" by (rule word_sub_le)
    then have "\<delta> \<le> ?b" by (simp only: d [symmetric])
    then show ?thesis using small le_less_trans by blast
  next
    case False
    then have "?a - ?b \<le> ?a" by (intro word_sub_le) simp
    moreover have "?a - ?b = - (?b - ?a)" by simp
    ultimately have "- \<delta> \<le> ?a" by (simp only: d [symmetric])
    then show ?thesis using small le_less_trans by blast
  qed
qed

lemma poly_feed_shift: "poly_feed m (h + \<delta>) bs = poly_feed m h bs + \<delta> * m ^ length bs"
proof (induction bs arbitrary: h \<delta>)
  case (Cons b bs)
  have "(h + \<delta>) * m + ucast b = (h * m + ucast b) + \<delta> * m" by (simp add: algebra_simps)
  with Cons [of "h * m + ucast b" "\<delta> * m"] show ?case by (simp add: algebra_simps)
qed simp

text \<open>So the tampered message of the test has another code under every key of 16 or 32 bytes.\<close>

lemma tampered_mac:
  assumes "length k \<in> {16, 32}"
  shows "mac_rounds 8 (poly_feed 37 (poly_feed 31 0x12345678 [0x0B, 0x0B, 0x0C]) k) \<noteq>
    mac_rounds 8 (poly_feed 37 (poly_feed 31 0x12345678 [0x0A, 0x0B, 0x0C]) k)"
proof
  let ?h = "poly_feed 31 0x12345678 [0x0A, 0x0B, 0x0C] :: u64"
  assume eq: "mac_rounds 8 (poly_feed 37 (poly_feed 31 0x12345678 [0x0B, 0x0B, 0x0C]) k) = mac_rounds 8 (poly_feed 37 ?h k)"
  have "poly_feed 31 0x12345678 [0x0B, 0x0B, 0x0C] = ?h + 961" by simp
  then have "poly_feed 37 (poly_feed 31 0x12345678 [0x0B, 0x0B, 0x0C]) k = poly_feed 37 ?h k + 961 * 37 ^ length k"
    by (simp only: poly_feed_shift)
  with eq have "mac_rounds (Suc 7) (poly_feed 37 ?h k + 961 * 37 ^ length k) = mac_rounds (Suc 7) (poly_feed 37 ?h k)"
    by (simp add: eval_nat_numeral)
  from mac_rounds_differ [OF this] assms show False by auto
qed

section \<open>The tests of cryptography\<close>

lemma length_mac_rounds [simp]: "length (mac_rounds n h) = 4 * n"
  by (induction n arbitrary: h) simp_all

lemma length_digest_rounds [simp]: "length (digest_rounds n h) = 8 * n"
  by (induction n arbitrary: h) simp_all

lemma Mac_Generate_usable:
  assumes "usable key ks k"
  shows "Mac_Generate key d mac ks =
    (CryptoResult.kSuccess, mac_rounds 8 (poly_feed 37 (poly_feed 31 0x12345678 d) k))"
  using assms by (auto simp: Mac_Generate_def usable_def Let_def)

lemma Decrypt_tampered:
  assumes "usable key ks k" and "iv \<noteq> []"
  shows "Decrypt key iv (tamper_back (body @ replicate 16 0xAB)) aad out ks =
    Inr (CryptoResult.kAuthFailed, out)"
proof -
  let ?c = "tamper_back (body @ replicate 16 (0xAB :: u8))"
  have l: "length ?c = length body + 16" by (simp add: tamper_back_def)
  have "?c ! (15 + length body) = 0xAB XOR 0xFF" by (simp add: tamper_back_def nth_append)
  moreover have "(0xAB XOR 0xFF :: u8) \<noteq> 0xAB" by code_simp
  ultimately have "?c ! (length body + 15) \<noteq> 0xAB" by (metis add.commute)
  then have "list_ex (\<lambda>i. ?c ! i \<noteq> 0xAB) [length ?c - 16..<length ?c]"
    unfolding l by (auto simp: list_ex_iff intro!: bexI [of _ "length body + 15"])
  with assms l show ?thesis by (simp add: Decrypt_def usable_def)
qed

text \<open>How many keys a test makes, and whether its outcome is left to the random numbers.\<close>

fun keys_made :: "crypto_case \<Rightarrow> nat" where
  "keys_made CT_GenerateAES256GCMKey = 1"
| "keys_made CT_GenerateAES128GCMKey = 1"
| "keys_made CT_GenerateHMACKey = 1"
| "keys_made CT_SymmetricEncryptDecryptRoundTrip = 1"
| "keys_made CT_DecryptTamperedDataFails = 1"
| "keys_made CT_HmacGenerateAndVerify = 1"
| "keys_made CT_HmacVerifyTamperedDataFails = 1"
| "keys_made CT_VerifySignatureWithValidKey = 1"
| "keys_made _ = 0"

fun by_chance :: "crypto_case \<Rightarrow> bool" where
  "by_chance CT_RandomOutputNotAllZero \<longleftrightarrow> True"
| "by_chance CT_TwoRandomOutputsDiffer \<longleftrightarrow> True"
| "by_chance _ \<longleftrightarrow> False"

lemma test_key_fresh:
  assumes "ids_below n (fst w)" and "n < 0xDEADBEEF"
  shows "\<exists>key ks g k. test_key dist alg usage w = (key, ks, g) \<and> ck_valid key \<and> ck_algId key = alg \<and>
    ids_below (Suc n) ks \<and> usable key ks k \<and> length k \<in> {16, 32}"
proof -
  have "n < 2 ^ 32" using assms(2) by simp
  from GenerateKey_fresh [OF assms(1) this, of dist alg usage KeySlotType.kVolatile "snd w"]
  show ?thesis
    by (auto simp: test_key_def case_prod_beta prod_eq_iff)
      (auto simp: GenerateKey_def CryptoKey_ctor_def case_prod_beta Let_def)
qed

text \<open>The tests that make a key.\<close>

lemma key_test_step:
  assumes "ids_below n (fst w)" and "n < 0xDEADBEEF" and "keys_made t = 1"
  shows "fst (crypto_test dist t w) \<and> ids_below (Suc n) (fst (snd (crypto_test dist t w)))"
proof -
  note fresh = test_key_fresh [OF assms(1,2), of dist]
  obtain key ks g k where hmac: "test_key dist AlgorithmId.kHMAC_SHA256 (KeyUsage_or kSign kVerify) w = (key, ks, g)"
    "ck_valid key" "ids_below (Suc n) ks" "usable key ks k" "length k \<in> {16, 32}"
    using fresh by blast
  obtain key' ks' g' k' where aes: "test_key dist AlgorithmId.kAES256_GCM (KeyUsage_or kEncrypt kDecrypt) w = (key', ks', g')"
    "ck_valid key'" "ck_algId key' = AlgorithmId.kAES256_GCM" "ids_below (Suc n) ks'" "usable key' ks' k'"
    using fresh by blast
  show ?thesis
  proof (cases t)
    case CT_GenerateAES128GCMKey
    with fresh [of AlgorithmId.kAES128_GCM kEncrypt] show ?thesis by (auto simp: Key_IsValid_def)
  next
    case CT_VerifySignatureWithValidKey
    with fresh [of AlgorithmId.kECDSA_P256 kVerify] show ?thesis by (auto simp: VerifySignature_def)
  next
    case CT_HmacVerifyTamperedDataFails
    have "[0x0A, 0x0B, 0x0C][0 := [0x0A, 0x0B, 0x0C] ! 0 XOR 0x01] = [0x0B, 0x0B, 0x0C :: u8]" by simp
    then show ?thesis
      using tampered_mac [OF hmac(5)] hmac
      by (simp only: CT_HmacVerifyTamperedDataFails crypto_test.simps)
        (simp add: Mac_Generate_usable Mac_Verify_def Let_def del: poly_feed.simps mac_rounds.simps)
  next
    case CT_SymmetricEncryptDecryptRoundTrip
    with aes show ?thesis
      by (simp add: Encrypt_usable Decrypt_tagged xor_stream_twice Let_def)
  next
    case CT_DecryptTamperedDataFails
    with aes show ?thesis by (simp add: Encrypt_usable Decrypt_tampered Let_def)
  qed (use assms(3) aes hmac in \<open>simp_all add: Key_IsValid_def GetAlgorithmId_def Mac_Generate_usable Mac_Verify_def
      Let_def del: poly_feed.simps\<close>)
qed

lemma crypto_test_step:
  assumes "ids_below n (fst w)" and "n < 0xDEADBEEF"
  shows "(fst (crypto_test dist t w) \<or> by_chance t) \<and> ids_below (n + keys_made t) (fst (snd (crypto_test dist t w)))"
proof -
  obtain ks g where w: "w = (ks, g)" by (cases w)
  have absent: "um_find (ks_keyStore ks) 0xDEADBEEF = None"
    using assms by (force simp: ids_below_def w)
  have hash: "snd (Hash AlgorithmId.kSHA256 [0x01]) \<noteq> snd (Hash AlgorithmId.kSHA256 [0x02])"
    using Hash_detects_byte [of _ "[]" 1 "[]" _ 2] by simp
  show ?thesis
  proof (cases "keys_made t = 1")
    case False
    then show ?thesis
      using assms(1) absent hash
      by (cases t)
        (simp_all add: w GenerateRandom_def case_prod_beta Let_def LoadKey_def Key_IsValid_def CryptoKey_default_def
          Encrypt_def VerifySignature_def, simp_all add: Hash_def)
  qed (use key_test_step [OF assms] in simp)
qed

text \<open>
  C39: the tests of cryptography pass in every order, whatever the random numbers, as long as fewer than
  \<open>0xDEADBEEF\<close> of them run in one process; only the two that compare random output with zero and with
  other random output are left to chance. The mock cipher and code satisfy them all.
\<close>

theorem crypto_tests_pass_in_any_order:
  assumes "length ts < 0xDEADBEEF"
  shows "list_all (\<lambda>(t, passed). passed \<or> by_chance t) (verdicts (crypto_test dist) ts (KeyStore_init, g))"
proof -
  have step: "list_all (\<lambda>(t, passed). passed \<or> by_chance t) (verdicts (crypto_test dist) ts w)"
    if "ids_below n (fst w)" "n + length ts \<le> 0xDEADBEEF" for n w
    using that
  proof (induction ts arbitrary: n w)
    case (Cons t ts)
    let ?r = "crypto_test dist t w"
    have "n < 0xDEADBEEF" using Cons.prems(2) by simp
    note now = crypto_test_step [OF Cons.prems(1) this, of dist t]
    moreover have "keys_made t \<le> 1" by (cases t) simp_all
    ultimately show ?case
      using Cons.IH [of "n + keys_made t" "snd ?r"] Cons.prems(2) by (simp add: case_prod_beta)
  qed simp
  have "ids_below 1 KeyStore_init" by (simp add: ids_below_def KeyStore_init_def um_simps)
  with step [of 1 "(KeyStore_init, g)"] assms show ?thesis by simp
qed

definition crypto_file :: "crypto_case list" where
  "crypto_file = [CT_GenerateRandom16Bytes, CT_GenerateRandom32Bytes, CT_RandomOutputNotAllZero,
     CT_TwoRandomOutputsDiffer, CT_GenerateAES256GCMKey, CT_GenerateAES128GCMKey, CT_GenerateHMACKey,
     CT_LoadNonExistentKeyReturnsInvalid, CT_SymmetricEncryptDecryptRoundTrip,
     CT_DecryptTamperedDataFails, CT_EncryptWithInvalidKeyFails, CT_HmacGenerateAndVerify,
     CT_HmacVerifyTamperedDataFails, CT_HashSHA256OutputSize, CT_HashDeterministic,
     CT_HashDifferentInputsDifferentOutputs, CT_VerifySignatureWithValidKey,
     CT_VerifySignatureWithInvalidKey]"

theorem crypto_tests_pass_in_any_order_witness:
  "list_all (\<lambda>(t, passed). passed \<or> by_chance t) (verdicts (crypto_test demo_rng) crypto_file (KeyStore_init, 0))"
  by (rule crypto_tests_pass_in_any_order) (simp add: crypto_file_def)

section \<open>Logging\<close>

datatype log_case =
    LT_InitLoggingDoesNotThrow | LT_ReturnsSameInstanceForSameCtxId | LT_DifferentCtxIdReturnsDifferentInstance
  | LT_InfoEnabledWhenLevelIsInfo | LT_DebugDisabledWhenLevelIsInfo | LT_AllEnabledWhenLevelIsVerbose

text \<open>A reference to a logger is its address.\<close>

fun log_test :: "log_case \<Rightarrow> LogRegistry \<Rightarrow> bool \<times> LogRegistry" where
  "log_test LT_InitLoggingDoesNotThrow reg =
     (True, snd (InitLogging ''TEST'' ''Test Application'' LogLevel.kDebug LogMode.kConsole reg))"
| "log_test LT_ReturnsSameInstanceForSameCtxId reg =
     (let (_, reg) = InitLogging ''TEST'' ''Test'' LogLevel.kVerbose LogMode.kConsole reg;
          (logger1, reg) = CreateLogger ''CTX1'' ''Context 1'' LogLevel.kVerbose reg;
          (logger2, reg) = CreateLogger ''CTX1'' ''Context 1'' LogLevel.kVerbose reg
      in (logger1 = logger2, reg))"
| "log_test LT_DifferentCtxIdReturnsDifferentInstance reg =
     (let (_, reg) = InitLogging ''TEST'' ''Test'' LogLevel.kVerbose LogMode.kConsole reg;
          (loggerA, reg) = CreateLogger ''CTXA'' ''Context A'' LogLevel.kVerbose reg;
          (loggerB, reg) = CreateLogger ''CTXB'' ''Context B'' LogLevel.kVerbose reg
      in (loggerA \<noteq> loggerB, reg))"
| "log_test LT_InfoEnabledWhenLevelIsInfo reg =
     (let logger = Logger_ctor ''ENAB'' ''enable test'' LogLevel.kInfo
      in (IsEnabled LogLevel.kInfo logger \<and> IsEnabled LogLevel.kError logger \<and>
            IsEnabled LogLevel.kFatal logger, reg))"
| "log_test LT_DebugDisabledWhenLevelIsInfo reg =
     (let logger = Logger_ctor ''DISB'' ''disable test'' LogLevel.kInfo
      in (\<not> IsEnabled LogLevel.kDebug logger \<and> \<not> IsEnabled LogLevel.kVerbose logger, reg))"
| "log_test LT_AllEnabledWhenLevelIsVerbose reg =
     (let logger = Logger_ctor ''VERB'' ''verbose test'' LogLevel.kVerbose
      in (IsEnabled LogLevel.kFatal logger \<and> IsEnabled LogLevel.kVerbose logger, reg))"

lemma CreateLogger_ok:
  assumes "registry_ok reg" and "CreateLogger c d l reg = (i, reg')"
  shows "registry_ok reg'" and "um_find (lr_registry reg') c = Some i"
    and "c' \<noteq> c \<Longrightarrow> um_find (lr_registry reg') c' = um_find (lr_registry reg) c'"
  using registry_ok_step [OF assms(1), of "LogCreate c d l"] assms(2)
  by (auto simp: CreateLogger_def Let_def um_simps split: option.splits)

lemma loggers_differ:
  "registry_ok reg \<Longrightarrow> um_find (lr_registry reg) c = Some i \<Longrightarrow> um_find (lr_registry reg) c' = Some j \<Longrightarrow>
   c \<noteq> c' \<Longrightarrow> i \<noteq> j"
  by (auto simp: registry_ok_def)

interpretation log_suite: independent_suite log_test registry_ok
proof
  fix reg t
  assume ok: "registry_ok reg"
  have init: "registry_ok (snd (InitLogging a d l m reg))" for a d l m
    using registry_ok_step [OF ok, of "LogInit a d l m"] by simp
  have two: "registry_ok reg2 \<and> (c = c' \<longleftrightarrow> i = j)"
    if "CreateLogger c d l (snd (InitLogging a d0 l0 m reg)) = (i, reg1)" "CreateLogger c' d' l' reg1 = (j, reg2)"
    for a d0 l0 m c c' d d' l l' i j reg1 reg2
  proof -
    note one = CreateLogger_ok [OF init that(1)]
    note two = CreateLogger_ok [OF one(1) that(2)]
    show ?thesis
    proof (cases "c = c'")
      case True
      with that(2) one(2) two(1) show ?thesis by (simp add: CreateLogger_def)
    next
      case False
      with loggers_differ [OF two(1), of c i c' j] one two show ?thesis by simp
    qed
  qed
  note both = two [OF prod.collapse [symmetric] prod.collapse [symmetric]]
  note eval = Let_def case_prod_beta Logger_ctor_def IsEnabled_def less_eq_LogLevel_def
  show "fst (log_test t reg)"
    by (cases t) (simp_all add: eval flip: both [THEN conjunct2])
  show "registry_ok (snd (log_test t reg))"
    by (cases t) (simp_all add: eval both init ok)
qed

lemma log_tests_pass_in_any_order: "all_pass log_test ts LogRegistry_init"
  by (rule log_suite.any_order) (simp add: registry_ok_def LogRegistry_init_def um_simps)

section \<open>Tests without a singleton\<close>

text \<open>The tests of the execution client, of identifiers, of proxies and of skeletons, in file order.\<close>

definition exec_tests :: "bool list" where
  "exec_tests = [snd (ReportExecutionState kRunning) = ExecErrc.kSuccess,
     list_all (\<lambda>i. snd (ReportExecutionState kRunning) = ExecErrc.kSuccess) [0..<5]]"

definition identifier_tests :: "bool list" where
  "identifier_tests =
     [GetValue (InstanceIdentifier ''service_instance_1'') = ''service_instance_1'',
      InstanceIdentifier ''instance_A'' = InstanceIdentifier ''instance_A'' \<and>
        InstanceIdentifier ''instance_A'' \<noteq> InstanceIdentifier ''instance_B'',
      GetValue (InstanceIdentifier []) = []]"

definition proxy_tests :: "bool list" where
  "proxy_tests =
     [GetValue (GetInstanceId (ProxyBase_ctor (InstanceIdentifier ''proxy_instance''))) = ''proxy_instance'']"

definition skeleton_tests :: "bool list" where
  "skeleton_tests =
     [\<not> IsOffered (SkeletonBase_ctor (InstanceIdentifier ''skeleton_instance'')),
      IsOffered (Skeleton_OfferService (SkeletonBase_ctor (InstanceIdentifier ''skeleton_offer''))),
      \<not> IsOffered (Skeleton_StopOfferService (Skeleton_OfferService
          (SkeletonBase_ctor (InstanceIdentifier ''skeleton_stop'')))),
      GetValue (Skeleton_GetInstanceId (SkeletonBase_ctor (InstanceIdentifier ''skel_id_test''))) = ''skel_id_test'']"

text \<open>The numbers of the diagnostic enumerators.\<close>

definition diag_tests :: "bool list" where
  "diag_tests =
     [map session_u8 [kDefaultSession, kProgrammingSession, kExtendedDiagnosticSession] = [0x01, 0x02, 0x03],
      map dtc_u8 [kTestFailed, kTestFailedThisMonitoringCycle, kPendingDTC, kConfirmedDTC,
        kTestNotCompletedSinceLastClear, kTestFailedSinceLastClear, kTestNotCompletedThisMonitoringCycle,
        kWarningIndicatorRequested] = [0x01, 0x02, 0x04, 0x08, 0x10, 0x20, 0x40, 0x80],
      map diagerrc_u8 [DiagErrc.kSuccess, kConditionsNotCorrect, kRequestOutOfRange, kSecurityAccessDenied,
        kGeneralProgrammingFailure] = [0x00, 0x22, 0x31, 0x33, 0x72],
      map monitor_u8 [kPassed, kFailed, kPrepassed, kPrefailed] = [0x00, 0x01, 0x02, 0x03]]"

lemma stateless_tests_pass:
  "list_all (\<lambda>passed. passed) (exec_tests @ identifier_tests @ proxy_tests @ skeleton_tests @ diag_tests)"
  by code_simp

end
