(* ===== verification/SafetyRaces.thy ===== *)
theory SafetyRaces
  imports SafetyMonitor
begin

text \<open>
  \<open>SafetyMonitorServiceSWC::EscalateSafetyLevel\<close> and \<open>ExecuteSafetyAction\<close> (SafetyMonitorService.cpp)
  statement by statement. No mutex protects them: the load of the atomic level, the store, every call
  on state management and the callback are steps of their own, and two threads can be inside, the one
  of \<open>Run\<close> by a periodic check and the one that calls \<open>Shutdown\<close>. Other clients of the singletons act
  between any two steps. The callback is registered before and not replaced.
\<close>

section \<open>The steps\<close>

datatype esc_thread = Checker | Stopper

text \<open>
  Where a call is: none in progress; the level has been loaded; the new level has been stored and
  that many statements of the action have run, with the function groups looked up so far.
\<close>

datatype esc_pc =
    EscIdle
  | EscLoaded SafetyLevel string SafetyLevel
  | EscActs SafetyLevel string nat "fg_ptr list"

record races =
  rc_level :: SafetyLevel
  rc_pf :: Platform
  rc_callback :: "callback option"
  rc_calls :: level_calls
  rc_pc :: "esc_thread \<Rightarrow> esc_pc"
  rc_done :: "SafetyLevel list"

text \<open>\<open>rc_done\<close> records the levels whose escalation has returned.\<close>

definition races_start :: "callback option \<Rightarrow> races" where
  "races_start cb = \<lparr>rc_level = kLevel0_Normal, rc_pf = Platform_start, rc_callback = cb, rc_calls = [],
     rc_pc = (\<lambda>_. EscIdle), rc_done = []\<rparr>"

text \<open>The statement of the action with that number, if there is one: each is one call on state management.\<close>

definition action_step :: "SafetyLevel \<Rightarrow> nat \<Rightarrow> fg_ptr list \<Rightarrow> Platform \<Rightarrow> (fg_ptr list \<times> Platform) option" where
  "action_step level n ptrs pf =
     (case level of
        kLevel1_Degraded \<Rightarrow>
          if n = 0 then Some ([GetFunctionGroup ''Infotainment'' (pf_sm pf)], pf)
          else if n = 1 then Some (ptrs, request_group (ptrs ! 0) FunctionGroupState.kOff pf)
          else None
      | kLevel2_MinRisk \<Rightarrow>
          if n = 0 then Some ([GetFunctionGroup ''Infotainment'' (pf_sm pf)], pf)
          else if n = 1 then Some (ptrs @ [GetFunctionGroup ''OTA'' (pf_sm pf)], pf)
          else if n = 2 then Some (ptrs, request_group (ptrs ! 0) FunctionGroupState.kOff pf)
          else if n = 3 then Some (ptrs, request_group (ptrs ! 1) FunctionGroupState.kOff pf)
          else if n = 4 then Some (ptrs, request_machine MachineState.kParked pf)
          else None
      | kLevel0_Normal \<Rightarrow> None
      | _ \<Rightarrow>
          if n = 0 then Some (ptrs, trigger_error (''Safety level '' @ level_digit level) pf)
          else if n = 1 then Some (ptrs, request_machine MachineState.kShutdown pf)
          else None)"

definition escalation_step :: "esc_thread \<Rightarrow> races \<Rightarrow> races" where
  "escalation_step t s =
     (case rc_pc s t of
        EscIdle \<Rightarrow> s
      | EscLoaded newLevel reason current \<Rightarrow>
          if safety_u8 newLevel \<le> safety_u8 current then s\<lparr>rc_pc := (rc_pc s)(t := EscIdle)\<rparr>
          else s\<lparr>rc_level := newLevel, rc_pc := (rc_pc s)(t := EscActs newLevel reason 0 [])\<rparr>
      | EscActs newLevel reason n ptrs \<Rightarrow>
          (case action_step newLevel n ptrs (rc_pf s) of
             Some (ptrs', pf) \<Rightarrow> s\<lparr>rc_pf := pf, rc_pc := (rc_pc s)(t := EscActs newLevel reason (Suc n) ptrs')\<rparr>
           | None \<Rightarrow> s\<lparr>rc_calls := rc_calls s @ invoke (rc_callback s) (newLevel, reason),
                      rc_pc := (rc_pc s)(t := EscIdle), rc_done := rc_done s @ [newLevel]\<rparr>))"

datatype client = ClMachine MachineState | ClError string | ClPhm phm_op | ClSmInitialize

fun client_step :: "client \<Rightarrow> Platform \<Rightarrow> Platform" where
  "client_step (ClMachine t) pf = request_machine t pf"
| "client_step (ClError r) pf = trigger_error r pf"
| "client_step (ClPhm op) pf = on_phm (\<lambda>p. phm_step p op) pf"
| "client_step ClSmInitialize pf = initialize_sm pf"

text \<open>A call begins with the load; a thread inside a call begins no other.\<close>

datatype race_event = Begins esc_thread SafetyLevel string | Runs esc_thread | Client client

fun race_step :: "races \<Rightarrow> race_event \<Rightarrow> races" where
  "race_step s (Begins t newLevel reason) =
     (if rc_pc s t = EscIdle then s\<lparr>rc_pc := (rc_pc s)(t := EscLoaded newLevel reason (rc_level s))\<rparr> else s)"
| "race_step s (Runs t) = escalation_step t s"
| "race_step s (Client c) = s\<lparr>rc_pf := client_step c (rc_pf s)\<rparr>"

section \<open>A call that nobody disturbs\<close>

abbreviation finish :: "esc_thread \<Rightarrow> race_event list" where
  "finish t \<equiv> replicate 7 (Runs t)"

lemma seven: "replicate 7 x = [x, x, x, x, x, x, x]"
  by (simp add: eval_nat_numeral)

lemma stop_level_cases:
  assumes "l = kLevel3_SafeStop \<or> l = kLevel4_Emergency"
  shows "action_step l n ptrs pf =
    (if n = 0 then Some (ptrs, trigger_error (''Safety level '' @ level_digit l) pf)
     else if n = 1 then Some (ptrs, request_machine MachineState.kShutdown pf) else None)"
  using assms by (auto simp: action_step_def)

lemma finish_action:
  assumes "rc_pc s t = EscActs l r 0 []"
  shows "run race_step s (replicate 6 (Runs t)) =
    s\<lparr>rc_pf := ExecuteSafetyAction l (rc_pf s), rc_calls := rc_calls s @ invoke (rc_callback s) (l, r),
      rc_pc := (rc_pc s)(t := EscIdle), rc_done := rc_done s @ [l]\<rparr>"
proof -
  have six: "replicate 6 (Runs t) = [Runs t, Runs t, Runs t, Runs t, Runs t, Runs t]"
    by (simp add: eval_nat_numeral)
  show ?thesis
    using assms unfolding six
    by (cases l) (simp_all add: escalation_step_def action_step_def ExecuteSafetyAction_def Let_def)
qed

lemma finish_loaded:
  assumes "rc_pc s t = EscLoaded l r current"
  shows "run race_step s (finish t) =
    (if l \<le> current then s\<lparr>rc_pc := (rc_pc s)(t := EscIdle)\<rparr>
     else s\<lparr>rc_level := l, rc_pf := ExecuteSafetyAction l (rc_pf s),
       rc_calls := rc_calls s @ invoke (rc_callback s) (l, r),
       rc_pc := (rc_pc s)(t := EscIdle), rc_done := rc_done s @ [l]\<rparr>)"
proof (cases "l \<le> current")
  case True
  have idle: "run race_step u (replicate k (Runs t)) = u" if "rc_pc u t = EscIdle" for u k
    using that by (induction k) (simp_all add: escalation_step_def)
  have "run race_step s (finish t) = run race_step (escalation_step t s) (replicate 6 (Runs t))"
    by (simp add: eval_nat_numeral)
  with True assms idle show ?thesis by (simp add: escalation_step_def safety_le_iff)
next
  case False
  have "run race_step s (finish t) = run race_step (escalation_step t s) (replicate 6 (Runs t))"
    by (simp add: eval_nat_numeral)
  with False assms show ?thesis by (simp add: escalation_step_def safety_le_iff finish_action)
qed

text \<open>Undisturbed, the steps are \<open>EscalateSafetyLevel\<close>.\<close>

lemma escalation_alone:
  assumes "rc_pc s t = EscIdle" and "rc_level s = sf_currentLevel sf" and "rc_callback s = sf_safetyLevelCallback sf"
    and "run race_step s (Begins t l r # finish t) = s'"
  shows "EscalateSafetyLevel l r (sf, rc_pf s, rc_calls s) =
    (sf\<lparr>sf_currentLevel := rc_level s'\<rparr>, rc_pf s', rc_calls s')"
  using assms finish_loaded [of "race_step s (Begins t l r)" t l r "rc_level s"]
  by (auto simp: Escalate_cases)

section \<open>Calls that overlap\<close>

text \<open>
  C31: two escalations that overlap can lose the higher level. Whatever the state of the singletons,
  when two threads call \<open>EscalateSafetyLevel\<close> and both load the level before either has stored its
  own, the one with the lower level can store last: then both calls return, the monitor is left at
  the lower of the two levels, and the callback is told the higher level first and then the lower.
\<close>

theorem overlapping_escalations_lose_level:
  assumes "rc_pc s = (\<lambda>_. EscIdle)" and "rc_level s < l" and "l < l'" and "t \<noteq> t'"
  shows "let s' = run race_step s ([Begins t l r, Begins t' l' r'] @ finish t' @ finish t) in
    rc_pc s' = (\<lambda>_. EscIdle) \<and> rc_level s' = l \<and> rc_done s' = rc_done s @ [l', l] \<and>
    rc_calls s' = rc_calls s @ invoke (rc_callback s) (l', r') @ invoke (rc_callback s) (l, r)"
proof -
  let ?s1 = "run race_step s [Begins t l r, Begins t' l' r']"
  have pc: "rc_pc ?s1 t = EscLoaded l r (rc_level s)" "rc_pc ?s1 t' = EscLoaded l' r' (rc_level s)"
    "rc_level ?s1 = rc_level s" "rc_calls ?s1 = rc_calls s" "rc_callback ?s1 = rc_callback s" "rc_done ?s1 = rc_done s"
    using assms by simp_all
  have idle: "(rc_pc ?s1)(t' := EscIdle, t := EscIdle) = (\<lambda>_. EscIdle)"
    using assms by (auto simp: fun_eq_iff)
  let ?s2 = "run race_step ?s1 (finish t')"
  have up: "\<not> l \<le> rc_level s" "\<not> l' \<le> rc_level s" using assms by auto
  have s2: "rc_pc ?s2 = (rc_pc ?s1)(t' := EscIdle)" "rc_calls ?s2 = rc_calls s @ invoke (rc_callback s) (l', r')"
    "rc_callback ?s2 = rc_callback s" "rc_done ?s2 = rc_done s @ [l']"
    using finish_loaded [OF pc(2)] up pc by simp_all
  then have "rc_pc ?s2 t = EscLoaded l r (rc_level s)" using pc(1) assms(4) by simp
  from finish_loaded [OF this] up s2 idle show ?thesis
    by (simp only: run_append Let_def) simp
qed

definition busy_monitor :: races where
  "busy_monitor = run race_step (races_start (Some 5)) [Client ClSmInitialize, Client (ClMachine MachineState.kDriving)]"

theorem overlapping_escalations_lose_level_witness:
  "let s = run race_step busy_monitor
      ([Begins Stopper kLevel3_SafeStop ''Planned shutdown'', Begins Checker kLevel4_Emergency ''MCU ASIL-D violation''] @
        finish Checker @ finish Stopper)
   in rc_level s = kLevel3_SafeStop \<and> call_levels (rc_calls s) = [kLevel4_Emergency, kLevel3_SafeStop]"
proof -
  have start: "rc_pc busy_monitor = (\<lambda>_. EscIdle)" "rc_level busy_monitor = kLevel0_Normal"
    "rc_calls busy_monitor = []" "rc_callback busy_monitor = Some 5"
    by (simp_all add: busy_monitor_def races_start_def)
  have "kLevel0_Normal < kLevel3_SafeStop" "kLevel3_SafeStop < kLevel4_Emergency"
    by (simp_all add: less_SafetyLevel_def)
  with overlapping_escalations_lose_level [of busy_monitor kLevel3_SafeStop kLevel4_Emergency Stopper Checker
      "''Planned shutdown''" "''MCU ASIL-D violation''"] start
  show ?thesis by (simp add: Let_def call_levels_def del: run.simps)
qed

section \<open>What holds however calls overlap\<close>

text \<open>Once the first call of a stopping action has been made, the machine is in a final state.\<close>

fun has_stopped :: "esc_pc \<Rightarrow> bool" where
  "has_stopped (EscActs l r n ptrs) \<longleftrightarrow> kLevel3_SafeStop \<le> l \<and> n \<noteq> 0"
| "has_stopped _ \<longleftrightarrow> False"

definition stop_inv :: "races \<Rightarrow> bool" where
  "stop_inv s \<longleftrightarrow>
     (list_ex (\<lambda>l. kLevel3_SafeStop \<le> l) (rc_done s) \<or> has_stopped (rc_pc s Checker) \<or> has_stopped (rc_pc s Stopper)
       \<longrightarrow> is_terminal (machine_state (rc_pf s)))"

lemma stop_inv_iff:
  "stop_inv s \<longleftrightarrow> (list_ex (\<lambda>l. kLevel3_SafeStop \<le> l) (rc_done s) \<or> (\<exists>t. has_stopped (rc_pc s t))
     \<longrightarrow> is_terminal (machine_state (rc_pf s)))"
  unfolding stop_inv_def by (metis esc_thread.exhaust)

lemma request_machine_terminal:
  "is_terminal (machine_state pf) \<Longrightarrow> is_terminal (machine_state (request_machine t pf))"
  by (auto simp: machine_after_request intro: sm_edge_terminal)

lemma trigger_error_terminal: "is_terminal (machine_state (trigger_error r pf))"
  by (simp add: machine_after_trigger is_terminal_def)

lemma client_step_terminal: "is_terminal (machine_state pf) \<Longrightarrow> is_terminal (machine_state (client_step c pf))"
  by (cases c) (simp_all add: request_machine_terminal trigger_error_terminal)

lemma action_step_terminal:
  assumes "action_step l n ptrs pf = Some (ptrs', pf')"
  shows "is_terminal (machine_state pf) \<or> kLevel3_SafeStop \<le> l \<and> n = 0 \<Longrightarrow> is_terminal (machine_state pf')"
  using assms
  by (cases l) (auto simp: action_step_def request_machine_terminal trigger_error_terminal
      less_eq_SafetyLevel_def word_le_nat_alt split: if_splits)

lemma action_of_stop: "kLevel3_SafeStop \<le> l \<Longrightarrow> action_step l 0 ptrs pf \<noteq> None"
  by (cases l) (simp_all add: action_step_def less_eq_SafetyLevel_def word_le_nat_alt)

lemma escalation_step_stop:
  assumes "stop_inv s"
  shows "stop_inv (escalation_step t s)"
proof (cases "rc_pc s t")
  case (EscActs l r n ptrs)
  show ?thesis
  proof (cases "action_step l n ptrs (rc_pf s)")
    case None
    then have "kLevel3_SafeStop \<le> l \<Longrightarrow> has_stopped (rc_pc s t)"
      using action_of_stop [of l ptrs "rc_pf s"] by (cases n) (simp_all add: EscActs)
    then have "is_terminal (machine_state (rc_pf s))" if "kLevel3_SafeStop \<le> l"
      using assms that by (auto simp: stop_inv_iff)
    with assms None EscActs show ?thesis
      by (auto simp: stop_inv_iff escalation_step_def split: if_splits)
  next
    case (Some r')
    obtain ptrs' pf' where r': "r' = (ptrs', pf')" by (cases r')
    note terminal = action_step_terminal [OF Some [unfolded r']]
    show ?thesis
    proof (cases "is_terminal (machine_state (rc_pf s)) \<or> kLevel3_SafeStop \<le> l \<and> n = 0")
      case True
      with terminal Some r' EscActs show ?thesis by (simp add: stop_inv_iff escalation_step_def)
    next
      case False
      with assms have "\<not> list_ex (\<lambda>l. kLevel3_SafeStop \<le> l) (rc_done s)" "\<not> has_stopped (rc_pc s t')" for t'
        by (auto simp: stop_inv_iff)
      moreover from this(2) [of t] False have "\<not> kLevel3_SafeStop \<le> l" by (auto simp: EscActs)
      ultimately show ?thesis using Some r' EscActs by (simp add: stop_inv_iff escalation_step_def)
    qed
  qed
qed (use assms in \<open>auto simp: stop_inv_iff escalation_step_def split: if_splits\<close>)

interpretation stopping: invariant_step race_step stop_inv
proof
  fix s e
  assume inv: "stop_inv s"
  show "stop_inv (race_step s e)"
  proof (cases e)
    case (Begins t l r)
    with inv show ?thesis by (auto simp: stop_inv_iff split: if_splits)
  next
    case (Client c)
    with inv show ?thesis by (auto simp: stop_inv_iff client_step_terminal)
  qed (simp add: escalation_step_stop inv)
qed

text \<open>
  C14: a safe stop is final, however escalations overlap. Whatever two threads and other clients do,
  statement by statement in any order, once a call that escalated to safe stop or emergency has
  returned, the machine is in a final state, shut down or in error, and it stays in one.
\<close>

theorem safe_stop_is_final:
  "let s = run race_step (races_start cb) evs in
   list_all (\<lambda>l. l < kLevel3_SafeStop) (rc_done s) \<or> is_terminal (machine_state (rc_pf (run race_step s later)))"
proof -
  have done_grows: "\<exists>ls. rc_done (race_step s e) = rc_done s @ ls" for s e
    by (cases e) (auto simp: escalation_step_def split: esc_pc.split option.split)
  have grows: "\<exists>ls. rc_done (run race_step s es) = rc_done s @ ls" for s es
  proof (induction es arbitrary: s)
    case (Cons e es)
    obtain l1 where "rc_done (race_step s e) = rc_done s @ l1" using done_grows by blast
    moreover obtain l2 where "rc_done (run race_step (race_step s e) es) = rc_done (race_step s e) @ l2"
      using Cons by blast
    ultimately show ?case by simp
  qed simp
  have "stop_inv (races_start cb)" by (simp add: stop_inv_def races_start_def)
  then have "stop_inv (run race_step (races_start cb) (evs @ later))" by (rule stopping.run_inv)
  moreover obtain ls where "rc_done (run race_step (run race_step (races_start cb) evs) later) =
      rc_done (run race_step (races_start cb) evs) @ ls"
    using grows by blast
  ultimately show ?thesis
    by (auto simp: stop_inv_def run_append Let_def list_ex_iff list_all_iff not_less)
qed

section \<open>What holds while no two calls overlap\<close>

fun exclusive :: "races \<Rightarrow> race_event list \<Rightarrow> bool" where
  "exclusive s [] \<longleftrightarrow> True"
| "exclusive s (e # es) \<longleftrightarrow>
     (case e of Begins t l r \<Rightarrow> rc_pc s Checker = EscIdle \<and> rc_pc s Stopper = EscIdle | _ \<Rightarrow> True) \<and>
     exclusive (race_step s e) es"

fun demands :: "race_event list \<Rightarrow> SafetyLevel list" where
  "demands [] = []"
| "demands (Begins t l r # es) = l # demands es"
| "demands (_ # es) = demands es"

definition others_idle :: "races \<Rightarrow> esc_thread \<Rightarrow> bool" where
  "others_idle s t \<longleftrightarrow> (case t of Checker \<Rightarrow> rc_pc s Stopper = EscIdle | Stopper \<Rightarrow> rc_pc s Checker = EscIdle)"

text \<open>The highest level demanded is the one the call in progress is about to establish.\<close>

fun solo :: "races \<Rightarrow> SafetyLevel \<Rightarrow> esc_pc \<Rightarrow> bool" where
  "solo s peak EscIdle \<longleftrightarrow> rc_level s = peak \<and> list_all (\<lambda>l. l \<le> peak) (call_levels (rc_calls s))"
| "solo s peak (EscLoaded l r current) \<longleftrightarrow> current = rc_level s \<and> peak = max (rc_level s) l \<and>
     list_all (\<lambda>l. l \<le> rc_level s) (call_levels (rc_calls s))"
| "solo s peak (EscActs l r n ptrs) \<longleftrightarrow> rc_level s = l \<and> peak = l \<and> list_all (\<lambda>l'. l' < l) (call_levels (rc_calls s))"

definition solo_inv :: "races \<Rightarrow> SafetyLevel \<Rightarrow> bool" where
  "solo_inv s peak \<longleftrightarrow> sorted_wrt (<) (call_levels (rc_calls s)) \<and>
     (\<exists>t. (\<forall>t'. t' \<noteq> t \<longrightarrow> rc_pc s t' = EscIdle) \<and> solo s peak (rc_pc s t))"

lemma solo_level: "solo s peak pc \<Longrightarrow> rc_level s \<le> peak \<and> list_all (\<lambda>l. l \<le> rc_level s) (call_levels (rc_calls s))"
  by (cases pc) (auto simp: list_all_iff)

lemma call_levels_snoc [simp]:
  "call_levels (calls @ invoke cb (l, r)) = call_levels calls @ (if cb = None then [] else [l])"
  by (cases cb) (simp_all add: call_levels_def)

lemma solo_runs:
  assumes "solo_inv s peak"
  shows "solo_inv (escalation_step u s) peak"
proof -
  obtain t where idle: "\<And>t'. t' \<noteq> t \<Longrightarrow> rc_pc s t' = EscIdle" and solo: "solo s peak (rc_pc s t)"
    using assms by (auto simp: solo_inv_def)
  have sorted: "sorted_wrt (<) (call_levels (rc_calls s))" using assms by (simp add: solo_inv_def)
  show ?thesis
  proof (cases "u = t")
    case False
    with idle assms show ?thesis by (simp add: escalation_step_def)
  next
    case True
    let ?s = "escalation_step t s"
    have "rc_pc ?s t' = EscIdle" if "t' \<noteq> t" for t'
      using idle [OF that] that by (simp add: escalation_step_def split: esc_pc.split option.split)
    moreover have "solo ?s peak (rc_pc ?s t) \<and> sorted_wrt (<) (call_levels (rc_calls ?s))"
    proof (cases "rc_pc s t")
      case (EscLoaded l r current)
      with solo sorted show ?thesis
        by (auto simp: escalation_step_def safety_le_iff max_def list_all_iff intro: le_less_trans)
    next
      case (EscActs l r n ptrs)
      with solo sorted show ?thesis
        by (auto simp: escalation_step_def list_all_iff sorted_wrt_append intro: less_imp_le split: option.split)
    qed (use solo sorted in \<open>simp add: escalation_step_def\<close>)
    ultimately show ?thesis using True by (auto simp: solo_inv_def)
  qed
qed

lemma solo_run:
  "solo_inv s peak \<Longrightarrow> exclusive s evs \<Longrightarrow> solo_inv (run race_step s evs) (foldl max peak (demands evs))"
proof (induction evs arbitrary: s peak)
  case (Cons e evs)
  show ?case
  proof (cases e)
    case (Begins t l r)
    with Cons.prems have idle: "rc_pc s t' = EscIdle" for t' by (cases t') simp_all
    then have "solo_inv (race_step s e) (max peak l)"
      using Cons.prems(1) by (auto simp: Begins solo_inv_def intro!: exI [of _ t])
    with Cons Begins show ?thesis by simp
  next
    case (Runs t)
    with Cons solo_runs [of s peak t] show ?thesis by simp
  next
    case (Client c)
    have "solo (s\<lparr>rc_pf := pf\<rparr>) peak pc = solo s peak pc" for pf pc by (cases pc) simp_all
    then have "solo_inv (race_step s e) peak" using Cons.prems(1) by (simp add: Client solo_inv_def)
    with Cons Client show ?thesis by simp
  qed
qed simp

text \<open>
  C12: while no two escalations overlap, levels only rise, even when other clients act between any
  two of their statements. When every call begins after the one before it has returned, the levels
  that the callback is told strictly increase and do not exceed the present level, and whenever no
  call is in progress the level is the highest that was ever demanded.
\<close>

theorem levels_rise_without_overlap:
  assumes "exclusive (races_start cb) evs"
  shows "let s = run race_step (races_start cb) evs in
    sorted_wrt (<) (call_levels (rc_calls s)) \<and> list_all (\<lambda>l. l \<le> rc_level s) (call_levels (rc_calls s)) \<and>
    rc_level s \<le> foldl max kLevel0_Normal (demands evs) \<and>
    (rc_pc s = (\<lambda>_. EscIdle) \<longrightarrow> rc_level s = foldl max kLevel0_Normal (demands evs))"
proof -
  have "solo_inv (races_start cb) kLevel0_Normal"
    by (simp add: solo_inv_def races_start_def call_levels_def)
  from solo_run [OF this assms] show ?thesis
    using solo_level by (fastforce simp: solo_inv_def Let_def)
qed

theorem levels_rise_without_overlap_witness:
  "let s = run race_step (races_start (Some 5))
      ([Begins Checker kLevel2_MinRisk ''MCU safety escalation'', Runs Checker, Client (ClMachine MachineState.kDriving)] @
        finish Checker @ [Begins Stopper kLevel3_SafeStop ''Planned shutdown''] @ finish Stopper)
   in sorted_wrt (<) (call_levels (rc_calls s)) \<and> length (rc_calls s) = 2"
proof -
  let ?evs = "[Begins Checker kLevel2_MinRisk ''MCU safety escalation'', Runs Checker, Client (ClMachine MachineState.kDriving)] @
        finish Checker @ [Begins Stopper kLevel3_SafeStop ''Planned shutdown''] @ finish Stopper"
  have "exclusive (races_start (Some 5)) ?evs" by code_simp
  moreover have "length (rc_calls (run race_step (races_start (Some 5)) ?evs)) = 2" by code_simp
  ultimately show ?thesis using levels_rise_without_overlap [of "Some 5" ?evs] by (simp only: Let_def)
qed

end
