(* ===== verification/AppThreads.thy ===== *)
theory AppThreads
  imports MainApp
begin

text \<open>
  The two threads of the application, access by access: the main thread, which runs
  \<open>VehicleSignalSwc::Start\<close>, the periodic function and \<open>Stop\<close> with the destructor of the proxy
  (vehicle_signal_swc.cpp, vehicle_signal_proxy.cpp), and the receive thread \<open>RxThreadFunc\<close>, which the
  constructor of the proxy starts before \<open>Start\<close> has subscribed the event. A critical section, an
  access to \<open>running_\<close> or \<open>sockFd_\<close> and a system call are one step each, with the printing that follows;
  \<open>sockFd_\<close> is a plain \<open>int\<close> that both threads access. Datagrams wait in the socket until the receive
  thread takes them. One step stands for two accesses in two places: \<open>Subscribe\<close> stores the number of
  samples before the state, and the other thread reads it only after it has seen the state;
  the periodic function reads the statistics and the last values under two mutexes and writes neither.
\<close>

section \<open>State\<close>

text \<open>
  What the main thread does next: construct the proxy, subscribe, set the handler; the loop; and in
  \<open>Stop\<close> unsubscribe, then in the destructor store \<open>running_\<close>, test \<open>sockFd_\<close>, shut down and close the
  socket, store -1 in \<open>sockFd_\<close>, join the receive thread; nothing.
\<close>

datatype main_pc =
    AtFind | AtSubscribe | AtHandler | InLoop | AtUnsubscribe | AtStore | AtTest | AtClose | AtForget | AtJoin | AtEnd

text \<open>
  What the receive thread does next: read \<open>running_\<close>, test \<open>sockFd_\<close>, \<open>FD_SET\<close>, \<open>select\<close>, \<open>recv\<close>, count
  the packet, parse it, run the handler for what was pushed, count a rejected frame. It does not exist
  yet or has returned.
\<close>

datatype rx_pc =
    RxNone | RxLoop | RxTest | RxSet | RxSelect | RxRecv | RxCount "u8 list" | RxParse "u8 list"
  | RxHandle "(callback \<times> VehicleSignalSample) list" bool | RxReject | RxDone

record app =
  ap_swc :: VehicleSignalSwc
  ap_main :: main_pc
  ap_rx :: rx_pc
  ap_socket :: "u8 list list"
  ap_tick :: u32
  ap_lines :: "line list"

definition app_start :: app where
  "app_start = \<lparr>ap_swc = fst (VehicleSignalSwc_ctor LogRegistry_init), ap_main = AtFind, ap_rx = RxNone,
     ap_socket = [], ap_tick = 0, ap_lines = []\<rparr>"

definition app_print :: "line list \<Rightarrow> app \<Rightarrow> app" where
  "app_print ls s = s\<lparr>ap_lines := ap_lines s @ ls\<rparr>"

definition on_proxy :: "(VehicleSignalProxy \<Rightarrow> VehicleSignalProxy) \<Rightarrow> app \<Rightarrow> app" where
  "on_proxy f s = s\<lparr>ap_swc := (ap_swc s)\<lparr>sw_proxy := map_option f (sw_proxy (ap_swc s))\<rparr>\<rparr>"

section \<open>The main thread\<close>

text \<open>\<open>FindService\<close>: a proxy whose socket is bound comes with its receive thread.\<close>

definition main_find :: "int \<Rightarrow> int \<Rightarrow> app \<Rightarrow> app" where
  "main_find fd bound s =
     (let starting = [log_info [Txt ''[VehicleSignalSWC] Starting... FindService(0x1001)''] (ap_swc s)];
          swc = (ap_swc s)\<lparr>sw_proxy := FindService fd bound\<rparr>;
          s = s\<lparr>ap_swc := swc\<rparr>
      in if sw_proxy swc = None
         then (app_print (starting @ [log_error [Txt (''[VehicleSignalSWC] FindService failed '' @ em_dash @ '' socket bind error'')] swc,
                 SocLog LogLevel.kError ''FindService FAILED'' port_fields]) s)\<lparr>ap_main := InLoop\<rparr>
         else (app_print (starting @ [SocLog LogLevel.kInfo ''FindService OK'' port_fields]) s)
                \<lparr>ap_main := AtSubscribe, ap_rx := RxLoop\<rparr>)"

definition main_go :: "int \<Rightarrow> int \<Rightarrow> app \<Rightarrow> app" where
  "main_go fd bound s =
     (case ap_main s of
        AtFind \<Rightarrow> main_find fd bound s
      | AtSubscribe \<Rightarrow>
          (app_print [SocLog LogLevel.kInfo ''Subscribed to VehicleSignal Event'' port_fields]
             (on_proxy (\<lambda>p. p\<lparr>vp_VehicleSignal := Ev_Subscribe 32 (vp_VehicleSignal p)\<rparr>) s))\<lparr>ap_main := AtHandler\<rparr>
      | AtHandler \<Rightarrow>
          (app_print [log_info [Txt ''[VehicleSignalSWC] Subscribed to VehicleSignal Event (UDP 127.0.0.1:'',
              Num VEHICLE_SIGNAL_SVC_PORT, Txt '')''] (ap_swc s)]
             (on_proxy (\<lambda>p. p\<lparr>vp_VehicleSignal := SetReceiveHandler (Some own_handler) (vp_VehicleSignal p)\<rparr>) s))
             \<lparr>ap_main := InLoop\<rparr>
      | InLoop \<Rightarrow> (case MainFunction_100ms (ap_tick s) (ap_swc s) of (ls, tick) \<Rightarrow> app_print ls (s\<lparr>ap_tick := tick\<rparr>))
      | AtUnsubscribe \<Rightarrow>
          (on_proxy (\<lambda>p. p\<lparr>vp_VehicleSignal := Ev_Unsubscribe (vp_VehicleSignal p)\<rparr>) s)\<lparr>ap_main := AtStore\<rparr>
      | AtStore \<Rightarrow> (on_proxy (\<lambda>p. p\<lparr>vp_running := False\<rparr>) s)\<lparr>ap_main := AtTest\<rparr>
      | AtTest \<Rightarrow>
          (case sw_proxy (ap_swc s) of
             None \<Rightarrow> s
           | Some p \<Rightarrow> s\<lparr>ap_main := (if vp_sockFd p \<ge> 0 then AtClose else AtJoin)\<rparr>)
      | AtClose \<Rightarrow> s\<lparr>ap_socket := [], ap_main := AtForget\<rparr>
      | AtForget \<Rightarrow> (on_proxy (\<lambda>p. p\<lparr>vp_sockFd := - 1\<rparr>) s)\<lparr>ap_main := AtJoin\<rparr>
      | AtJoin \<Rightarrow>
          if ap_rx s \<noteq> RxDone then s
          else (case Swc_Stop (ap_swc s) of (ls, swc) \<Rightarrow> (app_print ls (s\<lparr>ap_swc := swc\<rparr>))\<lparr>ap_main := AtEnd\<rparr>)
      | AtEnd \<Rightarrow> s)"

text \<open>The loop of \<open>main\<close> ends after a signal, and \<open>Stop\<close> is called.\<close>

definition main_stop :: "app \<Rightarrow> app" where
  "main_stop s =
     (if ap_main s = InLoop
      then s\<lparr>ap_main := (if sw_proxy (ap_swc s) = None then AtEnd else AtUnsubscribe)\<rparr> else s)"

section \<open>The receive thread\<close>

text \<open>
  \<open>FD_SET\<close> writes into an array of 1024 bits. \<open>good\<close> is whether a system call succeeds: \<open>select\<close> then
  reports the socket, perhaps spuriously, and \<open>recv\<close> waits for a datagram, of which it takes the first
  1024 bytes; an empty one is skipped.
\<close>

definition FD_SETSIZE :: int where "FD_SETSIZE = 1024"

definition rx_go :: "bool \<Rightarrow> VehicleSignalProxy \<Rightarrow> app \<Rightarrow> app outcome" where
  "rx_go good p s =
     (case ap_rx s of
        RxNone \<Rightarrow> Inr s
      | RxLoop \<Rightarrow> Inr (s\<lparr>ap_rx := (if vp_running p then RxTest else RxDone)\<rparr>)
      | RxTest \<Rightarrow> Inr (s\<lparr>ap_rx := (if vp_sockFd p < 0 then RxDone else RxSet)\<rparr>)
      | RxSet \<Rightarrow> if 0 \<le> vp_sockFd p \<and> vp_sockFd p < FD_SETSIZE then Inr (s\<lparr>ap_rx := RxSelect\<rparr>) else Inl OutOfBounds
      | RxSelect \<Rightarrow> Inr (s\<lparr>ap_rx := (if good then RxRecv else RxLoop)\<rparr>)
      | RxRecv \<Rightarrow>
          (if \<not> good then Inr (s\<lparr>ap_rx := RxLoop\<rparr>)
           else case ap_socket s of
               [] \<Rightarrow> Inr s
             | d # ds \<Rightarrow> Inr (s\<lparr>ap_socket := ds, ap_rx := (if d = [] then RxLoop else RxCount (take 1024 d))\<rparr>))
      | RxCount buf \<Rightarrow>
          (let p = count_packet buf p
           in Inr ((app_print (raw_line (raw_record buf p)) (on_proxy (\<lambda>_. p) s))\<lparr>ap_rx := RxParse buf\<rparr>))
      | RxParse buf \<Rightarrow>
          obind (ParseAndDispatch buf p) (\<lambda>(good, calls, p).
            Inr ((on_proxy (\<lambda>_. p) s)\<lparr>ap_rx := RxHandle calls good\<rparr>))
      | RxHandle [] accepted \<Rightarrow> Inr (s\<lparr>ap_rx := (if accepted then RxLoop else RxReject)\<rparr>)
      | RxHandle ((cb, sample) # calls) accepted \<Rightarrow>
          (case on_sample sample (ap_swc s) of (ls, swc) \<Rightarrow>
             Inr ((app_print ls (s\<lparr>ap_swc := swc\<rparr>))\<lparr>ap_rx := RxHandle calls accepted\<rparr>))
      | RxReject \<Rightarrow> Inr ((on_proxy count_parse_error s)\<lparr>ap_rx := RxLoop\<rparr>)
      | RxDone \<Rightarrow> Inr s)"

section \<open>Schedules\<close>

text \<open>A datagram arrives while the socket is open; a thread goes on; the main thread leaves its loop.\<close>

datatype app_event = Arrives "u8 list" | MainGoes | MainStops | RxGoes bool

definition socket_open :: "app \<Rightarrow> bool" where
  "socket_open s \<longleftrightarrow> sw_proxy (ap_swc s) \<noteq> None \<and> \<not> (ap_main s = AtForget \<or> ap_main s = AtJoin)"

definition app_act :: "int \<Rightarrow> int \<Rightarrow> app_event \<Rightarrow> app \<Rightarrow> app outcome" where
  "app_act fd bound ev s =
     (case ev of
        Arrives d \<Rightarrow> Inr (if socket_open s then s\<lparr>ap_socket := ap_socket s @ [d]\<rparr> else s)
      | MainGoes \<Rightarrow> Inr (main_go fd bound s)
      | MainStops \<Rightarrow> Inr (main_stop s)
      | RxGoes good \<Rightarrow> (case sw_proxy (ap_swc s) of None \<Rightarrow> Inr s | Some p \<Rightarrow> rx_go good p s))"

definition app_step :: "int \<Rightarrow> int \<Rightarrow> app outcome \<Rightarrow> app_event \<Rightarrow> app outcome" where
  "app_step fd bound r ev = obind r (app_act fd bound ev)"

lemma app_step_simps [simp]:
  "app_step fd bound (Inr s) ev = app_act fd bound ev s" "app_step fd bound (Inl e) ev = Inl e"
  by (simp_all add: app_step_def)

abbreviation app_run :: "int \<Rightarrow> int \<Rightarrow> app \<Rightarrow> app_event list \<Rightarrow> app outcome" where
  "app_run fd bound s evs \<equiv> run (app_step fd bound) (Inr s) evs"

lemma run_Inl [simp]: "run (app_step fd bound) (Inl e) evs = Inl e"
  by (induction evs) simp_all

lemma app_run_Cons: "app_run fd bound s (ev # evs) = obind (app_act fd bound ev s) (\<lambda>s. app_run fd bound s evs)"
  by (cases "app_act fd bound ev s") simp_all

text \<open>Without the receive thread, the steps up to the loop are \<open>Swc_Start\<close>.\<close>

lemma start_alone:
  "case app_run fd bound app_start [MainGoes, MainGoes, MainGoes] of
     Inl _ \<Rightarrow> False
   | Inr s \<Rightarrow> ap_main s = InLoop \<and> ap_swc s = snd (Swc_Start fd bound (fst (VehicleSignalSwc_ctor LogRegistry_init))) \<and>
       (FindService fd bound = None \<or> ap_lines s = fst (Swc_Start fd bound (fst (VehicleSignalSwc_ctor LogRegistry_init))))"
proof (cases "FindService fd bound")
  case None
  then show ?thesis
    by (simp add: app_act_def main_go_def main_find_def app_start_def app_print_def Swc_Start_def
        MainFunction_100ms_def Let_def)
next
  case (Some p)
  then show ?thesis
    by (simp add: app_act_def main_go_def main_find_def app_start_def app_print_def Swc_Start_def on_proxy_def
        log_info_def Let_def)
qed

section \<open>Where a schedule can fault\<close>

text \<open>
  The socket's descriptor is the proxy's until the destructor has forgotten it, and the receive thread
  runs from the constructor until it sees \<open>running_\<close> or \<open>sockFd_\<close> changed.
\<close>

definition proxy_inv :: "int \<Rightarrow> main_pc \<Rightarrow> rx_pc \<Rightarrow> VehicleSignalProxy \<Rightarrow> bool" where
  "proxy_inv fd mpc rpc p \<longleftrightarrow>
     mpc \<notin> {AtFind, AtEnd} \<and> rpc \<noteq> RxNone \<and> 0 \<le> fd \<and> 0 < ev_maxSamples (vp_VehicleSignal p) \<and>
     vp_sockFd p = (if mpc = AtJoin then - 1 else fd) \<and>
     (vp_running p \<longleftrightarrow> mpc \<in> {AtSubscribe, AtHandler, InLoop, AtUnsubscribe, AtStore}) \<and>
     (rpc = RxDone \<longrightarrow> \<not> vp_running p) \<and> (mpc = InLoop \<longrightarrow> proxy_ready p) \<and>
     (mpc = AtHandler \<longrightarrow> ev_state (vp_VehicleSignal p) = SubscriptionState.kSubscribed \<and>
        ev_maxSamples (vp_VehicleSignal p) = 32)"

definition app_inv :: "int \<Rightarrow> app \<Rightarrow> bool" where
  "app_inv fd s \<longleftrightarrow>
     (case sw_proxy (ap_swc s) of
        None \<Rightarrow> ap_main s \<in> {AtFind, InLoop, AtEnd} \<and> ap_rx s \<in> {RxNone, RxDone}
      | Some p \<Rightarrow> proxy_inv fd (ap_main s) (ap_rx s) p)"

lemma app_print_fields [simp]:
  "ap_swc (app_print ls s) = ap_swc s" "ap_main (app_print ls s) = ap_main s" "ap_rx (app_print ls s) = ap_rx s"
  "ap_socket (app_print ls s) = ap_socket s" "ap_lines (app_print ls s) = ap_lines s @ ls"
  by (simp_all add: app_print_def)

lemma on_proxy_fields [simp]:
  "sw_proxy (ap_swc (on_proxy f s)) = map_option f (sw_proxy (ap_swc s))" "ap_main (on_proxy f s) = ap_main s"
  "ap_rx (on_proxy f s) = ap_rx s" "ap_socket (on_proxy f s) = ap_socket s" "ap_lines (on_proxy f s) = ap_lines s"
  "sw_samplesReceived (ap_swc (on_proxy f s)) = sw_samplesReceived (ap_swc s)"
  by (simp_all add: on_proxy_def)

lemma FindService_inv:
  "FindService fd bound = Some p \<Longrightarrow> proxy_inv fd AtSubscribe RxLoop p"
  by (auto simp: FindService_def VehicleSignalProxy_ctor_def VehicleSignalEvent_new_def proxy_inv_def Let_def
      split: if_splits)

lemma app_inv_start: "app_inv fd app_start"
  by (simp add: app_inv_def app_start_def VehicleSignalSwc_ctor_def case_prod_beta Let_def)

lemma main_go_inv:
  assumes "app_inv fd s"
  shows "app_inv fd (main_go fd bound s)"
proof (cases "sw_proxy (ap_swc s)")
  case None
  with assms show ?thesis
    by (cases "FindService fd bound")
      (auto simp: app_inv_def main_go_def main_find_def FindService_inv case_prod_beta Let_def)
next
  case (Some p)
  with assms show ?thesis
    by (cases "ap_main s")
      (auto simp: app_inv_def main_go_def proxy_inv_def proxy_ready_def Ev_Subscribe_def SetReceiveHandler_def
        Ev_Unsubscribe_def Swc_Stop_def case_prod_beta)
qed

lemma main_stop_inv: "app_inv fd s \<Longrightarrow> app_inv fd (main_stop s)"
  by (auto simp: app_inv_def main_stop_def proxy_inv_def split: option.splits)

lemma Parse_keeps:
  assumes "0 < ev_maxSamples (vp_VehicleSignal p)"
  obtains good calls p' where "ParseAndDispatch buf p = Inr (good, calls, p')"
    and "vp_sockFd p' = vp_sockFd p" "vp_running p' = vp_running p"
    and "ev_state (vp_VehicleSignal p') = ev_state (vp_VehicleSignal p)"
    and "ev_maxSamples (vp_VehicleSignal p') = ev_maxSamples (vp_VehicleSignal p)"
    and "ev_receiveHandler (vp_VehicleSignal p') = ev_receiveHandler (vp_VehicleSignal p)"
proof -
  have "case ParseAndDispatch buf p of Inl _ \<Rightarrow> False | Inr (_, _, p') \<Rightarrow>
      vp_sockFd p' = vp_sockFd p \<and> vp_running p' = vp_running p \<and>
      ev_state (vp_VehicleSignal p') = ev_state (vp_VehicleSignal p) \<and>
      ev_maxSamples (vp_VehicleSignal p') = ev_maxSamples (vp_VehicleSignal p) \<and>
      ev_receiveHandler (vp_VehicleSignal p') = ev_receiveHandler (vp_VehicleSignal p)"
    using assms by (auto simp: ParseAndDispatch_def PushSample_def Let_def split: list.split)
  then show thesis using that by (auto split: sum.splits)
qed

lemma rx_go_cases:
  assumes "app_inv fd s" and "sw_proxy (ap_swc s) = Some p"
  shows "case rx_go good p s of
      Inl e \<Rightarrow> e = OutOfBounds \<and> ap_rx s = RxSet \<and> (ap_main s = AtJoin \<or> FD_SETSIZE \<le> fd)
    | Inr s' \<Rightarrow> app_inv fd s' \<and> ap_main s' = ap_main s \<and>
        \<not> (ap_rx s = RxSet \<and> (ap_main s = AtJoin \<or> FD_SETSIZE \<le> fd))"
proof -
  have inv: "proxy_inv fd (ap_main s) (ap_rx s) p" using assms(1,2) by (simp add: app_inv_def)
  then have room: "0 < ev_maxSamples (vp_VehicleSignal p)" by (simp add: proxy_inv_def)
  show ?thesis
  proof (cases "ap_rx s")
    case (RxParse buf)
    obtain good' calls p' where parse: "ParseAndDispatch buf p = Inr (good', calls, p')"
      and same: "vp_sockFd p' = vp_sockFd p" "vp_running p' = vp_running p"
        "ev_state (vp_VehicleSignal p') = ev_state (vp_VehicleSignal p)"
        "ev_maxSamples (vp_VehicleSignal p') = ev_maxSamples (vp_VehicleSignal p)"
        "ev_receiveHandler (vp_VehicleSignal p') = ev_receiveHandler (vp_VehicleSignal p)"
      by (rule Parse_keeps [OF room])
    have "proxy_inv fd (ap_main s) (RxHandle calls good') p'"
      using inv unfolding proxy_inv_def proxy_ready_def same by (simp add: RxParse)
    with parse show ?thesis by (simp add: rx_go_def RxParse app_inv_def assms(2))
  next
    case (RxHandle calls accepted)
    then show ?thesis
      using inv assms(2)
      by (cases calls) (auto simp: rx_go_def app_inv_def proxy_inv_def case_prod_beta)
  next
    case (RxCount buf)
    then show ?thesis using inv assms(2) by (simp add: rx_go_def app_inv_def proxy_inv_def Let_def)
  next
    case RxReject
    then show ?thesis using inv assms(2) by (simp add: rx_go_def app_inv_def proxy_inv_def)
  next
    case RxSet
    then show ?thesis using inv assms(2) by (auto simp: rx_go_def app_inv_def proxy_inv_def)
  next
    case RxRecv
    then show ?thesis
      using inv assms(2) by (cases "ap_socket s") (auto simp: rx_go_def app_inv_def proxy_inv_def)
  qed (use inv assms(2) in \<open>auto simp: rx_go_def app_inv_def proxy_inv_def\<close>)
qed

text \<open>The only step that faults.\<close>

definition sets_bit :: "int \<Rightarrow> app \<Rightarrow> app_event \<Rightarrow> bool" where
  "sets_bit fd s ev \<longleftrightarrow> ap_rx s = RxSet \<and> (ap_main s = AtJoin \<or> FD_SETSIZE \<le> fd) \<and>
     (case ev of RxGoes good \<Rightarrow> True | _ \<Rightarrow> False)"

lemma app_act_cases:
  assumes "app_inv fd s"
  shows "case app_act fd bound ev s of
      Inl e \<Rightarrow> e = OutOfBounds \<and> sets_bit fd s ev
    | Inr s' \<Rightarrow> app_inv fd s' \<and> \<not> sets_bit fd s ev"
proof (cases ev)
  case (RxGoes good)
  show ?thesis
  proof (cases "sw_proxy (ap_swc s)")
    case None
    with assms show ?thesis by (auto simp: RxGoes app_act_def app_inv_def sets_bit_def)
  next
    case (Some p)
    with rx_go_cases [OF assms Some, of good] show ?thesis
      by (auto simp: RxGoes app_act_def sets_bit_def split: sum.splits)
  qed
next
  case (Arrives d)
  with assms show ?thesis by (auto simp: app_act_def app_inv_def sets_bit_def split: option.splits)
qed (use assms in \<open>simp_all add: app_act_def main_go_inv main_stop_inv sets_bit_def\<close>)

lemma app_run_inv: "app_inv fd s \<Longrightarrow> app_run fd bound s evs = Inr s' \<Longrightarrow> app_inv fd s'"
proof (induction evs arbitrary: s)
  case (Cons ev evs)
  then obtain s1 where "app_act fd bound ev s = Inr s1" "app_run fd bound s1 evs = Inr s'"
    by (cases "app_act fd bound ev s") simp_all
  with app_act_cases [OF Cons.prems(1), of ev bound] Cons.IH [of s1] show ?case by simp
qed simp

text \<open>
  C2: whatever arrives and however the two threads interleave, access by access, a step of a schedule
  faults exactly when the receive thread executes \<open>FD_SET\<close> with a descriptor that is not an index of
  the bit array: the socket's own is \<open>FD_SETSIZE\<close> or more, or the destructor has stored -1 in \<open>sockFd_\<close>
  since the receive thread tested it. No datagram, and nothing else in \<open>Start\<close>, in the loop or in
  \<open>Stop\<close>, makes a step fault. Faults are the accesses out of bounds and the \<open>pop\<close> of an empty queue;
  that the accesses of the two threads to the plain \<open>int\<close> \<open>sockFd_\<close> race is not counted as one.
\<close>

theorem only_bad_descriptors_fault:
  assumes "app_run fd bound app_start evs = Inr s"
  shows "app_act fd bound ev s = Inl e \<longleftrightarrow>
    e = OutOfBounds \<and> ap_rx s = RxSet \<and> (ap_main s = AtJoin \<or> FD_SETSIZE \<le> fd) \<and>
    (case ev of RxGoes good \<Rightarrow> True | _ \<Rightarrow> False)"
proof -
  have "app_inv fd s" using app_run_inv [OF app_inv_start assms] .
  from app_act_cases [OF this, of ev bound] show ?thesis
    by (auto simp: sets_bit_def split: sum.splits)
qed

text \<open>Until the main thread leaves its loop, there is no fault.\<close>

definition early :: "app \<Rightarrow> bool" where
  "early s \<longleftrightarrow> ap_main s = AtFind \<or> ap_main s = AtSubscribe \<or> ap_main s = AtHandler \<or> ap_main s = InLoop"

lemma main_go_early: "early s \<Longrightarrow> early (main_go fd bound s)"
  by (cases "ap_main s") (auto simp: early_def main_go_def main_find_def case_prod_beta Let_def)

lemma early_step:
  assumes "fd < FD_SETSIZE" and "app_inv fd s" and "early s" and "ev \<noteq> MainStops"
  obtains s' where "app_act fd bound ev s = Inr s'" and "app_inv fd s'" and "early s'"
proof (cases "app_act fd bound ev s")
  case (Inl e)
  with app_act_cases [OF assms(2), of ev bound] assms(3) show thesis using assms(1) by (auto simp: sets_bit_def early_def)
next
  case (Inr s')
  moreover from this app_act_cases [OF assms(2), of ev bound] have "app_inv fd s'" by simp
  moreover have "early s'"
  proof (cases ev)
    case (RxGoes good)
    show ?thesis
    proof (cases "sw_proxy (ap_swc s)")
      case (Some p)
      with rx_go_cases [OF assms(2) Some, of good] Inr assms(3) show ?thesis
        by (simp add: RxGoes app_act_def early_def)
    qed (use Inr assms(3) in \<open>simp add: RxGoes app_act_def\<close>)
  next
    case (Arrives d)
    with Inr assms(3) show ?thesis by (cases "socket_open s") (auto simp: app_act_def early_def)
  qed (use Inr assms(3,4) in \<open>auto simp: app_act_def main_go_early\<close>)
  ultimately show thesis by (rule that)
qed

lemma no_fault_before_stop:
  "fd < FD_SETSIZE \<Longrightarrow> app_inv fd s \<Longrightarrow> early s \<Longrightarrow> \<not> List.member evs MainStops \<Longrightarrow>
     \<exists>s'. app_run fd bound s evs = Inr s' \<and> app_inv fd s' \<and> early s'"
proof (induction evs arbitrary: s)
  case (Cons ev evs)
  then have "ev \<noteq> MainStops" by auto
  then obtain s1 where "app_act fd bound ev s = Inr s1" "app_inv fd s1" "early s1"
    using early_step Cons.prems by metis
  with Cons show ?case by simp
qed simp

section \<open>Stopping while the receive thread runs\<close>

text \<open>\<open>Start\<close> has returned with a proxy, and \<open>Stop\<close> has not been called.\<close>

definition in_loop :: "int \<Rightarrow> app \<Rightarrow> bool" where
  "in_loop fd s \<longleftrightarrow> app_inv fd s \<and> ap_main s = InLoop \<and> sw_proxy (ap_swc s) \<noteq> None"

lemma in_loopE:
  assumes "in_loop fd s"
  obtains p where "sw_proxy (ap_swc s) = Some p" and "proxy_inv fd InLoop (ap_rx s) p"
  using assms by (auto simp: in_loop_def app_inv_def)

lemma rx_go_proxy:
  assumes "rx_go good p s = Inr s'" and "sw_proxy (ap_swc s) = Some p"
  shows "sw_proxy (ap_swc s') \<noteq> None"
  using assms
  by (cases "ap_rx s" rule: rx_pc.exhaust)
    (auto simp: rx_go_def obind_eq_Inr case_prod_beta Let_def split: if_splits list.splits)

lemma rx_step:
  assumes "in_loop fd s" and "fd < FD_SETSIZE"
  obtains p s' where "sw_proxy (ap_swc s) = Some p" and "proxy_inv fd InLoop (ap_rx s) p"
    and "rx_go good p s = Inr s'" and "app_act fd bound (RxGoes good) s = Inr s'" and "in_loop fd s'"
proof -
  obtain p where p: "sw_proxy (ap_swc s) = Some p" "proxy_inv fd InLoop (ap_rx s) p"
    using assms(1) by (rule in_loopE)
  have inv: "app_inv fd s" "ap_main s = InLoop" using assms(1) by (simp_all add: in_loop_def)
  obtain s' where s': "rx_go good p s = Inr s'" "app_inv fd s'" "ap_main s' = InLoop"
    using rx_go_cases [OF inv(1) p(1), of good] inv(2) assms(2) by (cases "rx_go good p s") auto
  have "in_loop fd s'" using s' rx_go_proxy [OF s'(1) p(1)] by (simp add: in_loop_def)
  moreover have "app_act fd bound (RxGoes good) s = Inr s'" using p(1) s'(1) by (simp add: app_act_def)
  ultimately show thesis using that p s'(1) by blast
qed

definition reaches_set :: "int \<Rightarrow> int \<Rightarrow> app \<Rightarrow> bool" where
  "reaches_set fd bound s \<longleftrightarrow> (\<exists>evs s'. app_run fd bound s evs = Inr s' \<and> in_loop fd s' \<and> ap_rx s' = RxSet)"

lemma reaches_set_step:
  assumes "app_act fd bound ev s = Inr s'" and "reaches_set fd bound s'"
  shows "reaches_set fd bound s"
proof -
  obtain evs t where "app_run fd bound s' evs = Inr t" "in_loop fd t" "ap_rx t = RxSet"
    using assms(2) by (auto simp: reaches_set_def)
  then have "app_run fd bound s (ev # evs) = Inr t \<and> in_loop fd t \<and> ap_rx t = RxSet" using assms(1) by simp
  then show ?thesis unfolding reaches_set_def by blast
qed

lemma reaches_set_at:
  assumes "in_loop fd s" and "ap_rx s = RxSet"
  shows "reaches_set fd bound s"
  unfolding reaches_set_def using assms by (intro exI [of _ "[]"] exI [of _ s]) simp

text \<open>One step of the receive thread with a failing system call, and where it leads.\<close>

lemma rx_failing:
  assumes "in_loop fd s" and "fd < FD_SETSIZE"
    and "\<And>s'. in_loop fd s' \<Longrightarrow>
      ap_rx s' = (case ap_rx s of RxLoop \<Rightarrow> RxTest | RxTest \<Rightarrow> RxSet | RxSet \<Rightarrow> RxSelect | RxCount buf \<Rightarrow> RxParse buf
        | RxParse buf \<Rightarrow> ap_rx s'
        | RxHandle [] accepted \<Rightarrow> (if accepted then RxLoop else RxReject) | RxHandle (c # calls) accepted \<Rightarrow> RxHandle calls accepted
        | _ \<Rightarrow> RxLoop) \<Longrightarrow>
      (case ap_rx s of RxParse buf \<Rightarrow> \<exists>calls accepted. ap_rx s' = RxHandle calls accepted | _ \<Rightarrow> True) \<Longrightarrow>
      reaches_set fd bound s'"
  shows "reaches_set fd bound s"
proof -
  obtain p s' where p: "sw_proxy (ap_swc s) = Some p" "proxy_inv fd InLoop (ap_rx s) p"
    and go: "rx_go False p s = Inr s'" and act: "app_act fd bound (RxGoes False) s = Inr s'" and loop: "in_loop fd s'"
    by (rule rx_step [OF assms(1,2), of False bound])
  have "reaches_set fd bound s'"
  proof (rule assms(3) [OF loop])
    show "ap_rx s' = (case ap_rx s of RxLoop \<Rightarrow> RxTest | RxTest \<Rightarrow> RxSet | RxSet \<Rightarrow> RxSelect | RxCount buf \<Rightarrow> RxParse buf
        | RxParse buf \<Rightarrow> ap_rx s'
        | RxHandle [] accepted \<Rightarrow> (if accepted then RxLoop else RxReject) | RxHandle (c # calls) accepted \<Rightarrow> RxHandle calls accepted
        | _ \<Rightarrow> RxLoop)"
      using go p(2)
      by (cases "ap_rx s" rule: rx_pc.exhaust)
        (auto simp: rx_go_def proxy_inv_def case_prod_beta Let_def split: if_splits list.splits)
    show "case ap_rx s of RxParse buf \<Rightarrow> \<exists>calls accepted. ap_rx s' = RxHandle calls accepted | _ \<Rightarrow> True"
      using go by (cases "ap_rx s") (auto simp: rx_go_def obind_eq_Inr)
  qed
  then show ?thesis by (rule reaches_set_step [OF act])
qed

lemma loop_reaches_set:
  assumes "in_loop fd s" and "fd < FD_SETSIZE"
  shows "reaches_set fd bound s"
proof -
  have test: "reaches_set fd bound s" if "in_loop fd s" "ap_rx s = RxTest" for s
    by (rule rx_failing [OF that(1) assms(2)]) (simp add: that(2) reaches_set_at)
  have loop: "reaches_set fd bound s" if "in_loop fd s" "ap_rx s = RxLoop" for s
    by (rule rx_failing [OF that(1) assms(2)]) (simp add: that(2) test)
  have again: "reaches_set fd bound s" if "in_loop fd s" "ap_rx s = RxSelect \<or> ap_rx s = RxRecv \<or> ap_rx s = RxReject" for s
    by (rule rx_failing [OF that(1) assms(2)]) (use that(2) loop in auto)
  have handle: "reaches_set fd bound s" if "in_loop fd s" "ap_rx s = RxHandle calls accepted" for s calls accepted
    using that
  proof (induction calls arbitrary: s)
    case Nil
    show ?case
      by (rule rx_failing [OF Nil(1) assms(2)]) (use Nil(2) loop again in \<open>auto split: if_splits\<close>)
  next
    case (Cons c calls)
    show ?case by (rule rx_failing [OF Cons.prems(1) assms(2)]) (use Cons in auto)
  qed
  have parse: "reaches_set fd bound s" if "in_loop fd s" "ap_rx s = RxParse buf" for s buf
    by (rule rx_failing [OF that(1) assms(2)]) (use that(2) handle in auto)
  have count: "reaches_set fd bound s" if "in_loop fd s" "ap_rx s = RxCount buf" for s buf
    by (rule rx_failing [OF that(1) assms(2)]) (use that(2) parse in auto)
  have "ap_rx s \<noteq> RxNone" "ap_rx s \<noteq> RxDone" using assms(1) by (auto simp: in_loop_def app_inv_def proxy_inv_def)
  then show ?thesis
    using assms(1) test loop again handle parse count reaches_set_at by (cases "ap_rx s") blast+
qed

text \<open>
  Stopping the application is a race with the receive thread. From every state that a schedule can
  reach with \<open>Start\<close> returned and the socket bound, whatever has been received, another schedule goes
  on to undefined behaviour: the receive thread tests \<open>sockFd_\<close>, the main thread calls \<open>Stop\<close>, whose
  destructor closes the socket and stores -1, and the receive thread executes \<open>FD_SET\<close> with -1.
\<close>

theorem stopping_can_fault:
  assumes "app_run fd bound app_start evs = Inr s" and "fd < FD_SETSIZE"
    and "ap_main s = InLoop" and "sw_proxy (ap_swc s) \<noteq> None"
  shows "\<exists>later. app_run fd bound s later = Inl OutOfBounds"
proof -
  have "in_loop fd s" using app_run_inv [OF app_inv_start assms(1)] assms(3,4) by (simp add: in_loop_def)
  then obtain evs1 t where t: "app_run fd bound s evs1 = Inr t" "in_loop fd t" "ap_rx t = RxSet"
    using loop_reaches_set [OF _ assms(2), of s bound] by (auto simp: reaches_set_def)
  obtain p where "sw_proxy (ap_swc t) = Some p" "proxy_inv fd InLoop (ap_rx t) p" using t(2) by (rule in_loopE)
  then have "app_run fd bound t [MainStops, MainGoes, MainGoes, MainGoes, MainGoes, MainGoes, RxGoes True] = Inl OutOfBounds"
    using t(2,3) by (simp add: in_loop_def app_act_def main_stop_def main_go_def rx_go_def proxy_inv_def)
  with t(1) show ?thesis
    by (intro exI [of _ "evs1 @ [MainStops, MainGoes, MainGoes, MainGoes, MainGoes, MainGoes, RxGoes True]"])
      (simp add: run_append del: run.simps)
qed

theorem stopping_can_fault_witness:
  "\<exists>later. app_run 3 0 app_start ([MainGoes, MainGoes, MainGoes] @ later) = Inl OutOfBounds"
proof -
  have "case app_run 3 0 app_start [MainGoes, MainGoes, MainGoes] of Inl _ \<Rightarrow> False
    | Inr s \<Rightarrow> ap_main s = InLoop \<and> sw_proxy (ap_swc s) \<noteq> None"
    by code_simp
  then obtain s where s: "app_run 3 0 app_start [MainGoes, MainGoes, MainGoes] = Inr s" "ap_main s = InLoop"
      "sw_proxy (ap_swc s) \<noteq> None"
    by (auto split: sum.splits)
  have "3 < FD_SETSIZE" by (simp add: FD_SETSIZE_def)
  from stopping_can_fault [OF s(1) this s(2,3)] s(1) show ?thesis by (simp only: run_append)
qed

theorem only_bad_descriptors_fault_witness:
  "\<exists>s. app_run 3 0 app_start ([MainGoes, MainGoes, MainGoes, RxGoes True, RxGoes True, MainStops] @ replicate 5 MainGoes) = Inr s \<and>
     app_act 3 0 (RxGoes True) s = Inl OutOfBounds"
proof -
  let ?evs = "[MainGoes, MainGoes, MainGoes, RxGoes True, RxGoes True, MainStops] @ replicate 5 MainGoes"
  have "case app_run 3 0 app_start ?evs of Inl _ \<Rightarrow> False | Inr s \<Rightarrow> ap_main s = AtJoin \<and> ap_rx s = RxSet"
    by code_simp
  then obtain s where s: "app_run 3 0 app_start ?evs = Inr s" "ap_main s = AtJoin" "ap_rx s = RxSet"
    by (auto split: sum.splits)
  from only_bad_descriptors_fault [OF s(1), of "RxGoes True" OutOfBounds] s show ?thesis by simp
qed

section \<open>From the wire to the display\<close>

text \<open>
  What the parser pushes for the bytes received when the proxy is as \<open>Start\<close> leaves it: at most one
  sample, and the sample itself for a frame in which one was sent.
\<close>

definition ready_proxy :: VehicleSignalProxy where
  "ready_proxy = (VehicleSignalProxy_ctor 0 0)
     \<lparr>vp_VehicleSignal := SetReceiveHandler (Some own_handler) (Ev_Subscribe 32 VehicleSignalEvent_new)\<rparr>"

definition frame_samples :: "u8 list \<Rightarrow> VehicleSignalSample list" where
  "frame_samples buf = (case ParseAndDispatch buf ready_proxy of Inl _ \<Rightarrow> [] | Inr (_, calls, _) \<Rightarrow> map snd calls)"

lemma ready_proxy_ready: "proxy_ready ready_proxy"
  by (simp add: ready_proxy_def proxy_ready_def SetReceiveHandler_def Ev_Subscribe_def)

lemma push_ready_eq:
  assumes "proxy_ready p"
  shows "PushSample s (vp_VehicleSignal p) = Inr ([(own_handler, s)], push_subscribed s (vp_VehicleSignal p))"
  using assms by (cases "vp_VehicleSignal p") (simp add: proxy_ready_def PushSample_subscribed push_subscribed_def)

lemma Parse_ready_samples:
  assumes "proxy_ready p"
  obtains good p' where "ParseAndDispatch buf p = Inr (good, map (Pair own_handler) (frame_samples buf), p')"
proof -
  have "case ParseAndDispatch buf p of Inl _ \<Rightarrow> False
    | Inr (_, calls, _) \<Rightarrow> calls = map (Pair own_handler) (frame_samples buf)"
    using push_ready_eq [OF assms] push_ready_eq [OF ready_proxy_ready]
    by (simp add: frame_samples_def ParseAndDispatch_def Let_def)
  then show thesis using that by (auto split: sum.splits)
qed

lemma frame_samples_short: "length (frame_samples buf) \<le> 1"
  using push_ready_eq [OF ready_proxy_ready] by (simp add: frame_samples_def ParseAndDispatch_def Let_def)

lemma frame_samples_empty [simp]: "frame_samples [] = []"
  by (simp add: frame_samples_def ParseAndDispatch_def)

lemma frame_samples_sent: "frame_samples (take 1024 (sent_frame x)) = [arrival x]"
proof -
  have "length (sent_frame x) = 36"
    by (simp add: sent_frame_def Serialize_def event_message_def signal_payload_ok push2_def push4_def)
  then have "take 1024 (sent_frame x) = sent_frame x" by simp
  then show ?thesis
    by (simp add: frame_samples_def Parse_sent dispatch_def push_ready_eq [OF ready_proxy_ready])
qed

text \<open>
  The samples in the hands of the receive thread and in the socket; those in the signal records
  printed; those in the datagrams that arrive in a schedule.
\<close>

fun rx_samples :: "rx_pc \<Rightarrow> VehicleSignalSample list" where
  "rx_samples (RxCount buf) = frame_samples buf"
| "rx_samples (RxParse buf) = frame_samples buf"
| "rx_samples (RxHandle calls accepted) = map snd calls"
| "rx_samples _ = []"

definition datagram_samples :: "u8 list \<Rightarrow> VehicleSignalSample list" where
  "datagram_samples d = frame_samples (take 1024 d)"

definition on_way :: "app \<Rightarrow> VehicleSignalSample list" where
  "on_way s = rx_samples (ap_rx s) @ concat (map datagram_samples (ap_socket s))"

definition printed :: "app \<Rightarrow> VehicleSignalSample list" where
  "printed s = List.map_filter sample_of_line (ap_lines s)"

fun event_samples :: "app_event \<Rightarrow> VehicleSignalSample list" where
  "event_samples (Arrives d) = datagram_samples d"
| "event_samples _ = []"

lemma MainFunction_prints [simp]: "List.map_filter sample_of_line (fst (MainFunction_100ms tick swc)) = []"
  by (simp add: MainFunction_100ms_def log_info_def map_filter_simps Let_def split: option.split)

lemma printed_frames [simp]:
  "printed (app_print ls s) = printed s @ List.map_filter sample_of_line ls" "printed (on_proxy f s) = printed s"
  "printed (s\<lparr>ap_main := m\<rparr>) = printed s" "printed (s\<lparr>ap_rx := r\<rparr>) = printed s" "printed (s\<lparr>ap_swc := w\<rparr>) = printed s"
  "printed (s\<lparr>ap_socket := k\<rparr>) = printed s" "printed (s\<lparr>ap_tick := t\<rparr>) = printed s"
  by (simp_all add: printed_def)

text \<open>No step in the loop loses, repeats or reorders a sample, and each uses up some of the work to do.\<close>

fun rx_work :: "rx_pc \<Rightarrow> nat" where
  "rx_work RxRecv = 0" | "rx_work RxSelect = 1" | "rx_work RxSet = 2" | "rx_work RxTest = 3" | "rx_work RxLoop = 4"
| "rx_work RxReject = 5" | "rx_work (RxHandle calls accepted) = 6 + length calls" | "rx_work (RxParse buf) = 8"
| "rx_work (RxCount buf) = 9" | "rx_work _ = 0"

definition work :: "app \<Rightarrow> nat" where
  "work s = 10 * length (ap_socket s) + rx_work (ap_rx s)"

lemma rx_go_conserves:
  assumes "rx_go good p s = Inr s'" and "sw_proxy (ap_swc s) = Some p" and "proxy_inv fd InLoop (ap_rx s) p"
  shows "printed s' @ on_way s' = printed s @ on_way s \<and>
    (good \<longrightarrow> work s' < work s \<or> s' = s \<and> ap_rx s = RxRecv \<and> ap_socket s = [])"
proof (cases "ap_rx s" rule: rx_pc.exhaust)
  case (RxParse buf)
  obtain good' p' where "ParseAndDispatch buf p = Inr (good', map (Pair own_handler) (frame_samples buf), p')"
    using assms(3) by (auto simp: proxy_inv_def intro: Parse_ready_samples)
  with assms(1) frame_samples_short [of buf] show ?thesis
    by (auto simp: RxParse rx_go_def on_way_def work_def comp_def)
next
  case (RxHandle calls accepted)
  with assms(1) show ?thesis
    by (cases calls) (auto simp: rx_go_def on_way_def work_def case_prod_beta samples_of_on_sample)
next
  case RxRecv
  with assms(1) show ?thesis
    by (cases "ap_socket s") (auto simp: rx_go_def on_way_def work_def datagram_samples_def split: if_splits)
qed (use assms in \<open>auto simp: rx_go_def on_way_def work_def proxy_inv_def samples_of_raw_line Let_def split: if_splits\<close>)

lemma main_conserves:
  assumes "ap_main s = InLoop"
  shows "printed (main_go fd bound s) = printed s \<and> on_way (main_go fd bound s) = on_way s \<and>
    ap_main (main_go fd bound s) = InLoop \<and> ap_swc (main_go fd bound s) = ap_swc s"
  using assms by (simp add: main_go_def case_prod_beta on_way_def)

lemma loop_step:
  assumes "in_loop fd s" and "fd < FD_SETSIZE" and "ev \<noteq> MainStops"
  obtains s' where "app_act fd bound ev s = Inr s'" and "in_loop fd s'"
    and "printed s' @ on_way s' = printed s @ on_way s @ event_samples ev"
proof (cases ev)
  case (RxGoes good)
  obtain p s' where p: "sw_proxy (ap_swc s) = Some p" "proxy_inv fd InLoop (ap_rx s) p" "rx_go good p s = Inr s'"
    "app_act fd bound (RxGoes good) s = Inr s'" "in_loop fd s'"
    by (rule rx_step [OF assms(1,2), of good bound])
  with rx_go_conserves [OF p(3,1,2)] that [of s'] show thesis by (simp add: RxGoes)
next
  case MainGoes
  have "in_loop fd (main_go fd bound s)"
    using assms(1) main_go_inv [of fd s bound] main_conserves [of s fd bound] by (simp add: in_loop_def)
  with that [of "main_go fd bound s"] main_conserves [of s fd bound] assms(1) show thesis
    by (simp add: MainGoes app_act_def in_loop_def)
next
  case (Arrives d)
  have "socket_open s" using assms(1) by (simp add: in_loop_def socket_open_def)
  moreover have "in_loop fd (s\<lparr>ap_socket := ap_socket s @ [d]\<rparr>)" using assms(1) by (auto simp: in_loop_def app_inv_def)
  ultimately show thesis
    using that [of "s\<lparr>ap_socket := ap_socket s @ [d]\<rparr>"] by (simp add: Arrives app_act_def on_way_def)
qed (use assms(3) in simp)

lemma loop_run:
  assumes "in_loop fd s" and "fd < FD_SETSIZE" and "\<not> List.member evs MainStops"
  obtains s' where "app_run fd bound s evs = Inr s'" and "in_loop fd s'"
    and "printed s' @ on_way s' = printed s @ on_way s @ concat (map event_samples evs)"
  using assms(1,3)
proof (induction evs arbitrary: s thesis)
  case Nil
  then show ?case by simp
next
  case (Cons ev evs)
  from Cons.prems(3) have ev: "ev \<noteq> MainStops" "\<not> List.member evs MainStops" by auto
  obtain s1 where s1: "app_act fd bound ev s = Inr s1" "in_loop fd s1"
      "printed s1 @ on_way s1 = printed s @ on_way s @ event_samples ev"
    by (rule loop_step [OF Cons.prems(2) assms(2) ev(1)])
  obtain s' where "app_run fd bound s1 evs = Inr s'" "in_loop fd s'"
      "printed s' @ on_way s' = printed s1 @ on_way s1 @ concat (map event_samples evs)"
    by (rule Cons.IH [OF _ s1(2) ev(2)])
  with s1 Cons.prems(1) [of s'] show ?case by (simp flip: append_assoc)
qed

lemma rx_drains:
  assumes "in_loop fd s" and "fd < FD_SETSIZE"
  shows "\<exists>n s'. app_run fd bound s (replicate n (RxGoes True)) = Inr s' \<and> in_loop fd s' \<and> on_way s' = [] \<and>
    printed s' = printed s @ on_way s"
  using assms(1)
proof (induction "work s" arbitrary: s rule: less_induct)
  case less
  obtain p s1 where p: "sw_proxy (ap_swc s) = Some p" "proxy_inv fd InLoop (ap_rx s) p" "rx_go True p s = Inr s1"
    "app_act fd bound (RxGoes True) s = Inr s1" "in_loop fd s1"
    by (rule rx_step [OF less.prems assms(2), of True bound])
  note c = rx_go_conserves [OF p(3,1,2)]
  show ?case
  proof (cases "work s1 < work s")
    case True
    from less.hyps [OF True p(5)] obtain n s' where
      n: "app_run fd bound s1 (replicate n (RxGoes True)) = Inr s'" "in_loop fd s'" "on_way s' = []"
        "printed s' = printed s1 @ on_way s1"
      by blast
    with p(4) c show ?thesis by (intro exI [of _ "Suc n"] exI [of _ s']) simp
  next
    case False
    with c have "on_way s = []" by (auto simp: on_way_def)
    with less.prems show ?thesis by (intro exI [of _ 0] exI [of _ s]) simp
  qed
qed

text \<open>The sample counter counts the signal records printed, in every step of every schedule.\<close>

definition counted :: "app \<Rightarrow> bool" where
  "counted s \<longleftrightarrow> sw_samplesReceived (ap_swc s) = of_nat (length (printed s))"

lemma counted_start: "counted app_start"
  by (simp add: counted_def printed_def app_start_def VehicleSignalSwc_ctor_def case_prod_beta map_filter_simps Let_def)

lemma counted_frames [simp]:
  "List.map_filter sample_of_line ls = [] \<Longrightarrow> counted (app_print ls s) = counted s"
  "counted (on_proxy f s) = counted s" "counted (s\<lparr>ap_main := m\<rparr>) = counted s" "counted (s\<lparr>ap_rx := r\<rparr>) = counted s"
  "counted (s\<lparr>ap_socket := k\<rparr>) = counted s" "counted (s\<lparr>ap_tick := t\<rparr>) = counted s"
  "counted (s\<lparr>ap_swc := (ap_swc s)\<lparr>sw_proxy := q\<rparr>\<rparr>) = counted s"
  by (simp_all add: counted_def)

lemma Swc_Stop_counted [simp]:
  "List.map_filter sample_of_line (fst (Swc_Stop swc)) = []"
  "counted (s\<lparr>ap_swc := snd (Swc_Stop (ap_swc s))\<rparr>) = counted s"
  by (simp_all add: Swc_Stop_def counted_def log_info_def map_filter_simps split: option.split)

lemma counted_main_go: "counted s \<Longrightarrow> counted (main_go fd bound s)"
  by (cases "ap_main s")
    (auto simp: main_go_def main_find_def log_info_def log_error_def case_prod_beta map_filter_simps Let_def
      split: option.split)

lemma counted_rx_go:
  assumes "counted s" and "rx_go good p s = Inr s'"
  shows "counted s'"
proof (cases "ap_rx s")
  case (RxHandle calls accepted)
  with assms show ?thesis
    by (cases calls) (auto simp: rx_go_def case_prod_beta counted_def samples_of_on_sample)
next
  case RxRecv
  with assms show ?thesis by (cases "ap_socket s") (auto simp: rx_go_def split: if_splits)
qed (use assms in \<open>auto simp: rx_go_def obind_eq_Inr samples_of_raw_line Let_def split: if_splits\<close>)

lemma counted_run: "counted s \<Longrightarrow> app_run fd bound s evs = Inr s' \<Longrightarrow> counted s'"
proof (induction evs arbitrary: s)
  case (Cons ev evs)
  then obtain s1 where s1: "app_act fd bound ev s = Inr s1" "app_run fd bound s1 evs = Inr s'"
    by (cases "app_act fd bound ev s") simp_all
  have "counted s1"
    using Cons.prems(1) s1(1)
    by (cases ev) (auto simp: app_act_def main_stop_def counted_main_go split: if_splits option.splits
        intro: counted_rx_go)
  with Cons.IH s1(2) show ?case by blast
qed simp

text \<open>
  C1: from the wire to the display, thread by thread. Let a schedule have led to a state in which
  \<open>Start\<close> has returned with a bound socket, whose descriptor is below \<open>FD_SETSIZE\<close>. Then, whatever
  arrives and however the two threads go on, as long as the main thread stays in its loop there is no
  fault, and some number of further steps of the receive thread with successful system calls prints
  everything: the signal records are those printed before, then one for each sample that was still in
  the socket or in the hands of the receive thread, then one for each sample that has arrived since, in
  order, none lost and none twice, and the sample counter is their number. The frame in which a sample
  is sent contributes this sample, with the session and the checksum of the frame. The values are
  those \<open>printf\<close> is called with, before it rounds them.
\<close>

theorem samples_reach_the_display_threads:
  assumes "app_run fd bound app_start earlier = Inr s" and "fd < FD_SETSIZE"
    and "ap_main s = InLoop" and "sw_proxy (ap_swc s) \<noteq> None" and "\<not> List.member evs MainStops"
  shows "(\<exists>n s'. app_run fd bound s (evs @ replicate n (RxGoes True)) = Inr s' \<and> on_way s' = [] \<and>
      printed s' = printed s @ on_way s @ concat (map event_samples evs) \<and>
      sw_samplesReceived (ap_swc s') = of_nat (length (printed s'))) \<and>
    event_samples (Arrives (sent_frame x)) = [arrival x]"
proof -
  have "in_loop fd s" using app_run_inv [OF app_inv_start assms(1)] assms(3,4) by (simp add: in_loop_def)
  then obtain s1 where s1: "app_run fd bound s evs = Inr s1" "in_loop fd s1"
      "printed s1 @ on_way s1 = printed s @ on_way s @ concat (map event_samples evs)"
    by (rule loop_run [OF _ assms(2,5)])
  obtain n s' where n: "app_run fd bound s1 (replicate n (RxGoes True)) = Inr s'" "on_way s' = []"
      "printed s' = printed s1 @ on_way s1"
    using rx_drains [OF s1(2) assms(2), of bound] by blast
  have run: "app_run fd bound s (evs @ replicate n (RxGoes True)) = Inr s'"
    using s1(1) n(1) by (simp add: run_append)
  have "counted s'" using counted_run [OF counted_run [OF counted_start assms(1)] run] .
  then have "sw_samplesReceived (ap_swc s') = of_nat (length (printed s'))" by (simp only: counted_def)
  moreover have "printed s' = printed s @ on_way s @ concat (map event_samples evs)" using n(3) s1(3) by simp
  moreover have "event_samples (Arrives (sent_frame x)) = [arrival x]"
    by (simp add: datagram_samples_def frame_samples_sent)
  ultimately show ?thesis using run n(2) by blast
qed

theorem samples_reach_the_display_threads_witness:
  "\<exists>n s'. app_run 3 0 app_start ([MainGoes, MainGoes, MainGoes, Arrives (sent_frame (5, demo_sample 1)), RxGoes True,
       Arrives [1, 2], MainGoes, Arrives (sent_frame (6, demo_sample 2))] @ replicate n (RxGoes True)) = Inr s' \<and>
     printed s' = [arrival (5, demo_sample 1), arrival (6, demo_sample 2)]"
proof -
  let ?evs = "[Arrives (sent_frame (5, demo_sample 1)), RxGoes True, Arrives [1, 2], MainGoes,
    Arrives (sent_frame (6, demo_sample 2))]"
  have "case app_run 3 0 app_start [MainGoes, MainGoes, MainGoes] of Inl _ \<Rightarrow> False
    | Inr s \<Rightarrow> ap_main s = InLoop \<and> sw_proxy (ap_swc s) \<noteq> None \<and> printed s = [] \<and> on_way s = []"
    by code_simp
  then obtain s where s: "app_run 3 0 app_start [MainGoes, MainGoes, MainGoes] = Inr s" "ap_main s = InLoop"
      "sw_proxy (ap_swc s) \<noteq> None" "printed s = []" "on_way s = []"
    by (auto split: sum.splits)
  have "3 < FD_SETSIZE" "\<not> List.member ?evs MainStops" by (simp_all add: FD_SETSIZE_def)
  note main = samples_reach_the_display_threads [OF s(1) this(1) s(2,3) this(2)]
  have samples: "concat (map event_samples ?evs) = [arrival (5, demo_sample 1), arrival (6, demo_sample 2)]"
    by (simp add: datagram_samples_def frame_samples_sent) (simp add: frame_samples_def ParseAndDispatch_def)
  from conjunct1 [OF main] obtain n s' where n: "app_run 3 0 s (?evs @ replicate n (RxGoes True)) = Inr s'"
      "printed s' = printed s @ on_way s @ concat (map event_samples ?evs)"
    by (elim exE conjE) (rule that)
  have "printed s' = [arrival (5, demo_sample 1), arrival (6, demo_sample 2)]"
    using n(2) unfolding s(4,5) samples by simp
  moreover have "[MainGoes, MainGoes, MainGoes] @ ?evs @ replicate n (RxGoes True) =
      [MainGoes, MainGoes, MainGoes, Arrives (sent_frame (5, demo_sample 1)), RxGoes True,
       Arrives [1, 2], MainGoes, Arrives (sent_frame (6, demo_sample 2))] @ replicate n (RxGoes True)" by simp
  ultimately show ?thesis using s(1) n(1) by (metis run_append)
qed

text \<open>
  Before the loop samples do get lost: one handled between the constructor and \<open>Subscribe\<close> is
  dropped, and one handled before \<open>SetReceiveHandler\<close> stays in the queue, which nothing reads.
\<close>

lemma early_samples_are_lost:
  "case app_run 3 0 app_start ([MainGoes, Arrives (sent_frame (5, demo_sample 1))] @ replicate 8 (RxGoes True) @
      [MainGoes, Arrives (sent_frame (6, demo_sample 2))] @ replicate 8 (RxGoes True) @ [MainGoes]) of
     Inl _ \<Rightarrow> False
   | Inr s \<Rightarrow> ap_main s = InLoop \<and> printed s = [] \<and> on_way s = [] \<and>
       map_option (\<lambda>p. (st_rxPackets (vp_stats p), ev_sampleQueue (vp_VehicleSignal p))) (sw_proxy (ap_swc s)) =
         Some (2, [arrival (6, demo_sample 2)])"
  by code_simp

end
