(* ===== verification/Spec2Isabelle.thy ===== *)
theory Spec2Isabelle
  imports Nm Crc Phm Sm Iam Tsync Crypto Logging Someip ServiceDiscovery VsProxy Platform SafetyMonitor
    IpcBridge VehicleSignalService VsSwc MainApp Declared Vehicle VehicleRuns LockOrder TimeBaseRaces
    Callbacks UnitTests SafetyRaces AppThreads
begin

text \<open>
  A verification development of MyAutoSarAp, a demonstrator of the AUTOSAR Adaptive Platform in
  C++: a small set of platform services (\<open>ara::*\<close>), an application that consumes the vehicle
  signals an MCU sends over SOME/IP, and three service components that tie the services together.
  All the C++ code that has a body is modelled, by functions on records that are translated
  statement by statement from the sources under src/.

  The parts of the program and the theories that model them. Every theory holds the data, one
  definition per operation in the order of the code, the lemmas and the properties of its part.

  \<^item> \<open>Prelude\<close>: machine words, faults, callbacks, \<open>std::unordered_map\<close> behind the interface
    \<open>hash_map\<close> of the laws its users need, runs of operations and the locales
    \<open>invariant_step\<close> and \<open>invariant_rel\<close> by which invariants are lifted to runs.
  \<^item> \<open>Nm\<close>: network management (nm.cpp): request counts per network, and the handles that hold
    requests. Handles refine counting; a network is active exactly while a valid handle lives.
  \<^item> \<open>Phm\<close>: platform health management (phm.cpp): the entity table, checkpoints, the global status.
  \<^item> \<open>Sm\<close>: state management (sm.cpp): the machine state graph and function groups, which live in a
    heap so that the shared pointers of the code alias.
  \<^item> \<open>Iam\<close>: identity and access management (iam.cpp): tokens, policies, revocation.
  \<^item> \<open>Tsync\<close>: time bases and conversions (tsync.cpp), with checked signed overflow.
  \<^item> \<open>Crypto\<close>: the mock cipher, code, digest and key store (crypto.cpp).
  \<^item> \<open>Logging\<close>: log records and the logger registry (logger.cpp) and the execution client.
  \<^item> \<open>Crc\<close>: the two checksums (someip_proto.h, IPCBridgeService.cpp) over the interface
    \<open>crc_register\<close>, and their equivalence with bit-serial registers over \<open>shift_register\<close>.
  \<^item> \<open>Someip\<close>: SOME/IP messages (someip_binding.cpp, types.h, the base classes).
  \<^item> \<open>ServiceDiscovery\<close>: offers and availability callbacks (someip_binding.cpp).
  \<^item> \<open>VsProxy\<close>: the event queue and the receive path of the consumer (vehicle_signal_proxy.cpp)
    over the interface \<open>dropping_queue\<close>.
  \<^item> \<open>VsSwc\<close>, \<open>MainApp\<close>: the consumer component (vehicle_signal_swc.cpp) and \<open>main\<close> (main.cpp).
  \<^item> \<open>Platform\<close>: the singletons of \<open>GetInstance()\<close> as one record, which the next three share.
  \<^item> \<open>SafetyMonitor\<close>, \<open>IpcBridge\<close>, \<open>VehicleSignalService\<close>: the service components of
    src/application/Swc*.
  \<^item> \<open>Vehicle\<close>, \<open>VehicleRuns\<close>: the three service components in one process over one \<open>Platform\<close>,
    followed by a specification in which each part keeps only its own state, and what follows for
    their runs.
  \<^item> \<open>LockOrder\<close>: the mutexes of service discovery and of the signal proxy, one acquisition at a
    time, while the bridge offers the services of the catalogue.
  \<^item> \<open>AppThreads\<close>: the main thread and the receive thread of the application, one access at a time,
    from the constructor of the proxy to its destructor.
  \<^item> \<open>SafetyRaces\<close>: \<open>EscalateSafetyLevel\<close> in two threads, one statement at a time.
  \<^item> \<open>Callbacks\<close>: callbacks that call back into the singletons, whose mutexes are held meanwhile.
  \<^item> \<open>TimeBaseRaces\<close>: \<open>SetTime\<close> and \<open>ApplyCorrection\<close>, one atomic access at a time.
  \<^item> \<open>Declared\<close>: the data of the interfaces that the repository only declares.
  \<^item> \<open>UnitTests\<close>: the unit tests of src/tests/unit as steps on the singletons they share, over the
    interface \<open>independent_suite\<close>, and in which orders they pass.

  How the model corresponds to the code. A class is a record with a field per member, an enumeration
  is a datatype, or a word with constants where the code converts arbitrary integers to it; an
  integer type is a word of its width; a \<open>float\<close>, which the code only copies, is its 32 bits. A
  \<open>std::function\<close> is a number, and an operation returns the list of the invocations it makes, in
  order, so that who is told what is part of every result. Readings of a clock, of sockets and of
  the random engine are arguments. Undefined behaviour that the code can reach, a null or
  out-of-bounds access, \<open>pop\<close> on an empty queue, signed overflow, use after free, and locking a
  mutex twice are values of the type \<open>fault\<close>, so a property that a call does not fault is a
  property of the code.

  Composition and granularity. An operation is a function, so a sequence of operations is a
  sequence of calls of which each begins after the one before it has returned; the theorems on such
  runs are about calls in any order, one at a time, and where a call is one critical section that
  is all the code does. The code also has calls that overlap without a mutex around them, and these
  have theories of their own, which take them apart: \<open>AppThreads\<close> for the receive thread against
  \<open>Start\<close>, the loop and \<open>Stop\<close> of the application, \<open>SafetyRaces\<close> for escalations, \<open>LockOrder\<close> for the
  two mutexes taken in both orders, \<open>TimeBaseRaces\<close> for time bases. \<open>AppThreads.start_alone\<close> and
  \<open>SafetyRaces.escalation_alone\<close> show that the steps, undisturbed, are the operations.
  \<open>Callbacks\<close> gives the callbacks bodies and shows that an operation that returns did what it does
  with silent ones.

  \<open>MainApp.main_step\<close> interleaves whole rounds of the receive thread, of the main loop, and signals. The service
  components act on the shared \<open>Platform\<close>, and \<open>safety_step\<close> and \<open>bridge_step\<close> let other clients'
  calls come between theirs. No build file and no \<open>main\<close> puts the three of them together; since
  \<open>GetInstance()\<close> is a singleton of the process, they meet when one process hosts them, and
  \<open>Vehicle.vehicle_step\<close> is that process: every call on every component, in any order, with the
  availability calls a round of the bridge causes delivered to the signal service when the round
  ends, which changes nothing since the rest of the round touches nothing the lambda does.
  \<open>monitor_and_bridge_run_as_alone\<close> shows that the monitor and the bridge do what each does alone;
  the signal service is driven by the bridge. \<open>Vehicle.watch_step\<close> says where the whole faults, which
  depends on several parts at once; an order of calls that avoids all faults is
  \<open>VehicleRuns.orderly\<close>. The theorem of this file combines the bridge, service discovery and the
  vehicle signal service.

  What the groups of lemmas show. Invariants over all sequences of operations (networks and
  handles, machine and connection states, safety levels, availability callbacks, statistics);
  functional behaviour of the decisions (access, global status, handshake, parsing); round trips
  (messages, time points, log records, encryption); refinement (request counting, the safety
  level as a maximum, the phases of \<open>main\<close>); equivalence (checksums); error paths (rejected
  frames, out-of-bounds accesses, deadlock, a lambda that outlives its component); interleavings
  (the threads of the application, overlapping escalations, lock order, nested callbacks, lost
  corrections); and, where the code falls short of its comments, theorems that
  say exactly how: health management never leaves normal, the heartbeat refreshes itself, stopping the
  application races with its receive thread, overlapping escalations can lose an emergency, the
  signal service delivers only signals it makes up.

  Bounds and loops. Loops over data are structural recursions, the inner checksum loop counts its
  eight rounds, and the endless loops of \<open>Run\<close> and \<open>main\<close> are given one element of a list per
  round, for lists of every length, so no fuel is needed and every definition is total.

  Texts. Literals are those of the source, dashes and the title of the statistics as the bytes of
  their UTF-8 encoding. The constant notes in some records of the application, and the log texts of
  the proxy, are left out.

  Not modelled: the formatting of numbers by \<open>printf\<close> and streams; the sockets and threads
  themselves, whose results and interleavings are inputs; \<open>ServiceFinder\<close>, \<open>DiagnosticMonitor\<close>,
  \<open>KeyValueStorage\<close>, \<open>EventPublisher\<close> and \<open>EventSubscriber\<close> beyond their data, since their
  operations are declared and defined nowhere; the enumerator \<open>kTerminating\<close>, which three
  components name and nothing declares, so that it is an argument here; of the unit tests those of
  object identity, of enumerator numbers the model does without, of what the compiler checks, and
  of code that merely should not crash. What is left of the sources has no body to translate:
  declarations, type aliases, deleted copies and \<open>GetInstance\<close>.
\<close>

section \<open>Properties that span components\<close>

text \<open>
  C18: the two services of the vehicle signals cannot start in their natural order. Once the bridge
  has completed its handshake, which puts service 0x1001 on offer, initialising the vehicle
  signal service on the same platform deadlocks on its own mutex.
\<close>

theorem signal_service_deadlocks_after_handshake:
  assumes "0 < tpm" and "GetConnectionState (bw_ib w) = IpcConnectionState.kHandshake"
    and "GetGpioSignal kSocReady (bw_ib w)"
    and "ib_handshakeStartTime (bw_ib w) + 101 * tpm \<le> now 0"
    and "now 0 < ib_handshakeStartTime (bw_ib w) + 2001 * tpm"
  shows "Swc_Init acb t' (swc, bw_pf (Run_round tpm t now w), calls) = Inl SelfDeadlock"
proof -
  have "0x1001 \<in> sd_serviceId ` set kServiceCatalog" by code_simp
  then have "offered (pf_sd (bw_pf (Run_round tpm t now w))) 0x1001"
    using handshake_round [of tpm w now t] assms by (simp add: GetConnectionState_def Let_def)
  then show ?thesis by (simp add: Swc_Init_def Let_def subscribe_deadlock [THEN iffD2])
qed

theorem signal_service_deadlocks_after_handshake_witness:
  "Swc_Init 7 160 (VehicleSignalServiceSWC_ctor,
     bw_pf (Run_round 1 150 (\<lambda>_. 150) (snd (Bridge_Init (\<lambda>_. 0) (bridge_start int)))), []) = Inl SelfDeadlock"
  by (rule signal_service_deadlocks_after_handshake) code_simp+

end
